(* ===== verification/Prelude.thy ===== *)
theory Prelude
  imports Main "HOL-Library.Word" "HOL-Library.Monad_Syntax" "HOL-Library.Signed_Division"
begin

text \<open>
  Shared material of the development: the C machine view used by every component.
  \<^item> A C computation that may run into undefined behaviour (an array access out of range, a
    null or dangling pointer that is dereferenced) is a value of an option type, and \<open>None\<close>
    stands for the undefined behaviour. Ordinary failures (return codes) stay ordinary values.
  \<^item> C arrays are lists of a fixed length, read and written through \<open>arr_get\<close> and
    \<open>arr_set\<close>, which are \<open>None\<close> out of range.
  \<^item> Bit-fields of a one-byte structure are read and written through \<open>get_bits\<close> and
    \<open>set_bits\<close> on \<open>8 word\<close>, the first field at the least significant bit, which is the
    layout of the x86 ABI the projects are built for.
\<close>

unbundle bit_operations_syntax

type_synonym byte = "8 word"

named_theorems c_simps \<open>evaluation of the C machine primitives\<close>

section \<open>C arrays\<close>

definition in_range :: "int \<Rightarrow> nat \<Rightarrow> bool" where
  "in_range i n \<longleftrightarrow> 0 \<le> i \<and> i < int n"

definition arr_get :: "'a list \<Rightarrow> int \<Rightarrow> 'a option" where
  "arr_get xs i = (if in_range i (length xs) then Some (xs ! nat i) else None)"

definition arr_set :: "'a list \<Rightarrow> int \<Rightarrow> 'a \<Rightarrow> 'a list option" where
  "arr_set xs i v = (if in_range i (length xs) then Some (xs[nat i := v]) else None)"

declare in_range_def [c_simps] arr_get_def [c_simps]

lemma in_range_int [simp]: "in_range (int k) n \<longleftrightarrow> k < n"
  by (simp add: in_range_def)

lemma arr_get_int [simp]: "k < length xs \<Longrightarrow> arr_get xs (int k) = Some (xs ! k)"
  by (simp add: arr_get_def)

lemma arr_set_int [simp]: "k < length xs \<Longrightarrow> arr_set xs (int k) v = Some (xs[k := v])"
  by (simp add: arr_set_def)

section \<open>Finite searches: the loops that scan an array from its first element\<close>

text \<open>The least index below a bound that satisfies a predicate, found by counting up.\<close>

fun first_from :: "(nat \<Rightarrow> bool) \<Rightarrow> nat \<Rightarrow> nat \<Rightarrow> nat option" where
  "first_from p i 0 = None"
| "first_from p i (Suc n) = (if p i then Some i else first_from p (Suc i) n)"

definition first_index :: "(nat \<Rightarrow> bool) \<Rightarrow> nat \<Rightarrow> nat option" where
  "first_index p n = first_from p 0 n"

lemma first_from_Some_iff:
  "first_from p i n = Some k \<longleftrightarrow> i \<le> k \<and> k < i + n \<and> p k \<and> (\<forall>j. i \<le> j \<and> j < k \<longrightarrow> \<not> p j)"
proof (induction n arbitrary: i)
  case 0
  then show ?case by simp
next
  case (Suc n)
  show ?case
  proof (cases "p i")
    case True
    then show ?thesis by (auto intro: le_antisym dest: not_le_imp_less)
  next
    case False
    then have "first_from p i (Suc n) = Some k \<longleftrightarrow>
        Suc i \<le> k \<and> k < Suc i + n \<and> p k \<and> (\<forall>j. Suc i \<le> j \<and> j < k \<longrightarrow> \<not> p j)"
      by (simp add: Suc.IH)
    with False show ?thesis
      by (auto simp: Suc_le_eq) (metis le_neq_implies_less)+
  qed
qed

lemma first_from_None_iff: "first_from p i n = None \<longleftrightarrow> (\<forall>k. i \<le> k \<and> k < i + n \<longrightarrow> \<not> p k)"
proof (induction n arbitrary: i)
  case 0
  then show ?case by auto
next
  case (Suc n)
  have "(\<forall>k. i \<le> k \<and> k < i + Suc n \<longrightarrow> \<not> p k) \<longleftrightarrow>
      \<not> p i \<and> (\<forall>k. Suc i \<le> k \<and> k < Suc i + n \<longrightarrow> \<not> p k)"
    by (auto simp: Suc_le_eq) (metis le_neq_implies_less)
  with Suc show ?case by simp
qed

lemma first_index_Some_iff:
  "first_index p n = Some k \<longleftrightarrow> k < n \<and> p k \<and> (\<forall>j<k. \<not> p j)"
  by (auto simp: first_index_def first_from_Some_iff)

lemma first_index_None_iff: "first_index p n = None \<longleftrightarrow> (\<forall>k<n. \<not> p k)"
  by (simp add: first_index_def first_from_None_iff)

lemma first_index_cong: "(\<And>k. k < n \<Longrightarrow> p k = q k) \<Longrightarrow> first_index p n = first_index q n"
proof (cases "first_index q n")
  case None
  assume "\<And>k. k < n \<Longrightarrow> p k = q k"
  with None have "first_index p n = None" by (simp add: first_index_None_iff)
  with None show ?thesis by simp
next
  case (Some k)
  assume "\<And>k. k < n \<Longrightarrow> p k = q k"
  with Some have "first_index p n = Some k" by (simp add: first_index_Some_iff)
  with Some show ?thesis by simp
qed

section \<open>Bit-fields of a one-byte structure\<close>

definition get_bits :: "nat \<Rightarrow> nat \<Rightarrow> byte \<Rightarrow> int" where
  "get_bits lo w b = uint (take_bit w (drop_bit lo b))"

definition set_bits :: "nat \<Rightarrow> nat \<Rightarrow> int \<Rightarrow> byte \<Rightarrow> byte" where
  "set_bits lo w v b =
     (b AND NOT (push_bit lo (mask w))) OR push_bit lo (take_bit w (word_of_int v))"

lemma get_set_bits_same:
  "lo + w \<le> 8 \<Longrightarrow> get_bits lo w (set_bits lo w v b) = v mod 2 ^ w"
  by (rule bit_eqI)
    (auto simp: get_bits_def set_bits_def bit_simps take_bit_eq_mod [symmetric])

lemma get_set_bits_other:
  "lo + w \<le> lo' \<or> lo' + w' \<le> lo \<Longrightarrow> get_bits lo w (set_bits lo' w' v b) = get_bits lo w b"
  by (rule bit_eqI)
    (auto simp: get_bits_def set_bits_def bit_simps dest: bit_imp_le_length)

lemma get_bits_nonneg [simp]: "0 \<le> get_bits lo w b"
  by (simp add: get_bits_def)

lemma get_bits_less: "get_bits lo w b < 2 ^ w"
proof -
  have "get_bits lo w b = take_bit w (uint (drop_bit lo b))"
    by (rule bit_eqI) (auto simp: get_bits_def bit_simps)
  then show ?thesis by simp
qed

section \<open>Transition systems\<close>

text \<open>
  The contract of a step relation with an invariant: the invariant holds at the start and
  every step keeps it. Clients then know it of every reachable state. The concurrent
  components interpret it.
\<close>

inductive reach :: "('s \<Rightarrow> bool) \<Rightarrow> ('s \<Rightarrow> 's \<Rightarrow> bool) \<Rightarrow> 's \<Rightarrow> bool"
  for init :: "'s \<Rightarrow> bool" and step :: "'s \<Rightarrow> 's \<Rightarrow> bool" where
  reach_init: "init s \<Longrightarrow> reach init step s"
| reach_step: "reach init step s \<Longrightarrow> step s t \<Longrightarrow> reach init step t"

locale invariant_system =
  fixes init :: "'s \<Rightarrow> bool"
    and step :: "'s \<Rightarrow> 's \<Rightarrow> bool"
    and inv :: "'s \<Rightarrow> bool"
  assumes inv_init: "init s \<Longrightarrow> inv s"
    and inv_step: "inv s \<Longrightarrow> step s t \<Longrightarrow> inv t"
begin

lemma reach_inv: "reach init step s \<Longrightarrow> inv s"
  by (induction rule: reach.induct) (auto intro: inv_init inv_step)

lemma reach_safe: "(\<And>s. inv s \<Longrightarrow> \<not> bad s) \<Longrightarrow> reach init step s \<Longrightarrow> \<not> bad s"
  using reach_inv by blast

end

end
