(* ===== verification/Paging.thy ===== *)
theory Paging
  imports Prelude
begin

text \<open>
  What the two paging simulators of Project4 share: the constants of \<open>pageTable.h\<close>, the
  memory \<open>mem.c\<close> declares (\<open>mainMemory\<close>, \<open>procTable\<close>), the first two bit-fields of
  \<open>page_t\<close>, pointers to a \<open>page_t\<close>, the printed messages, and the abstract virtual memory
  that both page tables implement.
\<close>

section \<open>Constants and memory\<close>

abbreviation MAX_PROCESSES :: nat where "MAX_PROCESSES \<equiv> 4"
abbreviation PHYS_MEM_SIZE :: nat where "PHYS_MEM_SIZE \<equiv> 64"
abbreviation VIRT_ADD_SPACE :: nat where "VIRT_ADD_SPACE \<equiv> 64"
abbreviation PAGE_SIZE :: nat where "PAGE_SIZE \<equiv> 16"
abbreviation PAGE_FRAMES :: nat where "PAGE_FRAMES \<equiv> 4"

text \<open>One constructor per \<open>printf\<close> of \<open>pageTable.c\<close> and \<open>mem.c\<close>.\<close>

datatype msg =
    PutTable int int            \<comment> \<open>Put page table for PID in physical frame\<close>
  | NoFrameForTable int         \<comment> \<open>Unable to find a free physical frame for PID page table\<close>
  | NoTable int                 \<comment> \<open>Unable to find page table for PID\<close>
  | UpdatingWrite int           \<comment> \<open>Updating write permissions on page\<close>
  | NoFrameForPage              \<comment> \<open>Unable to find a free physical frame for new page\<close>
  | MappedPage int int int      \<comment> \<open>Mapped virtual address (page) to physical frame\<close>
  | NoPages int                 \<comment> \<open>PID has no pages associated with it\<close>
  | NoFrameMapped int int       \<comment> \<open>Virtual address has no frame mapped for PID\<close>
  | WriteForbidden int int      \<comment> \<open>Writing is forbidden at virtual address for PID\<close>
  | StoredValue int int int     \<comment> \<open>Stored value at virtual address (physical address)\<close>
  | ReadValue int int int       \<comment> \<open>Read value at virtual address (physical address)\<close>
  | SkippedFrame int            \<comment> \<open>Skipped moving physical frame to the backing store\<close>
  | UnloadingTable int          \<comment> \<open>Unloading contents of page table for PID\<close>
  | MovedFrame int int          \<comment> \<open>Moved physical frame to backing store slot\<close>
  | LoadedTable int int         \<comment> \<open>Loaded page table for PID from the backing store\<close>
  | LoadedPage int int int      \<comment> \<open>Loaded page for PID from the backing store\<close>
  | Prompt                      \<comment> \<open>cmd:\<close>
  | AddressOutOfBounds
  | PidOutOfBounds
  | BadWriteFlag                \<comment> \<open>Write flag may only be 0 or 1\<close>
  | InvalidInstruction

text \<open>
  The globals of \<open>mem.c\<close>. A \<open>page_t\<close> is one byte (\<open>sizeof(page_t)\<close> is 1), and page table
  entries are bytes of \<open>mainMemory\<close> that are cast, so both arrays hold bytes.
\<close>

record pmem =
  mainMemory :: "byte list"
  procTable :: "byte list"
  console :: "msg list"

definition say :: "msg \<Rightarrow> 'a pmem_scheme \<Rightarrow> 'a pmem_scheme" where
  "say m s = s\<lparr>console := console s @ [m]\<rparr>"

section \<open>The bit-fields valid and write, pointers to a page\<close>

definition pg_valid :: "byte \<Rightarrow> bool" where
  "pg_valid b \<longleftrightarrow> get_bits 0 1 b \<noteq> 0"

definition pg_write :: "byte \<Rightarrow> int" where
  "pg_write b = get_bits 1 1 b"

definition set_valid :: "int \<Rightarrow> byte \<Rightarrow> byte" where
  "set_valid v b = set_bits 0 1 v b"

definition set_write :: "int \<Rightarrow> byte \<Rightarrow> byte" where
  "set_write v b = set_bits 1 1 v b"

datatype page_ptr = Null | ProcEntry int | MemEntry int

fun pg_read :: "'a pmem_scheme \<Rightarrow> page_ptr \<Rightarrow> byte option" where
  "pg_read s Null = None"
| "pg_read s (ProcEntry i) = arr_get (procTable s) i"
| "pg_read s (MemEntry j) = arr_get (mainMemory s) j"

fun pg_modify :: "'a pmem_scheme \<Rightarrow> page_ptr \<Rightarrow> (byte \<Rightarrow> byte) \<Rightarrow> 'a pmem_scheme option" where
  "pg_modify s Null f = None"
| "pg_modify s (ProcEntry i) f = do {
     b \<leftarrow> arr_get (procTable s) i;
     t \<leftarrow> arr_set (procTable s) i (f b);
     Some (s\<lparr>procTable := t\<rparr>) }"
| "pg_modify s (MemEntry j) f = do {
     b \<leftarrow> arr_get (mainMemory s) j;
     m \<leftarrow> arr_set (mainMemory s) j (f b);
     Some (s\<lparr>mainMemory := m\<rparr>) }"

lemma say_fields [simp]:
  "mainMemory (say m s) = mainMemory s" "procTable (say m s) = procTable s"
  "pmem.more (say m s) = pmem.more s" "console (say m s) = console s @ [m]"
  by (simp_all add: say_def)

lemma pg_modify_proc [simp]:
  "i < length (procTable s) \<Longrightarrow>
   pg_modify s (ProcEntry (int i)) f = Some (s\<lparr>procTable := (procTable s)[i := f (procTable s ! i)]\<rparr>)"
  by simp

lemma pg_modify_mem [simp]:
  "j < length (mainMemory s) \<Longrightarrow>
   pg_modify s (MemEntry (int j)) f = Some (s\<lparr>mainMemory := (mainMemory s)[j := f (mainMemory s ! j)]\<rparr>)"
  by simp

lemma pg_valid_set_valid [simp]: "pg_valid (set_valid v b) \<longleftrightarrow> odd v"
  by (simp add: pg_valid_def set_valid_def get_set_bits_same odd_iff_mod_2_eq_one)

lemma pg_valid_set_write [simp]: "pg_valid (set_write v b) = pg_valid b"
  by (simp add: pg_valid_def set_write_def get_set_bits_other)

lemma pg_write_set_write [simp]: "pg_write (set_write v b) = v mod 2"
  by (simp add: pg_write_def set_write_def get_set_bits_same)

lemma pg_write_set_valid [simp]: "pg_write (set_valid v b) = pg_write b"
  by (simp add: pg_write_def set_valid_def get_set_bits_other)

lemma pg_write_cases: "pg_write b = 0 \<or> pg_write b = 1"
proof -
  have "0 \<le> pg_write b" and "pg_write b < 2"
    using get_bits_less [of 1 1 b] by (simp_all add: pg_write_def)
  then show ?thesis by arith
qed

lemma not_valid_zero [simp]: "\<not> pg_valid 0"
  by (simp add: pg_valid_def get_bits_def)

section \<open>Frames\<close>

definition frame_bytes :: "byte list \<Rightarrow> nat \<Rightarrow> byte list" where
  "frame_bytes m f = take PAGE_SIZE (drop (f * PAGE_SIZE) m)"

lemma length_frame_bytes [simp]:
  "length m = PHYS_MEM_SIZE \<Longrightarrow> f < PAGE_FRAMES \<Longrightarrow> length (frame_bytes m f) = PAGE_SIZE"
  by (simp add: frame_bytes_def)

lemma nth_frame_bytes:
  "length m = PHYS_MEM_SIZE \<Longrightarrow> f < PAGE_FRAMES \<Longrightarrow> k < PAGE_SIZE \<Longrightarrow>
   frame_bytes m f ! k = m ! (f * PAGE_SIZE + k)"
  by (simp add: frame_bytes_def)

lemma frame_bytes_update_other:
  "f \<noteq> g \<Longrightarrow> k < PAGE_SIZE \<Longrightarrow> frame_bytes (m[g * PAGE_SIZE + k := v]) f = frame_bytes m f"
  by (rule nth_equalityI) (auto simp: frame_bytes_def nth_list_update)

lemma frame_bytes_update_same:
  "length m = PHYS_MEM_SIZE \<Longrightarrow> f < PAGE_FRAMES \<Longrightarrow> k < PAGE_SIZE \<Longrightarrow>
   frame_bytes (m[f * PAGE_SIZE + k := v]) f = (frame_bytes m f)[k := v]"
  by (rule nth_equalityI) (auto simp: frame_bytes_def nth_list_update)

section \<open>The virtual memory both page tables promise\<close>

text \<open>
  An abstract address space: for a process and a page number, whether the page is mapped,
  and then its write permission and its sixteen bytes. The abstract operations say what
  \<open>store\<close>, \<open>load\<close> and \<open>map_page\<close> do on every branch.
\<close>

type_synonym vspace = "nat \<times> nat \<Rightarrow> (bool \<times> byte list) option"

definition page_no :: "int \<Rightarrow> nat" where
  "page_no a = nat a div PAGE_SIZE"

definition page_off :: "int \<Rightarrow> nat" where
  "page_off a = nat a mod PAGE_SIZE"

definition spec_store :: "vspace \<Rightarrow> nat \<Rightarrow> int \<Rightarrow> byte \<Rightarrow> vspace \<times> int" where
  "spec_store V i a v =
     (case V (i, page_no a) of
        Some (True, d) \<Rightarrow> (V((i, page_no a) \<mapsto> (True, d[page_off a := v])), 1)
      | _ \<Rightarrow> (V, 0))"

definition spec_load :: "vspace \<Rightarrow> nat \<Rightarrow> int \<Rightarrow> byte option" where
  "spec_load V i a = map_option (\<lambda>(w, d). d ! page_off a) (V (i, page_no a))"

text \<open>A page that is mapped keeps its contents and gets the new permission; a page that is
  not mapped is mapped with whatever the frame held, or stays unmapped when memory is full.\<close>

definition spec_map :: "vspace \<Rightarrow> nat \<Rightarrow> int \<Rightarrow> bool \<Rightarrow> vspace \<Rightarrow> bool" where
  "spec_map V i a w V' \<longleftrightarrow>
     (case V (i, page_no a) of
        Some (_, d) \<Rightarrow> V' = V((i, page_no a) \<mapsto> (w, d))
      | None \<Rightarrow> V' = V \<or> (\<exists>d. length d = PAGE_SIZE \<and> V' = V((i, page_no a) \<mapsto> (w, d))))"

lemma page_no_less: "0 \<le> a \<Longrightarrow> a < int VIRT_ADD_SPACE \<Longrightarrow> page_no a < 4"
  by (simp add: page_no_def nat_less_iff less_mult_imp_div_less)

lemma page_off_less [simp]: "page_off a < PAGE_SIZE"
  by (simp add: page_off_def)

lemma sdiv_page: "0 \<le> a \<Longrightarrow> a sdiv int PAGE_SIZE = int (page_no a)"
  by (cases "a = 0") (simp_all add: signed_divide_int_def page_no_def zdiv_int)

lemma smod_page: "0 \<le> a \<Longrightarrow> a smod int PAGE_SIZE = int (page_off a)"
  by (cases "a = 0")
    (simp_all add: signed_modulo_int_def signed_divide_int_def page_off_def zmod_int
      minus_mult_div_eq_mod)

section \<open>References to frames\<close>

text \<open>
  A frame is in use when something live refers to it: the page table of a process
  (\<open>Tab i\<close>, through \<open>procTable[i]\<close>) or a valid entry of a page table in memory
  (\<open>Ent i n\<close>). The two simulators give the frame number a different width, so the field
  is a parameter \<open>fr\<close> here.
\<close>

datatype pref = Tab nat | Ent nat nat

definition all_refs :: "pref list" where
  "all_refs = map Tab [0..<MAX_PROCESSES] @
     concat (map (\<lambda>i. map (Ent i) [0..<PAGE_SIZE]) [0..<MAX_PROCESSES])"

definition tabf :: "(byte \<Rightarrow> int) \<Rightarrow> 'a pmem_scheme \<Rightarrow> nat \<Rightarrow> nat" where
  "tabf fr s i = nat (fr (procTable s ! i))"

fun ref_byte :: "(byte \<Rightarrow> int) \<Rightarrow> 'a pmem_scheme \<Rightarrow> pref \<Rightarrow> byte" where
  "ref_byte fr s (Tab i) = procTable s ! i"
| "ref_byte fr s (Ent i n) = mainMemory s ! (tabf fr s i * PAGE_SIZE + n)"

fun live :: "(byte \<Rightarrow> int) \<Rightarrow> 'a pmem_scheme \<Rightarrow> pref \<Rightarrow> bool" where
  "live fr s (Tab i) \<longleftrightarrow> i < MAX_PROCESSES \<and> pg_valid (procTable s ! i)"
| "live fr s (Ent i n) \<longleftrightarrow> i < MAX_PROCESSES \<and> n < PAGE_SIZE \<and> pg_valid (procTable s ! i) \<and>
     pg_valid (ref_byte fr s (Ent i n))"

definition ref_frame :: "(byte \<Rightarrow> int) \<Rightarrow> 'a pmem_scheme \<Rightarrow> pref \<Rightarrow> int" where
  "ref_frame fr s r = fr (ref_byte fr s r)"

text \<open>The type invariant of the memory: fixed sizes, every frame number in range, and no frame
  referred to twice.\<close>

definition wf_refs :: "(byte \<Rightarrow> int) \<Rightarrow> 'a pmem_scheme \<Rightarrow> bool" where
  "wf_refs fr s \<longleftrightarrow> length (mainMemory s) = PHYS_MEM_SIZE \<and> length (procTable s) = MAX_PROCESSES \<and>
     (\<forall>r\<in>set all_refs. live fr s r \<longrightarrow> in_range (ref_frame fr s r) PAGE_FRAMES) \<and>
     (\<forall>r\<in>set all_refs. \<forall>r'\<in>set all_refs. live fr s r \<and> live fr s r' \<and>
        ref_frame fr s r = ref_frame fr s r' \<longrightarrow> r = r')"

definition used :: "(byte \<Rightarrow> int) \<Rightarrow> 'a pmem_scheme \<Rightarrow> int \<Rightarrow> bool" where
  "used fr s f \<longleftrightarrow> (\<exists>r\<in>set all_refs. live fr s r \<and> ref_frame fr s r = f)"

text \<open>The mapped pages of memory as an abstract address space.\<close>

definition vview :: "(byte \<Rightarrow> int) \<Rightarrow> 'a pmem_scheme \<Rightarrow> vspace" where
  "vview fr s = (\<lambda>(i, n). if live fr s (Ent i n)
     then Some (pg_write (ref_byte fr s (Ent i n)) \<noteq> 0,
                frame_bytes (mainMemory s) (nat (ref_frame fr s (Ent i n))))
     else None)"

lemma mem_all_refs: "r \<in> set all_refs \<longleftrightarrow>
    (case r of Tab i \<Rightarrow> i < MAX_PROCESSES | Ent i n \<Rightarrow> i < MAX_PROCESSES \<and> n < PAGE_SIZE)"
  by (cases r) (fastforce simp: all_refs_def)+

lemma live_all_refs: "live fr s r \<Longrightarrow> r \<in> set all_refs"
  by (cases r) (auto simp: mem_all_refs)

lemma wf_refs_lengths:
  "wf_refs fr s \<Longrightarrow> length (mainMemory s) = PHYS_MEM_SIZE"
  "wf_refs fr s \<Longrightarrow> length (procTable s) = MAX_PROCESSES"
  by (simp_all add: wf_refs_def)

lemma wf_refs_frame: "wf_refs fr s \<Longrightarrow> live fr s r \<Longrightarrow> in_range (ref_frame fr s r) PAGE_FRAMES"
  by (auto simp: wf_refs_def dest: live_all_refs)

lemma wf_refs_inj:
  "wf_refs fr s \<Longrightarrow> live fr s r \<Longrightarrow> live fr s r' \<Longrightarrow> ref_frame fr s r = ref_frame fr s r' \<Longrightarrow> r = r'"
  using live_all_refs [of fr s r] live_all_refs [of fr s r'] unfolding wf_refs_def by blast

lemma wf_refsI:
  assumes "length (mainMemory s) = PHYS_MEM_SIZE" "length (procTable s) = MAX_PROCESSES"
    and "\<And>r. live fr s r \<Longrightarrow> in_range (ref_frame fr s r) PAGE_FRAMES"
    and "\<And>r r'. live fr s r \<Longrightarrow> live fr s r' \<Longrightarrow> ref_frame fr s r = ref_frame fr s r' \<Longrightarrow> r = r'"
  shows "wf_refs fr s"
  using assms by (auto simp: wf_refs_def)

lemma used_iff: "used fr s f \<longleftrightarrow> (\<exists>r. live fr s r \<and> ref_frame fr s r = f)"
  by (auto simp: used_def dest: live_all_refs)

lemma live_Ent_Tab: "live fr s (Ent i n) \<Longrightarrow> live fr s (Tab i)"
  by simp

lemma wf_refs_tabf:
  assumes "wf_refs fr s" "live fr s (Tab i)"
  shows "tabf fr s i < PAGE_FRAMES" and "fr (procTable s ! i) = int (tabf fr s i)"
  using wf_refs_frame [OF assms] by (auto simp: ref_frame_def tabf_def in_range_def)

lemma index_frame_eq:
  assumes "k < PAGE_SIZE" "n < PAGE_SIZE" "f * PAGE_SIZE + k = g * PAGE_SIZE + n"
  shows "f = g \<and> k = n"
  using assms by presburger

lemma index_frame_less:
  "f < PAGE_FRAMES \<Longrightarrow> k < PAGE_SIZE \<Longrightarrow> f * PAGE_SIZE + k < PHYS_MEM_SIZE"
  by presburger

text \<open>Two states agree outside the frame \<open>g\<close>.\<close>

definition agree_outside :: "nat \<Rightarrow> byte list \<Rightarrow> byte list \<Rightarrow> bool" where
  "agree_outside g m m' \<longleftrightarrow> length m' = length m \<and>
     (\<forall>f<PAGE_FRAMES. f \<noteq> g \<longrightarrow> (\<forall>k<PAGE_SIZE. m' ! (f * PAGE_SIZE + k) = m ! (f * PAGE_SIZE + k)))"

lemma agree_outside_update: "k < PAGE_SIZE \<Longrightarrow> agree_outside g m (m[g * PAGE_SIZE + k := v])"
  by (auto simp: agree_outside_def nth_list_update dest: index_frame_eq)

lemma agree_outside_refl [simp]: "agree_outside g m m"
  by (simp add: agree_outside_def)

lemma agree_outside_frame_bytes:
  assumes "agree_outside g m m'" "length m = PHYS_MEM_SIZE" "f < PAGE_FRAMES" "f \<noteq> g"
  shows "frame_bytes m' f = frame_bytes m f"
  using assms by (intro nth_equalityI) (auto simp: agree_outside_def nth_frame_bytes)

text \<open>Writing into a frame that holds no page table changes no reference.\<close>

lemma refs_write_data:
  assumes wf: "wf_refs fr s" and ag: "agree_outside g (mainMemory s) (mainMemory s')"
    and pt: "procTable s' = procTable s"
    and notab: "\<And>i. live fr s (Tab i) \<Longrightarrow> tabf fr s i \<noteq> g"
  shows "live fr s' r = live fr s r" and "live fr s r \<Longrightarrow> ref_byte fr s' r = ref_byte fr s r"
proof -
  have tf: "tabf fr s' i = tabf fr s i" for i
    using pt by (simp add: tabf_def)
  have ent: "ref_byte fr s' (Ent i n) = ref_byte fr s (Ent i n)"
    if "live fr s (Tab i)" "n < PAGE_SIZE" for i n
    using that wf_refs_tabf(1) [OF wf that(1)] notab [OF that(1)] ag
    by (auto simp: tf agree_outside_def)
  show "live fr s' r = live fr s r"
    using ent pt by (cases r) auto
  show "live fr s r \<Longrightarrow> ref_byte fr s' r = ref_byte fr s r"
    using ent pt by (cases r) auto
qed

lemma wf_refs_same:
  assumes "wf_refs fr s" "length (mainMemory s') = PHYS_MEM_SIZE"
    "length (procTable s') = MAX_PROCESSES"
    and "\<And>r. live fr s' r = live fr s r"
    and "\<And>r. live fr s r \<Longrightarrow> ref_byte fr s' r = ref_byte fr s r"
  shows "wf_refs fr s'"
proof (rule wf_refsI)
  have rf: "ref_frame fr s' r = ref_frame fr s r" if "live fr s' r" for r
    using assms(4,5) that by (simp add: ref_frame_def)
  show "in_range (ref_frame fr s' r) PAGE_FRAMES" if "live fr s' r" for r
    using wf_refs_frame [OF assms(1)] rf [OF that] assms(4) that by simp
  show "r = r'" if "live fr s' r" "live fr s' r'" "ref_frame fr s' r = ref_frame fr s' r'" for r r'
    using wf_refs_inj [OF assms(1)] rf that assms(4) by metis
qed (use assms in auto)

lemma live_Tab_distinct:
  assumes "wf_refs fr s" "live fr s (Tab i)" "live fr s (Tab j)" "tabf fr s i = tabf fr s j"
  shows "i = j"
proof -
  have "ref_frame fr s (Tab i) = ref_frame fr s (Tab j)"
    using wf_refs_tabf(2) [OF assms(1,2)] wf_refs_tabf(2) [OF assms(1,3)] assms(4)
    by (simp add: ref_frame_def)
  from wf_refs_inj [OF assms(1-3) this] show ?thesis by simp
qed

lemma live_Ent_frame_not_tab:
  assumes "wf_refs fr s" "live fr s (Ent i n)" "live fr s (Tab j)"
  shows "tabf fr s j \<noteq> nat (ref_frame fr s (Ent i n))"
proof
  assume "tabf fr s j = nat (ref_frame fr s (Ent i n))"
  then have "ref_frame fr s (Tab j) = ref_frame fr s (Ent i n)"
    using wf_refs_frame [OF assms(1,2)] wf_refs_tabf(2) [OF assms(1,3)]
    by (simp add: ref_frame_def in_range_def)
  from wf_refs_inj [OF assms(1,3,2) this] show False by simp
qed

lemma vview_eq_None: "vview fr s (i, n) = None \<longleftrightarrow> \<not> live fr s (Ent i n)"
  by (simp add: vview_def)

lemma vview_eq_Some:
  "live fr s (Ent i n) \<Longrightarrow> vview fr s (i, n) =
     Some (pg_write (ref_byte fr s (Ent i n)) \<noteq> 0,
           frame_bytes (mainMemory s) (nat (ref_frame fr s (Ent i n))))"
  by (simp add: vview_def)

text \<open>Writing one byte of a mapped page changes that byte of that page and nothing else.\<close>

lemma store_byte:
  assumes wf: "wf_refs fr s" and lv: "live fr s (Ent i n)" and k: "k < PAGE_SIZE"
    and m: "mainMemory s' =
      (mainMemory s)[nat (ref_frame fr s (Ent i n)) * PAGE_SIZE + k := v]"
    and pt: "procTable s' = procTable s"
  shows "wf_refs fr s'" and "live fr s' r = live fr s r"
    and "live fr s r \<Longrightarrow> ref_byte fr s' r = ref_byte fr s r"
    and "vview fr s' = (vview fr s)((i, n) \<mapsto> (pg_write (ref_byte fr s (Ent i n)) \<noteq> 0,
           (frame_bytes (mainMemory s) (nat (ref_frame fr s (Ent i n))))[k := v]))"
proof -
  let ?g = "nat (ref_frame fr s (Ent i n))"
  have ag: "agree_outside ?g (mainMemory s) (mainMemory s')"
    using agree_outside_update [OF k] m by simp
  have g: "?g < PAGE_FRAMES"
    using wf_refs_frame [OF wf lv] by (auto simp: in_range_def)
  note refs = refs_write_data [OF wf ag pt live_Ent_frame_not_tab [OF wf lv]]
  show lv': "live fr s' r = live fr s r" for r by (rule refs(1))
  show by': "live fr s r \<Longrightarrow> ref_byte fr s' r = ref_byte fr s r" for r by (rule refs(2))
  show "wf_refs fr s'"
    by (rule wf_refs_same [OF wf]) (use lv' by' pt m wf_refs_lengths [OF wf] in auto)
  have rf: "live fr s r \<Longrightarrow> ref_frame fr s' r = ref_frame fr s r" for r
    by (simp add: ref_frame_def by')
  show "vview fr s' = (vview fr s)((i, n) \<mapsto> (pg_write (ref_byte fr s (Ent i n)) \<noteq> 0,
           (frame_bytes (mainMemory s) ?g)[k := v]))"
  proof (rule ext, clarify)
    fix j l
    show "vview fr s' (j, l) = ((vview fr s)((i, n) \<mapsto> (pg_write (ref_byte fr s (Ent i n)) \<noteq> 0,
           (frame_bytes (mainMemory s) ?g)[k := v]))) (j, l)"
    proof (cases "(j, l) = (i, n)")
      case True
      with lv lv' by' rf m k g wf_refs_lengths(1) [OF wf] show ?thesis
        by (simp add: vview_eq_Some frame_bytes_update_same del: live.simps ref_byte.simps)
    next
      case False
      show ?thesis
      proof (cases "live fr s (Ent j l)")
        case True
        have "ref_frame fr s (Ent j l) \<noteq> ref_frame fr s (Ent i n)"
          using wf_refs_inj [OF wf True lv] False by auto
        then have "nat (ref_frame fr s (Ent j l)) \<noteq> ?g"
          using wf_refs_frame [OF wf True] wf_refs_frame [OF wf lv] by (auto simp: in_range_def)
        with True lv' by' rf m k show ?thesis unfolding fun_upd_other [OF False]
          by (simp add: vview_eq_Some frame_bytes_update_other del: live.simps ref_byte.simps)
      next
        case False2: False
        with False lv' show ?thesis by (auto simp: vview_def simp del: live.simps)
      qed
    qed
  qed
qed

text \<open>Writing one entry of a page table.\<close>

lemma write_entry:
  assumes wf: "wf_refs fr s" and tab: "live fr s (Tab i)" and n: "n < PAGE_SIZE"
    and m: "mainMemory s' = (mainMemory s)[tabf fr s i * PAGE_SIZE + n := b]"
    and pt: "procTable s' = procTable s"
  shows "ref_byte fr s' (Ent i n) = b"
    and "live fr s' (Ent i n) \<longleftrightarrow> pg_valid b"
    and "r \<noteq> Ent i n \<Longrightarrow> live fr s' r = live fr s r"
    and "r \<noteq> Ent i n \<Longrightarrow> live fr s r \<Longrightarrow> ref_byte fr s' r = ref_byte fr s r"
proof -
  have tf: "tabf fr s' j = tabf fr s j" for j
    using pt by (simp add: tabf_def)
  have idx: "tabf fr s i * PAGE_SIZE + n < length (mainMemory s)"
    using index_frame_less [OF wf_refs_tabf(1) [OF wf tab] n] wf_refs_lengths(1) [OF wf] by simp
  then show new: "ref_byte fr s' (Ent i n) = b"
    using m by (simp add: tf)
  then show "live fr s' (Ent i n) \<longleftrightarrow> pg_valid b"
    using tab n pt by (simp add: tf)
  have other: "ref_byte fr s' (Ent j k) = ref_byte fr s (Ent j k)"
    if "live fr s (Tab j)" "k < PAGE_SIZE" "Ent j k \<noteq> Ent i n" for j k
  proof -
    have "tabf fr s j * PAGE_SIZE + k \<noteq> tabf fr s i * PAGE_SIZE + n"
      using index_frame_eq [OF that(2) n] live_Tab_distinct [OF wf that(1) tab] that(3) by auto
    then show ?thesis using m by (simp add: tf)
  qed
  show "r \<noteq> Ent i n \<Longrightarrow> live fr s' r = live fr s r"
    using other pt by (cases r) auto
  show "r \<noteq> Ent i n \<Longrightarrow> live fr s r \<Longrightarrow> ref_byte fr s' r = ref_byte fr s r"
    using other pt by (cases r) auto
qed

lemma wf_write_entry:
  assumes wf: "wf_refs fr s" and tab: "live fr s (Tab i)" and n: "n < PAGE_SIZE"
    and m: "mainMemory s' = (mainMemory s)[tabf fr s i * PAGE_SIZE + n := b]"
    and pt: "procTable s' = procTable s"
    and ok: "pg_valid b \<Longrightarrow> in_range (fr b) PAGE_FRAMES"
    and fresh: "\<And>r. pg_valid b \<Longrightarrow> live fr s r \<Longrightarrow> r \<noteq> Ent i n \<Longrightarrow> ref_frame fr s r \<noteq> fr b"
  shows "wf_refs fr s'"
    and "vview fr s' = (vview fr s)((i, n) := if pg_valid b
           then Some (pg_write b \<noteq> 0, frame_bytes (mainMemory s) (nat (fr b))) else None)"
proof -
  note w = write_entry [OF wf tab n m pt]
  have new: "ref_frame fr s' (Ent i n) = fr b"
    using w(1) by (simp add: ref_frame_def)
  have old: "ref_frame fr s' r = ref_frame fr s r" if "r \<noteq> Ent i n" "live fr s' r" for r
    using w(3,4) that by (simp add: ref_frame_def)
  show "wf_refs fr s'"
  proof (rule wf_refsI)
    show "length (mainMemory s') = PHYS_MEM_SIZE" "length (procTable s') = MAX_PROCESSES"
      using m pt wf_refs_lengths [OF wf] by auto
    show "in_range (ref_frame fr s' r) PAGE_FRAMES" if "live fr s' r" for r
    proof (cases "r = Ent i n")
      case True
      with that show ?thesis using new w(2) ok by simp
    next
      case False
      with that show ?thesis using old wf_refs_frame [OF wf] w(3) by simp
    qed
    show "r = r'" if "live fr s' r" "live fr s' r'" "ref_frame fr s' r = ref_frame fr s' r'" for r r'
      using that new old w(2,3) fresh wf_refs_inj [OF wf]
      by (cases "r = Ent i n"; cases "r' = Ent i n") metis+
  qed
  have bytes: "frame_bytes (mainMemory s') (nat f) = frame_bytes (mainMemory s) (nat f)"
    if "in_range f PAGE_FRAMES" "f \<noteq> int (tabf fr s i)" for f
    using m n that by (subst m, intro frame_bytes_update_other) (auto simp: in_range_def)
  have tf: "ref_frame fr s (Tab i) = int (tabf fr s i)"
    using wf_refs_tabf(2) [OF wf tab] by (simp add: ref_frame_def)
  show "vview fr s' = (vview fr s)((i, n) := if pg_valid b
           then Some (pg_write b \<noteq> 0, frame_bytes (mainMemory s) (nat (fr b))) else None)"
  proof (rule ext, clarify)
    fix j l
    show "vview fr s' (j, l) = ((vview fr s)((i, n) := if pg_valid b
           then Some (pg_write b \<noteq> 0, frame_bytes (mainMemory s) (nat (fr b))) else None)) (j, l)"
    proof (cases "(j, l) = (i, n)")
      case True
      with w(1,2) new ok fresh [OF _ tab] tf bytes [of "fr b"] show ?thesis
        by (auto simp: vview_eq_Some vview_eq_None simp del: live.simps ref_byte.simps)
    next
      case False
      show ?thesis
      proof (cases "live fr s (Ent j l)")
        case True
        have "ref_frame fr s (Ent j l) \<noteq> int (tabf fr s i)"
          using wf_refs_inj [OF wf True tab] tf by auto
        moreover have "Ent j l \<noteq> Ent i n" using False by simp
        ultimately show ?thesis
          using bytes [OF wf_refs_frame [OF wf True]] True w(3,4) unfolding fun_upd_other [OF False]
          by (simp add: vview_eq_Some ref_frame_def del: live.simps ref_byte.simps)
      next
        case False2: False
        with False w(3) show ?thesis by (auto simp: vview_def simp del: live.simps)
      qed
    qed
  qed
qed

text \<open>Installing an empty page table in a frame that nothing refers to.\<close>

lemma new_table:
  assumes wf: "wf_refs fr s" and i: "i < MAX_PROCESSES" and dead: "\<not> live fr s (Tab i)"
    and pt: "procTable s' = (procTable s)[i := p]" and p: "pg_valid p" "fr p = int f"
    and f: "f < PAGE_FRAMES" "\<not> used fr s (int f)"
    and ag: "agree_outside f (mainMemory s) (mainMemory s')"
    and empty: "\<And>k. k < PAGE_SIZE \<Longrightarrow> \<not> pg_valid (mainMemory s' ! (f * PAGE_SIZE + k))"
  shows "live fr s' r \<longleftrightarrow> live fr s r \<or> r = Tab i"
    and "live fr s r \<Longrightarrow> ref_byte fr s' r = ref_byte fr s r"
    and "wf_refs fr s'" and "vview fr s' = vview fr s"
proof -
  have ti: "procTable s' ! i = p" "tabf fr s' i = f"
    using pt i p wf_refs_lengths(2) [OF wf] by (simp_all add: tabf_def)
  have tj: "procTable s' ! j = procTable s ! j" "tabf fr s' j = tabf fr s j" if "j \<noteq> i" for j
    using pt that by (simp_all add: tabf_def)
  have fj: "tabf fr s j \<noteq> f" if "live fr s (Tab j)" for j
  proof -
    have "ref_frame fr s (Tab j) \<noteq> int f" using f(2) that unfolding used_iff by blast
    then show ?thesis using wf_refs_tabf(2) [OF wf that] by (auto simp: ref_frame_def)
  qed
  have ent: "ref_byte fr s' (Ent j k) = ref_byte fr s (Ent j k)"
    if "live fr s (Tab j)" "k < PAGE_SIZE" for j k
  proof -
    have "j \<noteq> i" using that dead by auto
    with that ag fj [OF that(1)] wf_refs_tabf(1) [OF wf that(1)] show ?thesis
      by (simp add: tj agree_outside_def)
  qed
  show lv: "live fr s' r \<longleftrightarrow> live fr s r \<or> r = Tab i" for r
  proof (cases r)
    case (Tab j)
    then show ?thesis using ti tj p i by (cases "j = i") auto
  next
    case (Ent j k)
    show ?thesis
    proof (cases "j = i")
      case True
      with Ent dead i ti empty [of k] show ?thesis by auto
    next
      case False
      with Ent ent [of j k] show ?thesis
        by (cases "live fr s (Tab j)"; cases "k < PAGE_SIZE") (auto simp: tj)
    qed
  qed
  show by': "ref_byte fr s' r = ref_byte fr s r" if "live fr s r" for r
  proof (cases r)
    case (Tab j)
    with that dead have "j \<noteq> i" by auto
    with Tab tj show ?thesis by simp
  next
    case (Ent j k)
    with that ent show ?thesis by simp
  qed
  have new: "ref_frame fr s' (Tab i) = int f"
    using ti p by (simp add: ref_frame_def)
  have old: "ref_frame fr s' r = ref_frame fr s r" if "live fr s r" for r
    using by' that by (simp add: ref_frame_def)
  have fresh: "ref_frame fr s r \<noteq> int f" if "live fr s r" for r
    using f(2) that by (auto simp: used_iff)
  show "wf_refs fr s'"
  proof (rule wf_refsI)
    show "length (mainMemory s') = PHYS_MEM_SIZE" "length (procTable s') = MAX_PROCESSES"
      using ag pt wf_refs_lengths [OF wf] by (auto simp: agree_outside_def)
    show "in_range (ref_frame fr s' r) PAGE_FRAMES" if "live fr s' r" for r
      using that new old f(1) wf_refs_frame [OF wf] by (auto simp: lv simp del: live.simps)
    show "r = r'" if "live fr s' r" "live fr s' r'" "ref_frame fr s' r = ref_frame fr s' r'" for r r'
      using that new old fresh wf_refs_inj [OF wf] unfolding lv by metis
  qed
  show "vview fr s' = vview fr s"
  proof (rule ext, clarify)
    fix j l
    show "vview fr s' (j, l) = vview fr s (j, l)"
    proof (cases "live fr s (Ent j l)")
      case True
      have "nat (ref_frame fr s (Ent j l)) \<noteq> f" "nat (ref_frame fr s (Ent j l)) < PAGE_FRAMES"
        using fresh [OF True] wf_refs_frame [OF wf True] by (auto simp: in_range_def)
      from agree_outside_frame_bytes [OF ag wf_refs_lengths(1) [OF wf] this(2,1)]
      show ?thesis using True by' old lv
        by (simp add: vview_eq_Some del: live.simps ref_byte.simps)
    next
      case False
      then show ?thesis using lv by (auto simp: vview_def simp del: live.simps)
    qed
  qed
qed

lemma pg_read_proc:
  "wf_refs fr s \<Longrightarrow> i < MAX_PROCESSES \<Longrightarrow> pg_read s (ProcEntry (int i)) = Some (procTable s ! i)"
  by (simp add: wf_refs_lengths)

text \<open>The pointer \<open>find_page\<close> computes, read and written through.\<close>

lemma pg_read_entry:
  assumes "wf_refs fr s" "live fr s (Tab i)" "n < PAGE_SIZE"
  shows "pg_read s (MemEntry (fr (procTable s ! i) * int PAGE_SIZE + int n)) =
    Some (ref_byte fr s (Ent i n))"
proof -
  have "fr (procTable s ! i) * int PAGE_SIZE + int n = int (tabf fr s i * PAGE_SIZE + n)"
    using wf_refs_tabf(2) [OF assms(1,2)] by simp
  moreover have "tabf fr s i * PAGE_SIZE + n < length (mainMemory s)"
    using index_frame_less [OF wf_refs_tabf(1) [OF assms(1,2)] assms(3)] assms(1)
    by (simp add: wf_refs_lengths)
  ultimately show ?thesis by (simp only: pg_read.simps arr_get_int ref_byte.simps)
qed

lemma pg_modify_entry:
  assumes "wf_refs fr s" "live fr s (Tab i)" "n < PAGE_SIZE"
  shows "pg_modify s (MemEntry (fr (procTable s ! i) * int PAGE_SIZE + int n)) f =
    Some (s\<lparr>mainMemory := (mainMemory s)[tabf fr s i * PAGE_SIZE + n := f (ref_byte fr s (Ent i n))]\<rparr>)"
proof -
  have "fr (procTable s ! i) * int PAGE_SIZE + int n = int (tabf fr s i * PAGE_SIZE + n)"
    using wf_refs_tabf(2) [OF assms(1,2)] by simp
  moreover have "tabf fr s i * PAGE_SIZE + n < length (mainMemory s)"
    using index_frame_less [OF wf_refs_tabf(1) [OF assms(1,2)] assms(3)] assms(1)
    by (simp add: wf_refs_lengths)
  ultimately show ?thesis by (simp only: pg_modify_mem ref_byte.simps)
qed

lemma data_index:
  assumes "wf_refs fr s" "live fr s r"
  shows "ref_frame fr s r * int PAGE_SIZE + int k = int (nat (ref_frame fr s r) * PAGE_SIZE + k)"
    and "k < PAGE_SIZE \<Longrightarrow> nat (ref_frame fr s r) * PAGE_SIZE + k < length (mainMemory s)"
proof -
  have r: "in_range (ref_frame fr s r) PAGE_FRAMES" by (rule wf_refs_frame [OF assms])
  then show "ref_frame fr s r * int PAGE_SIZE + int k = int (nat (ref_frame fr s r) * PAGE_SIZE + k)"
    by (simp add: in_range_def)
  have "nat (ref_frame fr s r) < PAGE_FRAMES" using r by (auto simp: in_range_def)
  then show "k < PAGE_SIZE \<Longrightarrow> nat (ref_frame fr s r) * PAGE_SIZE + k < length (mainMemory s)"
    using index_frame_less wf_refs_lengths(1) [OF assms(1)] by simp
qed

text \<open>Printing touches no memory.\<close>

lemma vview_console [simp]: "vview fr (say m s) = vview fr s"
  by (simp add: vview_def tabf_def ref_frame_def fun_eq_iff)

lemma live_say [simp]: "live fr (say m s) r = live fr s r"
  by (cases r) (simp_all add: tabf_def)

lemma ref_byte_say [simp]: "ref_byte fr (say m s) r = ref_byte fr s r"
  by (cases r) (simp_all add: tabf_def)

lemma used_say [simp]: "used fr (say m s) f = used fr s f"
  by (simp add: used_def ref_frame_def)

lemma wf_refs_say [simp]: "wf_refs fr (say m s) = wf_refs fr s"
  by (simp add: wf_refs_def ref_frame_def)

text \<open>The two ways an entry becomes valid: the same frame with other permissions, or a frame
  that nothing refers to.\<close>

lemma rewrite_entry:
  assumes wf: "wf_refs fr s" and lv: "live fr s (Ent i n)"
    and m: "mainMemory s' = (mainMemory s)[tabf fr s i * PAGE_SIZE + n := b]"
    and pt: "procTable s' = procTable s"
    and b: "pg_valid b" "fr b = ref_frame fr s (Ent i n)"
  shows "wf_refs fr s'"
    and "vview fr s' = (vview fr s)((i, n) \<mapsto>
      (pg_write b \<noteq> 0, frame_bytes (mainMemory s) (nat (ref_frame fr s (Ent i n)))))"
proof -
  have n: "n < PAGE_SIZE" using lv by simp
  have ok: "in_range (fr b) PAGE_FRAMES" using b wf_refs_frame [OF wf lv] by simp
  have fresh: "ref_frame fr s r \<noteq> fr b" if "live fr s r" "r \<noteq> Ent i n" for r
    using b wf_refs_inj [OF wf that(1) lv] that(2) by auto
  note w = wf_write_entry [OF wf live_Ent_Tab [OF lv] n m pt ok fresh]
  show "wf_refs fr s'" by (rule w(1))
  show "vview fr s' = (vview fr s)((i, n) \<mapsto>
      (pg_write b \<noteq> 0, frame_bytes (mainMemory s) (nat (ref_frame fr s (Ent i n)))))"
    using w(2) b by simp
qed

lemma fresh_entry:
  assumes wf: "wf_refs fr s" and tab: "live fr s (Tab i)" and n: "n < PAGE_SIZE"
    and m: "mainMemory s' = (mainMemory s)[tabf fr s i * PAGE_SIZE + n := b]"
    and pt: "procTable s' = procTable s"
    and b: "pg_valid b" "fr b = int f" and f: "f < PAGE_FRAMES" "\<not> used fr s (int f)"
  shows "wf_refs fr s'"
    and "vview fr s' = (vview fr s)((i, n) \<mapsto> (pg_write b \<noteq> 0, frame_bytes (mainMemory s) f))"
proof -
  have ok: "in_range (fr b) PAGE_FRAMES" using b f by simp
  have fresh: "ref_frame fr s r \<noteq> fr b" if "live fr s r" "r \<noteq> Ent i n" for r
    using b f that(1) unfolding used_iff by metis
  note w = wf_write_entry [OF wf tab n m pt ok fresh]
  show "wf_refs fr s'" by (rule w(1))
  show "vview fr s' = (vview fr s)((i, n) \<mapsto> (pg_write b \<noteq> 0, frame_bytes (mainMemory s) f))"
    using w(2) b by simp
qed

lemma write_bit_odd: "w mod 2 \<noteq> 0 \<longleftrightarrow> odd (w :: int)"
  by (simp add: odd_iff_mod_2_eq_one)

end
