(* ===== verification/PageTable1.thy ===== *)
theory PageTable1
  imports Paging
begin

text \<open>
  Project4/Part1/pageTable.c: page tables that live in the simulated physical memory, without
  a backing store. \<open>map_page1\<close>, \<open>store1\<close> and \<open>load1\<close> are the three commands, the other
  definitions the helpers they call. \<open>None\<close> is undefined behaviour (an access outside the two
  arrays or through a null pointer); the return code 0 or 1 of the C functions is part of the
  result.
\<close>

section \<open>The program\<close>

definition frame1 :: "byte \<Rightarrow> int" where
  "frame1 b = get_bits 2 6 b"

definition set_frame1 :: "int \<Rightarrow> byte \<Rightarrow> byte" where
  "set_frame1 v b = set_bits 2 6 v b"

text \<open>The inner loop of \<open>frame_allocated\<close>: \<open>n\<close> entries from \<open>mainMemory[j]\<close> on.\<close>

fun scan_entries1 :: "byte list \<Rightarrow> int \<Rightarrow> int \<Rightarrow> nat \<Rightarrow> bool option" where
  "scan_entries1 m frame j 0 = Some False"
| "scan_entries1 m frame j (Suc n) = do {
     tmp \<leftarrow> arr_get m j;
     if pg_valid tmp \<and> frame1 tmp = frame then Some True else scan_entries1 m frame (j + 1) n }"

text \<open>The outer loop: the entries of \<open>procTable\<close> from the current one on.\<close>

fun scan_procs1 :: "byte list \<Rightarrow> int \<Rightarrow> byte list \<Rightarrow> bool option" where
  "scan_procs1 m frame [] = Some False"
| "scan_procs1 m frame (p # ps) =
     (if pg_valid p then
        if frame1 p = frame then Some True
        else do {
          found \<leftarrow> scan_entries1 m frame (frame1 p * int PAGE_SIZE) PAGE_SIZE;
          if found then Some True else scan_procs1 m frame ps }
      else scan_procs1 m frame ps)"

definition frame_allocated1 :: "pmem \<Rightarrow> int \<Rightarrow> bool option" where
  "frame_allocated1 s frame = scan_procs1 (mainMemory s) frame (procTable s)"

fun free_scan1 :: "pmem \<Rightarrow> int \<Rightarrow> nat \<Rightarrow> int option" where
  "free_scan1 s i 0 = Some (-1)"
| "free_scan1 s i (Suc n) = do {
     a \<leftarrow> frame_allocated1 s i;
     if \<not> a then Some i else free_scan1 s (i + 1) n }"

definition find_free_frame1 :: "pmem \<Rightarrow> int option" where
  "find_free_frame1 s = free_scan1 s 0 PAGE_FRAMES"

definition find_page1 :: "pmem \<Rightarrow> int \<Rightarrow> int \<Rightarrow> page_ptr option" where
  "find_page1 s pid n = do {
     p \<leftarrow> pg_read s (ProcEntry pid);
     if \<not> pg_valid p then Some Null
     else Some (MemEntry (frame1 p * int PAGE_SIZE + n)) }"

text \<open>The loop of \<open>init_table\<close> that marks the entries of a new table invalid.\<close>

fun clear_entries1 :: "pmem \<Rightarrow> int \<Rightarrow> nat \<Rightarrow> pmem option" where
  "clear_entries1 s tmp 0 = Some s"
| "clear_entries1 s tmp (Suc n) = do {
     s \<leftarrow> pg_modify s (MemEntry tmp) (set_valid 0);
     clear_entries1 s (tmp + 1) n }"

definition init_table1 :: "pmem \<Rightarrow> int \<Rightarrow> pmem option" where
  "init_table1 s pid = do {
     frame \<leftarrow> find_free_frame1 s;
     if frame \<ge> 0 then do {
       s \<leftarrow> pg_modify s (ProcEntry pid) (set_valid 1);
       s \<leftarrow> pg_modify s (ProcEntry pid) (set_write 1);
       s \<leftarrow> pg_modify s (ProcEntry pid) (set_frame1 frame);
       s \<leftarrow> clear_entries1 s (frame * int PAGE_SIZE) PAGE_SIZE;
       Some (say (PutTable pid frame) s) }
     else Some (say (NoFrameForTable pid) s) }"

text \<open>The part of \<open>map_page\<close> after the page table has been found or made.\<close>

definition map_entry1 :: "pmem \<Rightarrow> int \<Rightarrow> int \<Rightarrow> int \<Rightarrow> (pmem \<times> int) option" where
  "map_entry1 s pid address write = do {
     page \<leftarrow> find_page1 s pid (address sdiv int PAGE_SIZE);
     b \<leftarrow> pg_read s page;
     if pg_valid b then do {
       let s = say (UpdatingWrite (address sdiv int PAGE_SIZE)) s;
       s \<leftarrow> pg_modify s page (set_write write);
       Some (s, 0) }
     else do {
       frame \<leftarrow> find_free_frame1 s;
       if frame < 0 then Some (say NoFrameForPage s, 0)
       else do {
         s \<leftarrow> pg_modify s page (set_frame1 frame);
         s \<leftarrow> pg_modify s page (set_valid 1);
         s \<leftarrow> pg_modify s page (set_write write);
         Some (say (MappedPage address (address sdiv int PAGE_SIZE) frame) s, 1) } } }"

definition map_page1 :: "pmem \<Rightarrow> int \<Rightarrow> int \<Rightarrow> int \<Rightarrow> (pmem \<times> int) option" where
  "map_page1 s pid address write = do {
     p \<leftarrow> pg_read s (ProcEntry pid);
     if \<not> pg_valid p then do {
       s \<leftarrow> init_table1 s pid;
       p \<leftarrow> pg_read s (ProcEntry pid);
       if \<not> pg_valid p then Some (say (NoTable pid) s, 0)
       else map_entry1 s pid address write }
     else map_entry1 s pid address write }"

definition store1 :: "pmem \<Rightarrow> int \<Rightarrow> int \<Rightarrow> byte \<Rightarrow> (pmem \<times> int) option" where
  "store1 s pid address value = do {
     p \<leftarrow> pg_read s (ProcEntry pid);
     if \<not> pg_valid p then Some (say (NoPages pid) s, 0)
     else do {
       page \<leftarrow> find_page1 s pid (address sdiv int PAGE_SIZE);
       let offset = address smod int PAGE_SIZE;
       b \<leftarrow> pg_read s page;
       if \<not> pg_valid b then Some (say (NoFrameMapped address pid) s, 0)
       else if pg_write b = 0 then Some (say (WriteForbidden address pid) s, 0)
       else do {
         m \<leftarrow> arr_set (mainMemory s) (frame1 b * int PAGE_SIZE + offset) value;
         let s = s\<lparr>mainMemory := m\<rparr>;
         b \<leftarrow> pg_read s page;
         Some (say (StoredValue (uint value) address (frame1 b * int PAGE_SIZE + offset)) s, 1) } } }"

text \<open>\<open>load\<close> returns the code and, when it wrote it, the byte behind \<open>out\<close>.\<close>

definition load1 :: "pmem \<Rightarrow> int \<Rightarrow> int \<Rightarrow> (pmem \<times> int \<times> byte option) option" where
  "load1 s pid address = do {
     p \<leftarrow> pg_read s (ProcEntry pid);
     if \<not> pg_valid p then Some (say (NoPages pid) s, 0, None)
     else do {
       page \<leftarrow> find_page1 s pid (address sdiv int PAGE_SIZE);
       let offset = address smod int PAGE_SIZE;
       b \<leftarrow> pg_read s page;
       if \<not> pg_valid b then Some (say (NoFrameMapped address pid) s, 0, None)
       else do {
         out \<leftarrow> arr_get (mainMemory s) (frame1 b * int PAGE_SIZE + offset);
         Some (say (ReadValue (uint out) address (frame1 b * int PAGE_SIZE + offset)) s, 1, Some out) } } }"

text \<open>The globals before \<open>main\<close> runs: zero-initialised.\<close>

definition boot1 :: pmem where
  "boot1 = \<lparr>mainMemory = replicate PHYS_MEM_SIZE 0, procTable = replicate MAX_PROCESSES 0,
            console = []\<rparr>"

section \<open>The bit-fields\<close>

lemma frame1_set [simp]:
  "frame1 (set_frame1 v b) = v mod 64" "frame1 (set_valid x b) = frame1 b"
  "frame1 (set_write x b) = frame1 b"
  by (simp_all add: frame1_def set_frame1_def set_valid_def set_write_def
      get_set_bits_same get_set_bits_other)

lemma set_frame1_fields [simp]:
  "pg_valid (set_frame1 v b) = pg_valid b" "pg_write (set_frame1 v b) = pg_write b"
  by (simp_all add: pg_valid_def pg_write_def set_frame1_def get_set_bits_other)

section \<open>Searching for a frame\<close>

abbreviation live1 :: "pmem \<Rightarrow> pref \<Rightarrow> bool" where "live1 \<equiv> live frame1"
abbreviation wf1 :: "pmem \<Rightarrow> bool" where "wf1 \<equiv> wf_refs frame1"
abbreviation used1 :: "pmem \<Rightarrow> int \<Rightarrow> bool" where "used1 \<equiv> used frame1"

lemma scan_entries1_eq:
  "j + n \<le> length m \<Longrightarrow> scan_entries1 m f (int j) n =
     Some (\<exists>k<n. pg_valid (m ! (j + k)) \<and> frame1 (m ! (j + k)) = f)"
proof (induction n arbitrary: j)
  case 0
  then show ?case by simp
next
  case (Suc n)
  have "scan_entries1 m f (int j + 1) n =
      Some (\<exists>k<n. pg_valid (m ! (Suc j + k)) \<and> frame1 (m ! (Suc j + k)) = f)"
    using Suc.IH [of "Suc j"] Suc.prems by (simp add: add.commute)
  with Suc.prems show ?case by (auto simp: Ex_less_Suc2)
qed

text \<open>The page table behind the entry \<open>p\<close> has a valid entry for the frame \<open>f\<close>.\<close>

definition names_frame1 :: "byte list \<Rightarrow> int \<Rightarrow> byte \<Rightarrow> bool" where
  "names_frame1 m f p \<longleftrightarrow> (\<exists>k<PAGE_SIZE. pg_valid (m ! (nat (frame1 p) * PAGE_SIZE + k)) \<and>
     frame1 (m ! (nat (frame1 p) * PAGE_SIZE + k)) = f)"

lemma scan_table1_eq:
  assumes "length m = PHYS_MEM_SIZE" "in_range (frame1 p) PAGE_FRAMES"
  shows "scan_entries1 m f (frame1 p * int PAGE_SIZE) PAGE_SIZE = Some (names_frame1 m f p)"
proof -
  have j: "frame1 p * int PAGE_SIZE = int (nat (frame1 p) * PAGE_SIZE)"
    using assms(2) by (simp add: in_range_def)
  have "nat (frame1 p) * PAGE_SIZE + PAGE_SIZE \<le> length m"
    using assms by (simp add: in_range_def nat_le_iff)
  from scan_entries1_eq [OF this] show ?thesis by (simp only: j names_frame1_def)
qed

lemma scan_procs1_eq:
  assumes "length m = PHYS_MEM_SIZE"
    and "\<And>p. p \<in> set ps \<Longrightarrow> pg_valid p \<Longrightarrow> in_range (frame1 p) PAGE_FRAMES"
  shows "scan_procs1 m f ps =
    Some (\<exists>p\<in>set ps. pg_valid p \<and> (frame1 p = f \<or> names_frame1 m f p))"
  using assms(2)
  by (induction ps) (simp_all add: scan_table1_eq [OF assms(1), simplified])

lemma used1_procs:
  assumes "length (procTable s) = MAX_PROCESSES"
  shows "used1 s f \<longleftrightarrow>
    (\<exists>p\<in>set (procTable s). pg_valid p \<and> (frame1 p = f \<or> names_frame1 (mainMemory s) f p))"
    (is "_ \<longleftrightarrow> ?R")
proof
  assume "used1 s f"
  then obtain r where r: "live1 s r" "ref_frame frame1 s r = f" by (auto simp: used_iff)
  show ?R
  proof (cases r)
    case (Tab i)
    with r assms show ?thesis
      by (intro bexI [of _ "procTable s ! i"]) (auto simp: ref_frame_def)
  next
    case (Ent i n)
    with r assms show ?thesis
      by (intro bexI [of _ "procTable s ! i"]) (auto simp: ref_frame_def tabf_def names_frame1_def)
  qed
next
  assume ?R
  then obtain p where p: "p \<in> set (procTable s)" "pg_valid p"
    "frame1 p = f \<or> names_frame1 (mainMemory s) f p" by blast
  from p(1) assms obtain i where "i < MAX_PROCESSES" "p = procTable s ! i"
    by (auto simp: in_set_conv_nth)
  with p(2,3) have "(live1 s (Tab i) \<and> ref_frame frame1 s (Tab i) = f) \<or>
      (\<exists>k. live1 s (Ent i k) \<and> ref_frame frame1 s (Ent i k) = f)"
    by (auto simp: ref_frame_def names_frame1_def tabf_def)
  then show "used1 s f" unfolding used_iff by blast
qed

lemma frame_allocated1_used:
  assumes "wf1 s"
  shows "frame_allocated1 s f = Some (used1 s f)"
proof -
  have lens: "length (mainMemory s) = PHYS_MEM_SIZE" "length (procTable s) = MAX_PROCESSES"
    using assms by (simp_all add: wf_refs_lengths)
  have "in_range (frame1 p) PAGE_FRAMES" if "p \<in> set (procTable s)" "pg_valid p" for p
  proof -
    from that(1) lens obtain i where "i < MAX_PROCESSES" "p = procTable s ! i"
      by (auto simp: in_set_conv_nth)
    with that(2) wf_refs_frame [OF assms, of "Tab i"] show ?thesis
      by (simp add: ref_frame_def)
  qed
  from scan_procs1_eq [OF lens(1) this] show ?thesis
    by (simp add: frame_allocated1_def used1_procs [OF lens(2)])
qed

lemma free_scan1_eq:
  assumes "wf1 s"
  shows "free_scan1 s (int i) n =
    Some (case first_from (\<lambda>k. \<not> used1 s (int k)) i n of Some k \<Rightarrow> int k | None \<Rightarrow> -1)"
proof (induction n arbitrary: i)
  case 0
  then show ?case by simp
next
  case (Suc n)
  from Suc.IH [of "Suc i"] show ?case
    by (simp add: frame_allocated1_used [OF assms] add.commute)
qed

lemma find_free_frame1_eq:
  "wf1 s \<Longrightarrow> find_free_frame1 s =
    Some (case first_index (\<lambda>k. \<not> used1 s (int k)) PAGE_FRAMES of Some k \<Rightarrow> int k | None \<Rightarrow> -1)"
  using free_scan1_eq [of s 0 PAGE_FRAMES] by (simp add: find_free_frame1_def first_index_def)

section \<open>The commands on every branch\<close>

lemma find_page1_tab:
  "wf1 s \<Longrightarrow> live1 s (Tab i) \<Longrightarrow>
   find_page1 s (int i) n = Some (MemEntry (frame1 (procTable s ! i) * int PAGE_SIZE + n))"
  by (simp add: find_page1_def wf_refs_lengths)

lemma store1_branches:
  assumes wf: "wf1 s" and i: "i < MAX_PROCESSES" and a: "0 \<le> a" "a < int VIRT_ADD_SPACE"
  shows "store1 s (int i) a v = Some
    (if \<not> live1 s (Tab i) then (say (NoPages (int i)) s, 0)
     else if \<not> live1 s (Ent i (page_no a)) then (say (NoFrameMapped a (int i)) s, 0)
     else if pg_write (ref_byte frame1 s (Ent i (page_no a))) = 0
       then (say (WriteForbidden a (int i)) s, 0)
     else let j = nat (ref_frame frame1 s (Ent i (page_no a))) * PAGE_SIZE + page_off a
          in (say (StoredValue (uint v) a (int j)) (s\<lparr>mainMemory := (mainMemory s)[j := v]\<rparr>), 1))"
proof -
  have n: "page_no a < PAGE_SIZE" using page_no_less [OF a] by simp
  note adr = sdiv_page [OF a(1), simplified] smod_page [OF a(1), simplified]
  show ?thesis
  proof (cases "live1 s (Tab i)")
    case False
    then show ?thesis using i pg_read_proc [OF wf i] by (simp add: store1_def)
  next
    case tab: True
    then have pv: "pg_valid (procTable s ! i)" by simp
    note page = pv find_page1_tab [OF wf tab] pg_read_entry [OF wf tab n] pg_read_proc [OF wf i]
    show ?thesis
    proof (cases "live1 s (Ent i (page_no a))")
      case False
      then have "\<not> pg_valid (ref_byte frame1 s (Ent i (page_no a)))" using tab n by simp
      with False tab page show ?thesis
        by (simp add: store1_def adr Let_def del: pg_read.simps ref_byte.simps)
    next
      case lv: True
      then have v: "pg_valid (ref_byte frame1 s (Ent i (page_no a)))" by simp
      let ?j = "nat (ref_frame frame1 s (Ent i (page_no a))) * PAGE_SIZE + page_off a"
      let ?s = "s\<lparr>mainMemory := (mainMemory s)[?j := v]\<rparr>"
      note st = store_byte [OF wf lv page_off_less [of a], where s' = ?s and v = v]
      have rd: "pg_read ?s (MemEntry (frame1 (procTable s ! i) * int PAGE_SIZE + int (page_no a))) =
          Some (ref_byte frame1 s (Ent i (page_no a)))"
        using pg_read_entry [of frame1 ?s i "page_no a"] st(1,2) st(3) [of "Ent i (page_no a)"] tab lv n
        by (simp del: pg_read.simps ref_byte.simps live.simps)
      have set: "arr_set (mainMemory s)
          (frame1 (ref_byte frame1 s (Ent i (page_no a))) * int PAGE_SIZE + int (page_off a)) v =
          Some ((mainMemory s)[?j := v])"
        using data_index [OF wf lv, of "page_off a"]
        by (simp only: ref_frame_def arr_set_int page_off_less)
      show ?thesis
        using tab page v lv set rd data_index(1) [OF wf lv, of "page_off a"]
        by (simp add: store1_def adr ref_frame_def Let_def del: pg_read.simps ref_byte.simps live.simps)
    qed
  qed
qed

lemma load1_branches:
  assumes wf: "wf1 s" and i: "i < MAX_PROCESSES" and a: "0 \<le> a" "a < int VIRT_ADD_SPACE"
  shows "load1 s (int i) a = Some
    (if \<not> live1 s (Tab i) then (say (NoPages (int i)) s, 0, None)
     else if \<not> live1 s (Ent i (page_no a)) then (say (NoFrameMapped a (int i)) s, 0, None)
     else let j = nat (ref_frame frame1 s (Ent i (page_no a))) * PAGE_SIZE + page_off a
          in (say (ReadValue (uint (mainMemory s ! j)) a (int j)) s, 1, Some (mainMemory s ! j)))"
proof -
  have n: "page_no a < PAGE_SIZE" using page_no_less [OF a] by simp
  note adr = sdiv_page [OF a(1), simplified] smod_page [OF a(1), simplified]
  show ?thesis
  proof (cases "live1 s (Tab i)")
    case False
    then show ?thesis using i pg_read_proc [OF wf i] by (simp add: load1_def)
  next
    case tab: True
    then have pv: "pg_valid (procTable s ! i)" by simp
    note page = pv find_page1_tab [OF wf tab] pg_read_entry [OF wf tab n] pg_read_proc [OF wf i]
    show ?thesis
    proof (cases "live1 s (Ent i (page_no a))")
      case False
      then have "\<not> pg_valid (ref_byte frame1 s (Ent i (page_no a)))" using tab n by simp
      with False tab page show ?thesis
        by (simp add: load1_def adr Let_def del: pg_read.simps ref_byte.simps)
    next
      case lv: True
      then have v: "pg_valid (ref_byte frame1 s (Ent i (page_no a)))" by simp
      let ?j = "nat (ref_frame frame1 s (Ent i (page_no a))) * PAGE_SIZE + page_off a"
      have get: "arr_get (mainMemory s)
          (frame1 (ref_byte frame1 s (Ent i (page_no a))) * int PAGE_SIZE + int (page_off a)) =
          Some (mainMemory s ! ?j)"
        using data_index [OF wf lv, of "page_off a"]
        by (simp only: ref_frame_def arr_get_int page_off_less)
      show ?thesis
        using tab page v lv get data_index(1) [OF wf lv, of "page_off a"]
        by (simp add: load1_def adr ref_frame_def Let_def del: pg_read.simps ref_byte.simps live.simps)
    qed
  qed
qed

theorem store1_refines:
  assumes "wf1 s" "i < MAX_PROCESSES" "0 \<le> a" "a < int VIRT_ADD_SPACE"
  shows "\<exists>s'. store1 s (int i) a v = Some (s', snd (spec_store (vview frame1 s) i a v)) \<and> wf1 s' \<and>
    vview frame1 s' = fst (spec_store (vview frame1 s) i a v)"
proof -
  let ?r = "Ent i (page_no a)"
  let ?s = "s\<lparr>mainMemory := (mainMemory s)[nat (ref_frame frame1 s ?r) * PAGE_SIZE + page_off a := v]\<rparr>"
  note b = store1_branches [OF assms, of v]
  show ?thesis
  proof (cases "live1 s ?r \<and> pg_write (ref_byte frame1 s ?r) \<noteq> 0")
    case True
    then have lv: "live1 s ?r" by blast
    note st = store_byte [OF assms(1) lv page_off_less [of a], where s' = ?s and v = v]
    have "spec_store (vview frame1 s) i a v = (vview frame1 ?s, 1)"
      using True st(4) by (simp add: spec_store_def vview_eq_Some del: live.simps ref_byte.simps)
    with True live_Ent_Tab [OF lv] b st(1) show ?thesis
      by (simp add: Let_def del: live.simps ref_byte.simps)
  next
    case False
    then have "spec_store (vview frame1 s) i a v = (vview frame1 s, 0)"
      by (auto simp: spec_store_def vview_def simp del: live.simps ref_byte.simps)
    with False b assms(1) show ?thesis
      by (auto simp: Let_def simp del: live.simps ref_byte.simps)
  qed
qed

theorem load1_refines:
  assumes "wf1 s" "i < MAX_PROCESSES" "0 \<le> a" "a < int VIRT_ADD_SPACE"
  shows "\<exists>m. load1 s (int i) a = Some (say m s,
    (if spec_load (vview frame1 s) i a = None then 0 else 1), spec_load (vview frame1 s) i a)"
proof -
  let ?r = "Ent i (page_no a)"
  note b = load1_branches [OF assms]
  show ?thesis
  proof (cases "live1 s ?r")
    case True
    have "nat (ref_frame frame1 s ?r) < PAGE_FRAMES"
      using wf_refs_frame [OF assms(1) True] by (auto simp: in_range_def)
    then have "spec_load (vview frame1 s) i a =
        Some (mainMemory s ! (nat (ref_frame frame1 s ?r) * PAGE_SIZE + page_off a))"
      using True wf_refs_lengths(1) [OF assms(1)]
      by (simp add: spec_load_def vview_eq_Some nth_frame_bytes del: live.simps ref_byte.simps)
    with True live_Ent_Tab [OF True] b show ?thesis
      by (auto simp: Let_def simp del: live.simps ref_byte.simps)
  next
    case False
    then have "spec_load (vview frame1 s) i a = None" by (simp add: spec_load_def vview_eq_None)
    with False b show ?thesis by (auto simp del: live.simps)
  qed
qed

section \<open>Mapping a page\<close>

lemma clear_entries1_eq:
  "j + n \<le> length (mainMemory s) \<Longrightarrow> \<exists>m. clear_entries1 s (int j) n = Some (s\<lparr>mainMemory := m\<rparr>) \<and>
     length m = length (mainMemory s) \<and>
     (\<forall>k<length m. m ! k = (if j \<le> k \<and> k < j + n then set_valid 0 (mainMemory s ! k)
                            else mainMemory s ! k))"
proof (induction n arbitrary: s j)
  case 0
  then show ?case by (intro exI [of _ "mainMemory s"]) auto
next
  case (Suc n)
  let ?s = "s\<lparr>mainMemory := (mainMemory s)[j := set_valid 0 (mainMemory s ! j)]\<rparr>"
  from Suc.IH [of "Suc j" ?s] Suc.prems obtain m where
    m: "clear_entries1 ?s (int j + 1) n = Some (?s\<lparr>mainMemory := m\<rparr>)" "length m = length (mainMemory s)"
      "\<forall>k<length m. m ! k = (if Suc j \<le> k \<and> k < Suc j + n then set_valid 0 (mainMemory ?s ! k)
                             else mainMemory ?s ! k)"
    by (auto simp: add.commute)
  show ?case
  proof (intro exI [of _ m] conjI)
    show "clear_entries1 s (int j) (Suc n) = Some (s\<lparr>mainMemory := m\<rparr>)"
      using m(1) Suc.prems by simp
  qed (use m(2,3) Suc.prems in \<open>auto simp: nth_list_update Suc_le_eq order_le_less\<close>)
qed

lemma init_table1_branches:
  assumes wf: "wf1 s" and i: "i < MAX_PROCESSES" and dead: "\<not> live1 s (Tab i)"
  shows "\<exists>s'. init_table1 s (int i) = Some s' \<and> wf1 s' \<and> vview frame1 s' = vview frame1 s \<and>
    (case first_index (\<lambda>k. \<not> used1 s (int k)) PAGE_FRAMES of
       Some f \<Rightarrow> console s' = console s @ [PutTable (int i) (int f)] \<and>
         (\<forall>r. live1 s' r \<longleftrightarrow> live1 s r \<or> r = Tab i) \<and> tabf frame1 s' i = f
     | None \<Rightarrow> s' = say (NoFrameForTable (int i)) s)"
proof (cases "first_index (\<lambda>k. \<not> used1 s (int k)) PAGE_FRAMES")
  case None
  with find_free_frame1_eq [OF wf] wf show ?thesis by (simp add: init_table1_def)
next
  case (Some f)
  then have f: "f < PAGE_FRAMES" "\<not> used1 s (int f)" by (simp_all add: first_index_Some_iff)
  have lens: "length (mainMemory s) = PHYS_MEM_SIZE" "length (procTable s) = MAX_PROCESSES"
    using wf by (simp_all add: wf_refs_lengths)
  let ?p = "set_frame1 (int f) (set_write 1 (set_valid 1 (procTable s ! i)))"
  let ?t = "s\<lparr>procTable := (procTable s)[i := ?p]\<rparr>"
  from clear_entries1_eq [of "f * PAGE_SIZE" PAGE_SIZE ?t] f lens obtain m where
    m: "clear_entries1 ?t (int (f * PAGE_SIZE)) PAGE_SIZE = Some (?t\<lparr>mainMemory := m\<rparr>)"
      "length m = PHYS_MEM_SIZE"
      "\<And>k. k < PHYS_MEM_SIZE \<Longrightarrow> m ! k = (if f * PAGE_SIZE \<le> k \<and> k < f * PAGE_SIZE + PAGE_SIZE
         then set_valid 0 (mainMemory s ! k) else mainMemory s ! k)"
    by auto
  let ?s = "?t\<lparr>mainMemory := m\<rparr>"
  have ag: "agree_outside f (mainMemory s) m"
    unfolding agree_outside_def
  proof (intro conjI allI impI)
    fix g k assume g: "g < PAGE_FRAMES" "g \<noteq> f" and k: "k < PAGE_SIZE"
    have "g * PAGE_SIZE + k < PHYS_MEM_SIZE" by (rule index_frame_less [OF g(1) k])
    moreover have "\<not> (f * PAGE_SIZE \<le> g * PAGE_SIZE + k \<and> g * PAGE_SIZE + k < f * PAGE_SIZE + PAGE_SIZE)"
      using g(2) k by presburger
    ultimately show "m ! (g * PAGE_SIZE + k) = mainMemory s ! (g * PAGE_SIZE + k)"
      by (auto simp: m(3))
  qed (use m(2) lens in simp)
  have empty: "\<not> pg_valid (m ! (f * PAGE_SIZE + k))" if "k < PAGE_SIZE" for k
    using m(3) [OF index_frame_less [OF f(1) that]] that by simp
  have "frame1 ?p = int f" using f by simp
  note nt = new_table [OF wf i dead, where s' = ?s, OF _ _ this f, simplified, OF ag empty]
  have ff: "find_free_frame1 s = Some (int f)"
    using find_free_frame1_eq [OF wf] Some by simp
  have "init_table1 s (int i) = Some (say (PutTable (int i) (int f)) ?s)"
    using m(1) i lens by (simp add: init_table1_def ff)
  with Some nt f i lens show ?thesis
    by (simp add: tabf_def del: live.simps)
qed

lemma map_entry1_branches:
  assumes wf: "wf1 s" and tab: "live1 s (Tab i)" and a: "0 \<le> a" "a < int VIRT_ADD_SPACE"
  shows "\<exists>s' c. map_entry1 s (int i) a w = Some (s', c) \<and> wf1 s' \<and>
    (if live1 s (Ent i (page_no a)) then c = 0 \<and> vview frame1 s' = (vview frame1 s)((i, page_no a) \<mapsto>
       (odd w, frame_bytes (mainMemory s) (nat (ref_frame frame1 s (Ent i (page_no a))))))
     else case first_index (\<lambda>k. \<not> used1 s (int k)) PAGE_FRAMES of
       Some f \<Rightarrow> c = 1 \<and>
         vview frame1 s' = (vview frame1 s)((i, page_no a) \<mapsto> (odd w, frame_bytes (mainMemory s) f))
     | None \<Rightarrow> c = 0 \<and> s' = say NoFrameForPage s)"
proof -
  let ?n = "page_no a" and ?j = "tabf frame1 s i * PAGE_SIZE + page_no a"
  have n: "?n < PAGE_SIZE" using page_no_less [OF a] by simp
  have adr: "a sdiv 16 = int ?n" using sdiv_page [OF a(1)] by simp
  have j: "?j < length (mainMemory s)"
    using index_frame_less [OF wf_refs_tabf(1) [OF wf tab] n] wf by (simp add: wf_refs_lengths)
  have "frame1 (procTable s ! i) * int PAGE_SIZE + int ?n = int ?j"
    using wf_refs_tabf(2) [OF wf tab] by simp
  then have page: "find_page1 s (int i) (int ?n) = Some (MemEntry (int ?j))"
    using find_page1_tab [OF wf tab, of "int ?n"] by (simp only:)
  let ?b = "ref_byte frame1 s (Ent i ?n)"
  have rd: "pg_read s (MemEntry (int ?j)) = Some ?b"
    using j by (simp only: pg_read.simps arr_get_int ref_byte.simps)
  show ?thesis
  proof (cases "live1 s (Ent i ?n)")
    case lv: True
    then have valid: "pg_valid ?b" by simp
    let ?s = "(say (UpdatingWrite (int ?n)) s)\<lparr>mainMemory := (mainMemory s)[?j := set_write w ?b]\<rparr>"
    have "map_entry1 s (int i) a w = Some (?s, 0)"
      using lv page rd j
      by (simp add: map_entry1_def adr Let_def
          del: of_nat_add of_nat_mult pg_modify.simps pg_read.simps)
    moreover note rewrite_entry [OF wf lv, of ?s "set_write w ?b"]
    ultimately show ?thesis
      using lv valid
      by (simp add: ref_frame_def odd_iff_mod_2_eq_one del: live.simps ref_byte.simps)
  next
    case dead: False
    then have inv: "\<not> pg_valid ?b" using tab n by simp
    show ?thesis
    proof (cases "first_index (\<lambda>k. \<not> used1 s (int k)) PAGE_FRAMES")
      case None
      with dead inv find_free_frame1_eq [OF wf] page rd wf show ?thesis
        by (simp add: map_entry1_def adr del: of_nat_add of_nat_mult pg_read.simps ref_byte.simps live.simps)
    next
      case (Some f)
      then have f: "f < PAGE_FRAMES" "\<not> used1 s (int f)" by (simp_all add: first_index_Some_iff)
      let ?c = "set_write w (set_valid 1 (set_frame1 (int f) ?b))"
      let ?t = "s\<lparr>mainMemory := (mainMemory s)[?j := ?c]\<rparr>"
      have "map_entry1 s (int i) a w = Some (say (MappedPage a (int ?n) (int f)) ?t, 1)"
        using Some inv find_free_frame1_eq [OF wf] page rd j
        by (simp add: map_entry1_def adr
            del: of_nat_add of_nat_mult pg_modify.simps pg_read.simps)
      moreover note fresh_entry [OF wf tab n, of ?t ?c f]
      ultimately show ?thesis
        using f Some dead by (simp add: odd_iff_mod_2_eq_one del: live.simps ref_byte.simps)
    qed
  qed
qed

theorem map_page1_refines:
  assumes wf: "wf1 s" and i: "i < MAX_PROCESSES" and a: "0 \<le> a" "a < int VIRT_ADD_SPACE"
  shows "\<exists>s' c. map_page1 s (int i) a w = Some (s', c) \<and> wf1 s' \<and>
    spec_map (vview frame1 s) i a (odd w) (vview frame1 s') \<and>
    (c = 1 \<longleftrightarrow> vview frame1 s (i, page_no a) = None \<and> vview frame1 s' (i, page_no a) \<noteq> None) \<and>
    (vview frame1 s' (i, page_no a) = None \<longrightarrow> (\<forall>f<PAGE_FRAMES. used1 s' (int f)))"
proof -
  have entry: "\<exists>s' c. map_entry1 t (int i) a w = Some (s', c) \<and> wf1 s' \<and>
      spec_map (vview frame1 t) i a (odd w) (vview frame1 s') \<and>
      (c = 1 \<longleftrightarrow> vview frame1 t (i, page_no a) = None \<and> vview frame1 s' (i, page_no a) \<noteq> None) \<and>
      (vview frame1 s' (i, page_no a) = None \<longrightarrow> (\<forall>f<PAGE_FRAMES. used1 s' (int f)))"
    if "wf1 t" "live1 t (Tab i)" for t
  proof -
    from map_entry1_branches [OF that a, of w] obtain s' c where
      e: "map_entry1 t (int i) a w = Some (s', c)" "wf1 s'" and
      b: "if live1 t (Ent i (page_no a)) then c = 0 \<and> vview frame1 s' = (vview frame1 t)((i, page_no a) \<mapsto>
         (odd w, frame_bytes (mainMemory t) (nat (ref_frame frame1 t (Ent i (page_no a))))))
       else case first_index (\<lambda>k. \<not> used1 t (int k)) PAGE_FRAMES of
         Some f \<Rightarrow> c = 1 \<and>
           vview frame1 s' = (vview frame1 t)((i, page_no a) \<mapsto> (odd w, frame_bytes (mainMemory t) f))
       | None \<Rightarrow> c = 0 \<and> s' = say NoFrameForPage t" by blast
    have "length (frame_bytes (mainMemory t) f) = PAGE_SIZE" if "f < PAGE_FRAMES" for f
      using that wf_refs_lengths(1) [OF \<open>wf1 t\<close>] by simp
    note len = this
    have "spec_map (vview frame1 t) i a (odd w) (vview frame1 s') \<and>
      (c = 1 \<longleftrightarrow> vview frame1 t (i, page_no a) = None \<and> vview frame1 s' (i, page_no a) \<noteq> None) \<and>
      (vview frame1 s' (i, page_no a) = None \<longrightarrow> (\<forall>f<PAGE_FRAMES. used1 s' (int f)))"
    proof (cases "live1 t (Ent i (page_no a))")
      case True
      with b show ?thesis
        by (simp add: spec_map_def vview_eq_Some del: live.simps ref_byte.simps)
    next
      case False
      then have "vview frame1 t (i, page_no a) = None" by (simp add: vview_eq_None)
      with b False len show ?thesis
        by (auto simp: spec_map_def first_index_Some_iff first_index_None_iff simp del: live.simps split: option.splits)
    qed
    with e show ?thesis by (intro exI [of _ s'] exI [of _ c] conjI) auto
  qed
  show ?thesis
  proof (cases "live1 s (Tab i)")
    case True
    with entry [OF wf True] pg_read_proc [OF wf i] show ?thesis
      by (simp add: map_page1_def del: pg_read.simps)
  next
    case False
    then have nv: "\<not> pg_valid (procTable s ! i)" "\<not> live1 s (Ent i (page_no a))" using i by auto
    from init_table1_branches [OF wf i False] obtain t where
      t: "init_table1 s (int i) = Some t" "wf1 t" "vview frame1 t = vview frame1 s" and
      ti: "case first_index (\<lambda>k. \<not> used1 s (int k)) PAGE_FRAMES of
         Some f \<Rightarrow> console t = console s @ [PutTable (int i) (int f)] \<and>
           (\<forall>r. live1 t r \<longleftrightarrow> live1 s r \<or> r = Tab i) \<and> tabf frame1 t i = f
       | None \<Rightarrow> t = say (NoFrameForTable (int i)) s" by blast
    show ?thesis
    proof (cases "live1 t (Tab i)")
      case True
      then show ?thesis
        using entry [OF t(2) True] t nv(1) pg_read_proc [OF wf i] pg_read_proc [OF t(2) i]
        by (simp add: map_page1_def del: pg_read.simps)
    next
      case False
      then have "\<not> pg_valid (procTable t ! i)" using i by simp
      then have "map_page1 s (int i) a w = Some (say (NoTable (int i)) t, 0)"
        using t(1) nv(1) pg_read_proc [OF wf i] pg_read_proc [OF t(2) i]
        by (simp add: map_page1_def del: pg_read.simps)
      moreover have "vview frame1 s (i, page_no a) = None"
        using nv(2) by (simp add: vview_eq_None del: live.simps)
      moreover have "\<forall>f<PAGE_FRAMES. used1 t (int f)"
        using ti False by (auto simp: first_index_None_iff split: option.splits simp del: live.simps)
      ultimately show ?thesis
        using t(2,3) by (simp add: spec_map_def)
    qed
  qed
qed

end
