(* ===== verification/CLib.thy ===== *)
theory CLib
  imports Prelude "HOL-Library.Char_ord"
begin

text \<open>
  The functions of the C library that the programs call on strings and on standard input.
  A C string is the list of its characters before the terminating NUL; standard input is the
  list of the characters still to be read.
\<close>

section \<open>Characters\<close>

abbreviation newline :: char where "newline \<equiv> CHR 0x0A"
abbreviation nul :: char where "nul \<equiv> CHR 0x00"

definition code :: "char \<Rightarrow> int" where
  "code c = int (of_char c)"

definition isdigit :: "char \<Rightarrow> bool" where
  "isdigit c \<longleftrightarrow> 48 \<le> code c \<and> code c \<le> 57"

definition isspace :: "char \<Rightarrow> bool" where
  "isspace c \<longleftrightarrow> code c = 32 \<or> (9 \<le> code c \<and> code c \<le> 13)"

text \<open>The string a buffer holds: everything before the first NUL.\<close>

definition cstr :: "string \<Rightarrow> string" where
  "cstr buf = takeWhile (\<lambda>c. c \<noteq> nul) buf"

section \<open>fgets\<close>

text \<open>\<open>fgets(buf, sz, stdin)\<close> reads at most \<open>sz - 1\<close> characters and stops after a newline.
  \<open>None\<close> is the NULL it returns when no character is left.\<close>

fun fgets_chars :: "nat \<Rightarrow> string \<Rightarrow> string \<times> string" where
  "fgets_chars 0 inp = ([], inp)"
| "fgets_chars (Suc n) [] = ([], [])"
| "fgets_chars (Suc n) (c # inp) =
     (if c = newline then ([c], inp)
      else let (l, rest) = fgets_chars n inp in (c # l, rest))"

definition fgets :: "nat \<Rightarrow> string \<Rightarrow> (string \<times> string) option" where
  "fgets sz inp = (if inp = [] then None else Some (fgets_chars (sz - 1) inp))"

lemma fgets_chars_append: "fgets_chars n inp = (l, rest) \<Longrightarrow> inp = l @ rest"
  by (induction n inp arbitrary: l rule: fgets_chars.induct) (auto split: if_splits prod.splits)

lemma fgets_chars_length: "fgets_chars n inp = (l, rest) \<Longrightarrow> length l \<le> n"
  by (induction n inp arbitrary: l rule: fgets_chars.induct) (auto split: if_splits prod.splits)

lemma fgets_chars_nonempty:
  "0 < n \<Longrightarrow> inp \<noteq> [] \<Longrightarrow> fgets_chars n inp = (l, rest) \<Longrightarrow> l \<noteq> []"
  by (cases n; cases inp) (auto split: if_splits prod.splits)

text \<open>Nothing is lost or reordered, the buffer is not overrun, and every call makes progress.\<close>

lemma fgets_Some:
  assumes "fgets sz inp = Some (l, rest)" "1 < sz"
  shows "inp = l @ rest" and "length l < sz" and "length rest < length inp"
proof -
  from assms have ne: "inp \<noteq> []" and f: "fgets_chars (sz - 1) inp = (l, rest)"
    by (auto simp: fgets_def split: if_splits)
  show app: "inp = l @ rest" by (rule fgets_chars_append [OF f])
  show "length l < sz" using fgets_chars_length [OF f] assms(2) by simp
  show "length rest < length inp"
    using app fgets_chars_nonempty [OF _ ne f] assms(2) by simp
qed

text \<open>A line that fits is read as a whole, with its newline.\<close>

lemma fgets_line:
  assumes "newline \<notin> set l" "Suc (length l) < sz"
  shows "fgets sz (l @ newline # rest) = Some (l @ [newline], rest)"
proof -
  have "newline \<notin> set l \<Longrightarrow> length l < n \<Longrightarrow>
      fgets_chars n (l @ newline # rest) = (l @ [newline], rest)" for n
  proof (induction l arbitrary: n)
    case Nil
    then show ?case by (cases n) auto
  next
    case (Cons c l)
    then show ?case by (cases n) auto
  qed
  from this [of "sz - 1"] assms show ?thesis by (simp add: fgets_def)
qed

section \<open>strtok\<close>

text \<open>One call of \<open>strtok\<close> on the saved position: delimiters are skipped, the token runs to the
  next delimiter, which is overwritten by NUL, and the position after it is saved.\<close>

definition strtok :: "(char \<Rightarrow> bool) \<Rightarrow> string \<Rightarrow> string option \<times> string" where
  "strtok d s = (case dropWhile d s of
      [] \<Rightarrow> (None, [])
    | c # cs \<Rightarrow> (Some (takeWhile (\<lambda>x. \<not> d x) (c # cs)), drop 1 (dropWhile (\<lambda>x. \<not> d x) (c # cs))))"

text \<open>All tokens of a string, as a loop over \<open>strtok(NULL, d)\<close> sees them.\<close>

lemma strtok_rest_less: "strtok d s = (Some t, rest) \<Longrightarrow> length rest < length s"
proof -
  assume a: "strtok d s = (Some t, rest)"
  then obtain c cs where dw: "dropWhile d s = c # cs" by (auto simp: strtok_def split: list.splits)
  then have nd: "\<not> d c" by (metis hd_dropWhile list.sel(1) list.distinct(1))
  from a dw have "rest = drop 1 (dropWhile (\<lambda>x. \<not> d x) (c # cs))" by (simp add: strtok_def)
  then have "length rest \<le> length (dropWhile (\<lambda>x. \<not> d x) cs)" using nd by simp
  also have "\<dots> \<le> length cs" by (rule length_dropWhile_le)
  also have "\<dots> < length (dropWhile d s)" using dw by simp
  also have "\<dots> \<le> length s" by (rule length_dropWhile_le)
  finally show ?thesis .
qed

lemma strtok_token:
  "strtok d s = (Some t, rest) \<Longrightarrow> t \<noteq> [] \<and> (\<forall>c\<in>set t. \<not> d c)"
  by (auto simp: strtok_def split: list.splits dest: set_takeWhileD)
    (metis hd_dropWhile list.sel(1) list.distinct(1))

lemma strtok_None_iff: "fst (strtok d s) = None \<longleftrightarrow> (\<forall>c\<in>set s. d c)"
  by (auto simp: strtok_def split: list.splits) (metis dropWhile_eq_Nil_conv list.distinct(1))

lemma strtok_cons:
  assumes "t \<noteq> []" "\<forall>c\<in>set t. \<not> d c" "d x"
  shows "strtok d (t @ x # rest) = (Some t, rest)"
  using assms by (cases t) (auto simp: strtok_def)

lemma strtok_last:
  assumes "t \<noteq> []" "\<forall>c\<in>set t. \<not> d c"
  shows "strtok d t = (Some t, [])"
proof (cases t)
  case (Cons a l)
  with assms have "dropWhile (\<lambda>x. \<not> d x) l = []" "takeWhile (\<lambda>x. \<not> d x) l = l"
    by (simp_all add: dropWhile_eq_Nil_conv takeWhile_eq_all_conv)
  with assms Cons show ?thesis by (simp add: strtok_def del: dropWhile_eq_Nil_conv)
qed (use assms in simp)

section \<open>atoi\<close>

text \<open>\<open>atoi\<close> skips white space, takes an optional sign and reads digits. A value outside the range
  of \<open>int\<close> is undefined behaviour.\<close>

definition INT_MAX :: int where "INT_MAX = 2147483647"
definition INT_MIN :: int where "INT_MIN = -2147483648"

fun digits_value :: "int \<Rightarrow> string \<Rightarrow> int" where
  "digits_value acc [] = acc"
| "digits_value acc (c # cs) = (if isdigit c then digits_value (acc * 10 + (code c - 48)) cs else acc)"

definition to_int :: "int \<Rightarrow> int option" where
  "to_int v = (if INT_MIN \<le> v \<and> v \<le> INT_MAX then Some v else None)"

definition atoi :: "string \<Rightarrow> int option" where
  "atoi s = (case dropWhile isspace s of
      [] \<Rightarrow> Some 0
    | c # cs \<Rightarrow>
        if c = CHR ''-'' then to_int (- digits_value 0 cs)
        else if c = CHR ''+'' then to_int (digits_value 0 cs)
        else to_int (digits_value 0 (c # cs)))"

lemma digits_value_nonneg: "0 \<le> acc \<Longrightarrow> 0 \<le> digits_value acc cs"
  by (induction cs arbitrary: acc) (auto simp: isdigit_def)

lemma isdigit_not_space: "isdigit c \<Longrightarrow> \<not> isspace c"
  by (auto simp: isdigit_def isspace_def)

lemma isdigit_not_sign: "isdigit c \<Longrightarrow> c \<noteq> CHR ''-'' \<and> c \<noteq> CHR ''+''"
  by (auto simp: isdigit_def code_def)

lemma atoi_digit:
  "isdigit c \<Longrightarrow> atoi (c # cs) = to_int (digits_value 0 (c # cs))"
  using isdigit_not_space [of c] isdigit_not_sign [of c] by (simp add: atoi_def)

text \<open>A string that starts with a digit is read as a number that is not negative.\<close>

lemma atoi_digit_nonneg: "isdigit c \<Longrightarrow> atoi (c # cs) = Some v \<Longrightarrow> 0 \<le> v"
  using digits_value_nonneg [of 0 "c # cs"]
  by (simp add: atoi_digit to_int_def split: if_splits)

end
