(* ===== verification/Mem.thy ===== *)
theory Mem
  imports Paging CLib
begin

text \<open>
  The command loop that Project4/Part1/mem.c and Project4/Part2/mem.c have in common. The
  page table it drives is a parameter (the three functions \<open>map_page\<close>, \<open>store\<close> and
  \<open>load\<close> that \<open>pageTable.h\<close> declares), and the locale \<open>pager\<close> states what the loop relies on. The two
  page tables interpret it.
\<close>

section \<open>The program\<close>

type_synonym 's map_fun = "'s \<Rightarrow> int \<Rightarrow> int \<Rightarrow> int \<Rightarrow> ('s \<times> int) option"
type_synonym 's store_fun = "'s \<Rightarrow> int \<Rightarrow> int \<Rightarrow> byte \<Rightarrow> ('s \<times> int) option"
type_synonym 's load_fun = "'s \<Rightarrow> int \<Rightarrow> int \<Rightarrow> ('s \<times> int \<times> byte option) option"

text \<open>From the bounds checks to the end of the loop body. \<open>None\<close> as the instruction is the null
  pointer \<open>strtok\<close> returned; comparing it is undefined behaviour.\<close>

definition mem_dispatch ::
  "('a pmem_scheme) map_fun \<Rightarrow> ('a pmem_scheme) store_fun \<Rightarrow> ('a pmem_scheme) load_fun \<Rightarrow>
   'a pmem_scheme \<Rightarrow> int \<Rightarrow> string option \<Rightarrow> int \<Rightarrow> int \<Rightarrow> 'a pmem_scheme option" where
  "mem_dispatch map_page store load s pid instruction address value =
     (if address \<ge> int VIRT_ADD_SPACE \<or> address < 0 then Some (say AddressOutOfBounds s)
      else do {
        let s = (if pid \<ge> int MAX_PROCESSES \<or> pid < 0 then say PidOutOfBounds s else s);
        ins \<leftarrow> instruction;
        if ins = ''map'' then
          if value > 1 \<or> value < 0 then Some (say BadWriteFlag s)
          else map_option fst (map_page s pid address value)
        else if ins = ''store'' then map_option fst (store s pid address (word_of_int value))
        else if ins = ''load'' then map_option fst (load s pid address)
        else Some (say InvalidInstruction s) })"

definition atoi_or_0 :: "string option \<Rightarrow> int option" where
  "atoi_or_0 str = (case str of None \<Rightarrow> Some 0 | Some t \<Rightarrow> atoi t)"

text \<open>The first half of the loop body after \<open>fgets\<close>: the four tokens and the three numbers.\<close>

definition mem_parse :: "string \<Rightarrow> (int \<times> string option \<times> int \<times> int) option" where
  "mem_parse buf = do {
     let comma = (\<lambda>c. c = CHR '','');
     let (pidstr, r1) = strtok comma (cstr buf);
     let (instruction, r2) = strtok comma r1;
     let (addressstr, r3) = strtok comma r2;
     let (valuestr, r4) = strtok comma r3;
     pid \<leftarrow> atoi_or_0 pidstr;
     address \<leftarrow> atoi_or_0 addressstr;
     value \<leftarrow> atoi_or_0 valuestr;
     Some (pid, instruction, address, value) }"

definition mem_command ::
  "('a pmem_scheme) map_fun \<Rightarrow> ('a pmem_scheme) store_fun \<Rightarrow> ('a pmem_scheme) load_fun \<Rightarrow>
   'a pmem_scheme \<Rightarrow> string \<Rightarrow> 'a pmem_scheme option" where
  "mem_command map_page store load s buf = do {
     (pid, instruction, address, value) \<leftarrow> mem_parse buf;
     mem_dispatch map_page store load s pid instruction address value }"

text \<open>
  The input loop, up to the end of the input. There \<open>fgets\<close> returns NULL and leaves the fresh
  buffer indeterminate, so what the C loop does after that is not defined; the model stops.
\<close>

function mem_loop ::
  "('a pmem_scheme) map_fun \<Rightarrow> ('a pmem_scheme) store_fun \<Rightarrow> ('a pmem_scheme) load_fun \<Rightarrow>
   'a pmem_scheme \<Rightarrow> string \<Rightarrow> 'a pmem_scheme option" where
  "mem_loop map_page store load s inp =
     (case fgets 120 inp of
        None \<Rightarrow> Some (say Prompt s)
      | Some (buf, rest) \<Rightarrow> do {
          s \<leftarrow> mem_command map_page store load (say Prompt s) buf;
          mem_loop map_page store load s rest })"
  by pat_completeness auto
termination
  by (relation "measure (\<lambda>(m, st, l, s, inp). length inp)") (auto dest: fgets_Some(3))

declare mem_loop.simps [simp del]

text \<open>The buffers the loop reads, one per iteration.\<close>

function input_lines :: "string \<Rightarrow> string list" where
  "input_lines inp = (case fgets 120 inp of None \<Rightarrow> [] | Some (buf, rest) \<Rightarrow> buf # input_lines rest)"
  by pat_completeness auto
termination
  by (relation "measure length") (auto dest: fgets_Some(3))

declare input_lines.simps [simp del]

section \<open>What the loop relies on\<close>

text \<open>A command as the dispatcher receives it, within the bounds the loop itself does not enforce
  for the process number, and on a page of the given set.\<close>

definition good_command :: "nat set \<Rightarrow> int \<Rightarrow> string option \<Rightarrow> int \<Rightarrow> bool" where
  "good_command P pid ins a \<longleftrightarrow> 0 \<le> pid \<and> pid < int MAX_PROCESSES \<and> ins \<noteq> None \<and>
     (0 \<le> a \<and> a < int VIRT_ADD_SPACE \<longrightarrow> page_no a \<in> P)"

definition good_line :: "nat set \<Rightarrow> string \<Rightarrow> bool" where
  "good_line P buf \<longleftrightarrow> (case mem_parse buf of
      None \<Rightarrow> False | Some (pid, ins, a, v) \<Rightarrow> good_command P pid ins a)"

text \<open>The command stores to the byte at address \<open>b\<close> of process \<open>j\<close>.\<close>

definition stores_to :: "nat \<Rightarrow> int \<Rightarrow> int \<Rightarrow> string option \<Rightarrow> int \<Rightarrow> bool" where
  "stores_to j b pid ins a \<longleftrightarrow> ins = Some ''store'' \<and> pid = int j \<and>
     page_no a = page_no b \<and> page_off a = page_off b"

definition line_stores_to :: "nat \<Rightarrow> int \<Rightarrow> string \<Rightarrow> bool" where
  "line_stores_to j b buf \<longleftrightarrow> (case mem_parse buf of
      None \<Rightarrow> False | Some (pid, ins, a, v) \<Rightarrow> stores_to j b pid ins a)"

text \<open>The least the loop needs: within the bounds, on the pages of a given set, every command is
  defined and keeps an invariant.\<close>

locale safe_pager =
  fixes map_page :: "('a pmem_scheme) map_fun"
    and store :: "('a pmem_scheme) store_fun"
    and load :: "('a pmem_scheme) load_fun"
    and inv :: "'a pmem_scheme \<Rightarrow> bool"
    and pages :: "nat set"
  assumes map_safe: "inv s \<Longrightarrow> i < MAX_PROCESSES \<Longrightarrow> 0 \<le> a \<Longrightarrow> a < int VIRT_ADD_SPACE \<Longrightarrow>
      page_no a \<in> pages \<Longrightarrow> \<exists>s' c. map_page s (int i) a w = Some (s', c) \<and> inv s'"
    and store_safe: "inv s \<Longrightarrow> i < MAX_PROCESSES \<Longrightarrow> 0 \<le> a \<Longrightarrow> a < int VIRT_ADD_SPACE \<Longrightarrow>
      page_no a \<in> pages \<Longrightarrow> \<exists>s' c. store s (int i) a v = Some (s', c) \<and> inv s'"
    and load_safe: "inv s \<Longrightarrow> i < MAX_PROCESSES \<Longrightarrow> 0 \<le> a \<Longrightarrow> a < int VIRT_ADD_SPACE \<Longrightarrow>
      page_no a \<in> pages \<Longrightarrow> \<exists>s' c. load s (int i) a = Some (s', c) \<and> inv s'"
    and inv_say: "inv s \<Longrightarrow> inv (say m s)"
begin

lemma dispatch_safe:
  assumes "inv s" "good_command pages pid ins a"
  shows "\<exists>s'. mem_dispatch map_page store load s pid ins a v = Some s' \<and> inv s'"
proof (cases "0 \<le> a \<and> a < int VIRT_ADD_SPACE")
  case False
  then show ?thesis using assms(1) inv_say by (auto simp: mem_dispatch_def)
next
  case True
  from assms(2) obtain i x where i: "pid = int i" "i < MAX_PROCESSES" and x: "ins = Some x"
    and p: "page_no a \<in> pages"
    using True by (auto simp: good_command_def dest!: zero_le_imp_eq_int)
  have "\<exists>s' c. map_page s (int i) a v = Some (s', c) \<and> inv s'"
    using map_safe [OF assms(1) i(2) _ _ p, of v] True by blast
  moreover have "\<exists>s' c. store s (int i) a (word_of_int v) = Some (s', c) \<and> inv s'"
    using store_safe [OF assms(1) i(2) _ _ p] True by blast
  moreover have "\<exists>s' c. load s (int i) a = Some (s', c) \<and> inv s'"
    using load_safe [OF assms(1) i(2) _ _ p] True by blast
  ultimately show ?thesis
    using True i x assms(1) inv_say by (auto simp: mem_dispatch_def)
qed

lemma command_safe:
  assumes "inv s" "good_line pages buf"
  shows "\<exists>s'. mem_command map_page store load s buf = Some s' \<and> inv s'"
proof -
  from assms(2) obtain pid ins a v where p: "mem_parse buf = Some (pid, ins, a, v)"
    "good_command pages pid ins a" by (auto simp: good_line_def split: option.splits)
  with dispatch_safe [OF assms(1) p(2), of v] show ?thesis by (simp add: mem_command_def)
qed

text \<open>On any input of good commands the loop is defined to its end.\<close>

lemma loop_safe:
  assumes "inv s" "\<forall>buf\<in>set (input_lines inp). good_line pages buf"
  shows "\<exists>s'. mem_loop map_page store load s inp = Some s' \<and> inv s'"
  using assms
proof (induction inp arbitrary: s rule: input_lines.induct)
  case (1 inp)
  show ?case
  proof (cases "fgets 120 inp")
    case None
    with 1(2) inv_say show ?thesis by (simp add: mem_loop.simps)
  next
    case (Some p)
    obtain buf rest where p: "p = (buf, rest)" by (cases p)
    with Some 1(3) have g: "good_line pages buf" "\<forall>buf\<in>set (input_lines rest). good_line pages buf"
      by (subst (asm) (1) input_lines.simps, simp)+
    from command_safe [OF inv_say [OF 1(2)] g(1)] obtain s' where
      s': "mem_command map_page store load (say Prompt s) buf = Some s'" "inv s'" by blast
    from 1(1) [OF Some p [symmetric] s'(2) g(2)] s'(1) Some p show ?thesis
      by (subst mem_loop.simps) simp
  qed
qed

end

text \<open>
  A pager also has an abstract address space, and on the pages of the set it serves them
  faithfully: every command does what the abstract operation says.
\<close>

locale pager =
  fixes map_page :: "('a pmem_scheme) map_fun"
    and store :: "('a pmem_scheme) store_fun"
    and load :: "('a pmem_scheme) load_fun"
    and inv :: "'a pmem_scheme \<Rightarrow> bool"
    and view :: "'a pmem_scheme \<Rightarrow> vspace"
    and pages :: "nat set"
  assumes map_law: "inv s \<Longrightarrow> i < MAX_PROCESSES \<Longrightarrow> 0 \<le> a \<Longrightarrow> a < int VIRT_ADD_SPACE \<Longrightarrow>
      page_no a \<in> pages \<Longrightarrow>
      \<exists>s' c. map_page s (int i) a w = Some (s', c) \<and> inv s' \<and> spec_map (view s) i a (odd w) (view s')"
    and store_law: "inv s \<Longrightarrow> i < MAX_PROCESSES \<Longrightarrow> 0 \<le> a \<Longrightarrow> a < int VIRT_ADD_SPACE \<Longrightarrow>
      page_no a \<in> pages \<Longrightarrow>
      \<exists>s'. store s (int i) a v = Some (s', snd (spec_store (view s) i a v)) \<and> inv s' \<and>
           view s' = fst (spec_store (view s) i a v)"
    and load_law: "inv s \<Longrightarrow> i < MAX_PROCESSES \<Longrightarrow> 0 \<le> a \<Longrightarrow> a < int VIRT_ADD_SPACE \<Longrightarrow>
      page_no a \<in> pages \<Longrightarrow>
      \<exists>s'. load s (int i) a = Some (s', (if spec_load (view s) i a = None then 0 else 1),
             spec_load (view s) i a) \<and> inv s' \<and> view s' = view s"
    and pager_say: "inv s \<Longrightarrow> inv (say m s)"
    and view_say: "view (say m s) = view s"
    and view_length: "inv s \<Longrightarrow> view s (i, n) = Some (p, d) \<Longrightarrow> length d = PAGE_SIZE"

sublocale pager \<subseteq> safe_pager map_page store load inv pages
proof unfold_locales
  fix s i a w v
  assume a: "inv s" "i < MAX_PROCESSES" "0 \<le> a" "a < int VIRT_ADD_SPACE" "page_no a \<in> pages"
  show "\<exists>s' c. map_page s (int i) a w = Some (s', c) \<and> inv s'" using map_law [OF a, of w] by blast
  show "\<exists>s' c. store s (int i) a v = Some (s', c) \<and> inv s'" using store_law [OF a, of v] by blast
  show "\<exists>s' c. load s (int i) a = Some (s', c) \<and> inv s'" using load_law [OF a] by blast
qed (rule pager_say)

context pager
begin

text \<open>What a command can do to a byte of the address space: a store to that very address changes
  it, nothing else does, and a page once mapped stays mapped.\<close>

lemma dispatch_byte:
  assumes "inv s" "good_command pages pid ins a"
    and "mem_dispatch map_page store load s pid ins a v = Some s'"
    and "spec_load (view s) j b = Some x"
    and "\<not> stores_to j b pid ins a"
  shows "spec_load (view s') j b = Some x"
proof (cases "0 \<le> a \<and> a < int VIRT_ADD_SPACE")
  case False
  then show ?thesis using assms(3,4) view_say by (auto simp: mem_dispatch_def)
next
  case True
  from assms(2) obtain i y where i: "pid = int i" "i < MAX_PROCESSES" and y: "ins = Some y"
    and p: "page_no a \<in> pages"
    using True by (auto simp: good_command_def dest!: zero_le_imp_eq_int)
  from assms(4) obtain w d where V: "view s (j, page_no b) = Some (w, d)" "x = d ! page_off b"
    by (auto simp: spec_load_def)
  have eq: "mem_dispatch map_page store load s pid ins a v =
      (if y = ''map'' then if v > 1 \<or> v < 0 then Some (say BadWriteFlag s)
         else map_option fst (map_page s (int i) a v)
       else if y = ''store'' then map_option fst (store s (int i) a (word_of_int v))
       else if y = ''load'' then map_option fst (load s (int i) a)
       else Some (say InvalidInstruction s))"
    using True i y by (simp add: mem_dispatch_def)
  consider (m) "y = ''map''" "\<not> (v > 1 \<or> v < 0)" | (st) "y = ''store''" | (ld) "y = ''load''"
    | (o) "view s' = view s"
    using eq assms(3) view_say by (auto split: if_splits)
  then show ?thesis
  proof cases
    case m
    from map_law [OF assms(1) i(2) _ _ p, of v] True obtain t c where
      "map_page s (int i) a v = Some (t, c)" "spec_map (view s) i a (odd v) (view t)" by blast
    with eq assms(3) m have "spec_map (view s) i a (odd v) (view s')" by simp
    with V show ?thesis
      by (cases "(i, page_no a) = (j, page_no b)")
        (auto simp: spec_map_def spec_load_def split: option.splits)
  next
    case st
    from store_law [OF assms(1) i(2) _ _ p, of "word_of_int v"] True obtain t where
      t: "store s (int i) a (word_of_int v) =
         Some (t, snd (spec_store (view s) i a (word_of_int v)))"
      "view t = fst (spec_store (view s) i a (word_of_int v))" by blast
    with eq assms(3) st have "view s' = fst (spec_store (view s) i a (word_of_int v))" by simp
    moreover have "page_off a \<noteq> page_off b" if "(i, page_no a) = (j, page_no b)"
      using assms(5) that st y i by (auto simp: stores_to_def)
    ultimately show ?thesis using V
      by (cases "(i, page_no a) = (j, page_no b)"; cases w)
        (auto simp: spec_store_def spec_load_def split: option.splits bool.splits prod.splits)
  next
    case ld
    from load_law [OF assms(1) i(2) _ _ p] True obtain t c where
      "load s (int i) a = Some (t, c)" "view t = view s" by blast
    with eq assms(3,4) ld show ?thesis by simp
  next
    case o
    with assms(4) show ?thesis by simp
  qed
qed


lemma command_byte:
  assumes "inv s" "good_line pages buf" "mem_command map_page store load s buf = Some s'"
    and "spec_load (view s) j b = Some x" "\<not> line_stores_to j b buf"
  shows "spec_load (view s') j b = Some x"
proof -
  from assms(2) obtain pid ins a v where p: "mem_parse buf = Some (pid, ins, a, v)"
    "good_command pages pid ins a" by (auto simp: good_line_def split: option.splits)
  with assms(3) have "mem_dispatch map_page store load s pid ins a v = Some s'"
    by (simp add: mem_command_def)
  moreover have "\<not> stores_to j b pid ins a" using assms(5) p(1) by (simp add: line_stores_to_def)
  ultimately show ?thesis using dispatch_byte [OF assms(1) p(2)] assms(4) by blast
qed

text \<open>The whole session: on any input of good commands the loop is defined to its end, and a byte
  that a process can read keeps its value as long as no line stores to it.\<close>


lemma loop_byte:
  assumes "inv s" "\<forall>buf\<in>set (input_lines inp). good_line pages buf \<and> \<not> line_stores_to j b buf"
    and "mem_loop map_page store load s inp = Some s'" "spec_load (view s) j b = Some x"
  shows "spec_load (view s') j b = Some x"
  using assms
proof (induction inp arbitrary: s rule: input_lines.induct)
  case (1 inp)
  show ?case
  proof (cases "fgets 120 inp")
    case None
    with 1(4,5) view_say show ?thesis by (auto simp: mem_loop.simps)
  next
    case (Some p)
    obtain buf rest where p: "p = (buf, rest)" by (cases p)
    with Some 1(3) have g: "good_line pages buf" "\<not> line_stores_to j b buf"
      "\<forall>buf\<in>set (input_lines rest). good_line pages buf \<and> \<not> line_stores_to j b buf"
      by (subst (asm) (1) input_lines.simps, simp)+
    from command_safe [OF inv_say [OF 1(2)] g(1)] obtain t where
      t: "mem_command map_page store load (say Prompt s) buf = Some t" "inv t" by blast
    have "spec_load (view t) j b = Some x"
      using command_byte [OF inv_say [OF 1(2)] g(1) t(1)] g(2) 1(5) view_say by simp
    moreover have "mem_loop map_page store load t rest = Some s'"
      using 1(4) Some p t(1) by (subst (asm) (1) mem_loop.simps) simp
    ultimately show ?thesis using 1(1) [OF Some p [symmetric] t(2) g(3)] by blast
  qed
qed

lemma store_then_visible:
  assumes "inv s" "i < MAX_PROCESSES" "0 \<le> a" "a < int VIRT_ADD_SPACE" "page_no a \<in> pages"
    and "store s (int i) a v = Some (t, 1)"
  shows "inv t" and "spec_load (view t) i a = Some v"
proof -
  from store_law [OF assms(1-5), of v] assms(6) have
    t: "inv t" "view t = fst (spec_store (view s) i a v)" "snd (spec_store (view s) i a v) = 1"
    by auto
  from t(3) obtain d where d: "view s (i, page_no a) = Some (True, d)"
    by (auto simp: spec_store_def split: option.splits bool.splits)
  have "length d = PAGE_SIZE" by (rule view_length [OF assms(1) d])
  with t(2) d show "spec_load (view t) i a = Some v"
    by (simp add: spec_store_def spec_load_def)
  show "inv t" by (rule t(1))
qed

text \<open>A value that was stored is read back, whatever good commands come between that do not
  store to the same address of the same process.\<close>

lemma read_your_writes:
  assumes "inv s" "i < MAX_PROCESSES" "0 \<le> a" "a < int VIRT_ADD_SPACE" "page_no a \<in> pages"
    and "store s (int i) a v = Some (t, 1)"
    and "\<forall>buf\<in>set (input_lines inp). good_line pages buf \<and> \<not> line_stores_to i a buf"
  shows "\<exists>u u'. mem_loop map_page store load t inp = Some u \<and> load u (int i) a = Some (u', 1, Some v)"
proof -
  note t = store_then_visible [OF assms(1-6)]
  from loop_safe [OF t(1)] assms(7) obtain u where
    u: "mem_loop map_page store load t inp = Some u" "inv u" by blast
  have "spec_load (view u) i a = Some v"
    by (rule loop_byte [OF t(1) assms(7) u(1) t(2)])
  with load_law [OF u(2) assms(2-5)] u(1) show ?thesis by auto
qed

end

end
