(* ===== verification/Mem1.thy ===== *)
theory Mem1
  imports PageTable1 Mem
begin

text \<open>
  Project4/Part1/mem.c: the command loop over the page table of Part1. The interpretation
  of \<open>pager\<close> says that this page table is a faithful virtual memory on all four
  pages of every process; the properties of whole sessions follow from it.
\<close>

text \<open>\<open>main\<close>: the initialisation loop writes through \<open>procTable->valid\<close>, so it clears the first
  entry four times.\<close>

fun clear_first1 :: "nat \<Rightarrow> pmem \<Rightarrow> pmem option" where
  "clear_first1 0 s = Some s"
| "clear_first1 (Suc n) s = do { s \<leftarrow> pg_modify s (ProcEntry 0) (set_valid 0); clear_first1 n s }"

definition mem1_main :: "string \<Rightarrow> pmem option" where
  "mem1_main inp = do {
     s \<leftarrow> clear_first1 MAX_PROCESSES boot1;
     mem_loop map_page1 store1 load1 s inp }"

interpretation pager1: pager map_page1 store1 load1 wf1 "vview frame1" "{..<4}"
proof unfold_locales
  show "\<exists>s'. load1 s (int i) a = Some (s', (if spec_load (vview frame1 s) i a = None then 0 else 1),
          spec_load (vview frame1 s) i a) \<and> wf1 s' \<and> vview frame1 s' = vview frame1 s"
    if "wf1 s" "i < MAX_PROCESSES" "0 \<le> a" "a < int VIRT_ADD_SPACE" for s i a
    using load1_refines [OF that] that(1) by auto
  show "length d = PAGE_SIZE" if "wf1 s" "vview frame1 s (i, n) = Some (p, d)" for s i n p d
    using that wf_refs_frame [OF that(1), of "Ent i n"] wf_refs_lengths(1) [OF that(1)]
    by (auto simp: vview_def in_range_def split: if_splits)
qed (use map_page1_refines store1_refines in \<open>blast | simp\<close>)+

lemma clear_first1_eq: "procTable s \<noteq> [] \<Longrightarrow> \<exists>s'. clear_first1 n s = Some s' \<and>
   mainMemory s' = mainMemory s \<and> length (procTable s') = length (procTable s) \<and>
   ((\<forall>p\<in>set (procTable s). \<not> pg_valid p) \<longrightarrow> (\<forall>p\<in>set (procTable s'). \<not> pg_valid p))"
proof (induction n arbitrary: s)
  case (Suc n)
  let ?s = "s\<lparr>procTable := (procTable s)[0 := set_valid 0 (procTable s ! 0)]\<rparr>"
  have "pg_modify s (ProcEntry (int 0)) (set_valid 0) = Some ?s" using Suc.prems by (intro pg_modify_proc) simp
  moreover have "procTable ?s \<noteq> []" using Suc.prems by simp
  ultimately show ?case using Suc.IH [of ?s] by (auto dest: set_update_subset_insert [THEN subsetD])
qed simp

lemma wf1_all_invalid:
  assumes "length (mainMemory s) = PHYS_MEM_SIZE" "length (procTable s) = MAX_PROCESSES"
    and "\<forall>p\<in>set (procTable s). \<not> pg_valid p"
  shows "wf1 s"
proof -
  have "\<not> live frame1 s r" for r using assms by (cases r) auto
  with assms(1,2) show ?thesis by (intro wf_refsI) auto
qed

lemma mem1_start: "\<exists>s. clear_first1 n boot1 = Some s \<and> wf1 s"
proof -
  from clear_first1_eq [of boot1 n] obtain s where "clear_first1 n boot1 = Some s"
    "mainMemory s = mainMemory boot1" "length (procTable s) = length (procTable boot1)"
    "(\<forall>p\<in>set (procTable boot1). \<not> pg_valid p) \<longrightarrow> (\<forall>p\<in>set (procTable s). \<not> pg_valid p)"
    by (auto simp: boot1_def)
  then show ?thesis using wf1_all_invalid [of s] by (auto simp: boot1_def)
qed

section \<open>Properties\<close>

text \<open>A memory with one page: the table of process 0 is in frame 0 and its entry 0 names frame 1,
  writable.\<close>

definition demo1 :: pmem where
  "demo1 = \<lparr>mainMemory = 7 # replicate 63 0, procTable = [3, 0, 0, 0], console = []\<rparr>"

lemma demo1_wf: "wf1 demo1"
  by code_simp

text \<open>C12: \<open>map_page\<close> (Part1) on every branch. For a process number and an address in range it is
  defined and keeps the invariant; a page that was mapped keeps its contents and gets the new permission, a
  page that was not mapped is mapped or everything stays as it was; it returns 1 exactly when it has mapped
  a page; and it leaves the page unmapped only when all four frames are in use.\<close>

theorem map_page1_correct:
  assumes "wf1 s" "i < MAX_PROCESSES" "0 \<le> a" "a < int VIRT_ADD_SPACE"
  shows "\<exists>s' c. map_page1 s (int i) a w = Some (s', c) \<and> wf1 s' \<and>
    spec_map (vview frame1 s) i a (odd w) (vview frame1 s') \<and>
    (c = 1 \<longleftrightarrow> vview frame1 s (i, page_no a) = None \<and> vview frame1 s' (i, page_no a) \<noteq> None) \<and>
    (vview frame1 s' (i, page_no a) = None \<longrightarrow> (\<forall>f<PAGE_FRAMES. used1 s' (int f)))"
  by (rule map_page1_refines [OF assms])

theorem map_page1_correct_witness:
  "\<exists>s' c. map_page1 demo1 (int 1) 20 1 = Some (s', c) \<and> wf1 s' \<and>
    spec_map (vview frame1 demo1) 1 20 True (vview frame1 s')"
  using map_page1_correct [OF demo1_wf, of 1 20 1] by auto

text \<open>C13: \<open>store\<close> (Part1) implements the abstract store: it writes the byte when the page is
  mapped and writable and returns 1, it returns 0 and changes no page otherwise, it keeps the
  invariant, and it touches no other page of any process.\<close>

theorem store1_correct:
  assumes "wf1 s" "i < MAX_PROCESSES" "0 \<le> a" "a < int VIRT_ADD_SPACE"
  shows "\<exists>s'. store1 s (int i) a v = Some (s', snd (spec_store (vview frame1 s) i a v)) \<and> wf1 s' \<and>
    vview frame1 s' = fst (spec_store (vview frame1 s) i a v)"
  by (rule store1_refines [OF assms])

theorem store1_correct_witness:
  "\<exists>s'. store1 demo1 (int 0) 5 42 = Some (s', 1) \<and> wf1 s'"
proof -
  have "snd (spec_store (vview frame1 demo1) 0 5 42) = 1" by code_simp
  with store1_correct [OF demo1_wf, of 0 5 42] show ?thesis by auto
qed



text \<open>C6: a byte that a process has stored is read back by it after any further session of well-formed
  lines (any processes, any maps, stores and loads) in which no line stores to that address.\<close>

theorem mem1_read_your_writes:
  assumes "mem1_main before = Some s" "\<forall>buf\<in>set (input_lines before). good_line {..<4} buf"
    and "i < MAX_PROCESSES" "0 \<le> a" "a < int VIRT_ADD_SPACE" "store1 s (int i) a v = Some (t, 1)"
    and "\<forall>buf\<in>set (input_lines after). good_line {..<4} buf \<and> \<not> line_stores_to i a buf"
  shows "\<exists>u u'. mem_loop map_page1 store1 load1 t after = Some u \<and> load1 u (int i) a = Some (u', 1, Some v)"
proof -
  from mem1_start [of MAX_PROCESSES] obtain s0 where s0: "clear_first1 MAX_PROCESSES boot1 = Some s0" "wf1 s0" by blast
  with pager1.loop_safe [OF s0(2) assms(2)] assms(1) have "wf1 s" by (auto simp: mem1_main_def)
  moreover have "page_no a \<in> {..<4}" using page_no_less [OF assms(4,5)] by simp
  ultimately show ?thesis using pager1.read_your_writes [OF _ assms(3-5) _ assms(6,7)] by blast
qed

theorem mem1_read_your_writes_witness:
  "\<exists>s t u u'. mem1_main (''0,map,1,1'' @ [newline]) = Some s \<and> store1 s (int 0) 5 42 = Some (t, 1) \<and>
     mem_loop map_page1 store1 load1 t (''1,map,20,1'' @ [newline]) = Some u \<and>
     load1 u (int 0) 5 = Some (u', 1, Some 42)"
proof -
  have "map_option (\<lambda>s. map_option snd (store1 s (int 0) 5 42)) (mem1_main (''0,map,1,1'' @ [newline])) = Some (Some 1)"
    by code_simp
  then obtain s t where s: "mem1_main (''0,map,1,1'' @ [newline]) = Some s" "store1 s (int 0) 5 42 = Some (t, 1)"
    by auto
  have b: "\<forall>buf\<in>set (input_lines (''0,map,1,1'' @ [newline])). good_line {..<4} buf" by code_simp
  have a: "\<forall>buf\<in>set (input_lines (''1,map,20,1'' @ [newline])). good_line {..<4} buf \<and> \<not> line_stores_to 0 5 buf"
    by code_simp
  show ?thesis using mem1_read_your_writes [OF s(1) b _ _ _ s(2) a] s by auto
qed

end
