(* ===== verification/PageTable2.thy ===== *)
theory PageTable2
  imports Paging
begin

text \<open>
  Project4/Part2/pageTable.c: the page table of Part1 with a backing store. When no frame is
  free, \<open>free_frame\<close> moves one out, round robin, and \<open>check_backing_store\<close> moves pages and
  page tables back in. As before \<open>None\<close> is undefined behaviour and return codes are values.
\<close>

section \<open>Data\<close>

abbreviation STORE_FRAMES :: nat where "STORE_FRAMES \<equiv> 64"

definition frame2 :: "byte \<Rightarrow> int" where
  "frame2 b = get_bits 2 4 b"

definition procc2 :: "byte \<Rightarrow> int" where
  "procc2 b = get_bits 6 2 b"

definition set_frame2 :: "int \<Rightarrow> byte \<Rightarrow> byte" where
  "set_frame2 v b = set_bits 2 4 v b"

definition set_procc2 :: "int \<Rightarrow> byte \<Rightarrow> byte" where
  "set_procc2 v b = set_bits 6 2 v b"

record storedFrame =
  sf_data :: "byte list"
  sf_pid :: int
  sf_page :: int
  sf_write :: int

text \<open>\<open>robin\<close> is the static variable of \<open>free_frame\<close>.\<close>

record pmem2 = pmem +
  backingStore :: "storedFrame list"
  robin :: int

section \<open>Frames: who owns one, and a free one\<close>

fun scan_entries2 :: "byte list \<Rightarrow> int \<Rightarrow> int \<Rightarrow> nat \<Rightarrow> page_ptr option" where
  "scan_entries2 m frame j 0 = Some Null"
| "scan_entries2 m frame j (Suc n) = do {
     tmp \<leftarrow> arr_get m j;
     if pg_valid tmp \<and> frame2 tmp = frame then Some (MemEntry j)
     else scan_entries2 m frame (j + 1) n }"

fun scan_procs2 :: "byte list \<Rightarrow> int \<Rightarrow> nat \<Rightarrow> byte list \<Rightarrow> page_ptr option" where
  "scan_procs2 m frame i [] = Some Null"
| "scan_procs2 m frame i (p # ps) =
     (if pg_valid p then
        if frame2 p = frame then Some (ProcEntry (int i))
        else do {
          tmp \<leftarrow> scan_entries2 m frame (frame2 p * int PAGE_SIZE) PAGE_SIZE;
          if tmp \<noteq> Null then Some tmp else scan_procs2 m frame (Suc i) ps }
      else scan_procs2 m frame (Suc i) ps)"

definition frame_allocated2 :: "pmem2 \<Rightarrow> int \<Rightarrow> page_ptr option" where
  "frame_allocated2 s frame = scan_procs2 (mainMemory s) frame 0 (procTable s)"

text \<open>\<open>get_page_num\<close>: the inner loop compares the addresses of entries 1 to 15.\<close>

fun entry_num2 :: "page_ptr \<Rightarrow> int \<Rightarrow> int \<Rightarrow> nat \<Rightarrow> int option" where
  "entry_num2 page base j 0 = None"
| "entry_num2 page base j (Suc n) =
     (if page = MemEntry (base + j) then Some j else entry_num2 page base (j + 1) n)"

fun page_num_scan2 :: "page_ptr \<Rightarrow> nat \<Rightarrow> byte list \<Rightarrow> int" where
  "page_num_scan2 page i [] = -2"
| "page_num_scan2 page i (p # ps) =
     (if page = ProcEntry (int i) then -1
      else if pg_valid p then
        (case entry_num2 page (frame2 p * int PAGE_SIZE) 1 (PAGE_SIZE - 1) of
           Some j \<Rightarrow> j
         | None \<Rightarrow> page_num_scan2 page (Suc i) ps)
      else page_num_scan2 page (Suc i) ps)"

definition get_page_num2 :: "pmem2 \<Rightarrow> page_ptr \<Rightarrow> int" where
  "get_page_num2 s page = page_num_scan2 page 0 (procTable s)"

text \<open>The sixteen bytes from \<open>mainMemory[base]\<close> on.\<close>

fun read_bytes2 :: "byte list \<Rightarrow> int \<Rightarrow> nat \<Rightarrow> byte list option" where
  "read_bytes2 m base 0 = Some []"
| "read_bytes2 m base (Suc n) = do {
     b \<leftarrow> arr_get m base;
     bs \<leftarrow> read_bytes2 m (base + 1) n;
     Some (b # bs) }"

definition free_slot2 :: "pmem2 \<Rightarrow> nat option" where
  "free_slot2 s = first_index (\<lambda>k. sf_pid (backingStore s ! k) < 0) STORE_FRAMES"

definition free_specific_frame2 :: "pmem2 \<Rightarrow> page_ptr \<Rightarrow> pmem2 option" where
  "free_specific_frame2 s page = do {
     s \<leftarrow> pg_modify s page (set_valid 0);
     b \<leftarrow> pg_read s page;
     let frame = frame2 b;
     (case free_slot2 s of
        Some i \<Rightarrow> do {
          bytes \<leftarrow> read_bytes2 (mainMemory s) (frame2 b * int PAGE_SIZE) PAGE_SIZE;
          let slot = \<lparr>sf_data = bytes, sf_pid = procc2 b, sf_page = get_page_num2 s page,
                      sf_write = pg_write b\<rparr>;
          Some (say (MovedFrame frame (int i)) (s\<lparr>backingStore := (backingStore s)[i := slot]\<rparr>)) }
      | None \<Rightarrow> Some (say (MovedFrame frame (int STORE_FRAMES)) s)) }"

text \<open>The loop of \<open>free_frame\<close> that empties the table of another process.\<close>

fun unload_entries2 :: "pmem2 \<Rightarrow> page_ptr \<Rightarrow> int \<Rightarrow> nat \<Rightarrow> pmem2 option" where
  "unload_entries2 s page i 0 = Some s"
| "unload_entries2 s page i (Suc n) = do {
     p \<leftarrow> pg_read s page;
     b \<leftarrow> pg_read s (MemEntry (frame2 p * int PAGE_SIZE + i));
     s \<leftarrow> (if pg_valid b then free_specific_frame2 s (MemEntry (frame2 p * int PAGE_SIZE + i))
          else Some s);
     unload_entries2 s page (i + 1) n }"

definition next_robin2 :: "int \<Rightarrow> int" where
  "next_robin2 r = (if r + 1 \<ge> int PAGE_FRAMES then 0 else r + 1)"

fun is_proc_entry :: "page_ptr \<Rightarrow> bool" where
  "is_proc_entry (ProcEntry i) \<longleftrightarrow> 0 \<le> i \<and> i < int MAX_PROCESSES"
| "is_proc_entry _ \<longleftrightarrow> False"

lemma scan_entries2_not_proc: "scan_entries2 m f j n \<noteq> Some (ProcEntry k)"
  by (induction m f j n rule: scan_entries2.induct) (auto simp: bind_eq_Some_conv split: if_splits)

lemma scan_procs2_proc:
  "scan_procs2 m f i ps = Some (ProcEntry k) \<Longrightarrow>
   i \<le> nat k \<and> 0 \<le> k \<and> nat k < i + length ps \<and> frame2 (ps ! (nat k - i)) = f"
proof (induction ps arbitrary: i)
  case Nil
  then show ?case by simp
next
  case (Cons p ps)
  show ?case
  proof (cases "pg_valid p \<and> frame2 p = f")
    case True
    with Cons.prems show ?thesis by auto
  next
    case False
    with Cons.prems have "scan_procs2 m f (Suc i) ps = Some (ProcEntry k)"
      by (auto simp: bind_eq_Some_conv scan_entries2_not_proc split: if_splits)
    from Cons.IH [OF this] have ih: "Suc i \<le> nat k" "0 \<le> k" "nat k < Suc i + length ps"
      "frame2 (ps ! (nat k - Suc i)) = f" by simp_all
    then have "nat k - i = Suc (nat k - Suc i)" by simp
    with ih show ?thesis by simp
  qed
qed

text \<open>
  \<open>free_frame\<close> calls itself again after it has skipped the frame that holds the table of the given
  process. Only one frame can be that frame, so it calls itself at most once.
\<close>

function free_frame2 :: "pmem2 \<Rightarrow> int \<Rightarrow> (pmem2 \<times> int) option" where
  "free_frame2 s pid = do {
     page \<leftarrow> frame_allocated2 s (robin s);
     if page = ProcEntry pid then
       free_frame2 ((say (SkippedFrame (robin s)) s)\<lparr>robin := next_robin2 (robin s)\<rparr>) pid
     else do {
       s \<leftarrow> (if is_proc_entry page then do {
              p \<leftarrow> pg_read s page;
              unload_entries2 (say (UnloadingTable (procc2 p)) s) page 0 PAGE_SIZE }
            else Some s);
       s \<leftarrow> free_specific_frame2 s page;
       Some (s\<lparr>robin := next_robin2 (robin s)\<rparr>, robin s) } }"
  by pat_completeness auto
termination
proof (relation "measure (\<lambda>(s, pid). if frame2 (procTable s ! nat pid) = robin s then 1 else 0)")
  fix s :: pmem2 and pid page
  assume "frame_allocated2 s (robin s) = Some page" "page = ProcEntry pid"
  then have "frame2 (procTable s ! nat pid) = robin s"
    using scan_procs2_proc [of "mainMemory s" "robin s" 0 "procTable s" pid]
    by (simp add: frame_allocated2_def)
  then show "(((say (SkippedFrame (robin s)) s)\<lparr>robin := next_robin2 (robin s)\<rparr>, pid), s, pid)
      \<in> measure (\<lambda>(s, pid). if frame2 (procTable s ! nat pid) = robin s then 1 else 0)"
    by (simp add: next_robin2_def)
qed simp

declare free_frame2.simps [simp del]

fun free_scan2 :: "pmem2 \<Rightarrow> int \<Rightarrow> nat \<Rightarrow> int option option" where
  "free_scan2 s i 0 = Some None"
| "free_scan2 s i (Suc n) = do {
     page \<leftarrow> frame_allocated2 s i;
     if page = Null then Some (Some i) else free_scan2 s (i + 1) n }"

definition find_free_frame2 :: "pmem2 \<Rightarrow> int \<Rightarrow> (pmem2 \<times> int) option" where
  "find_free_frame2 s pid = do {
     r \<leftarrow> free_scan2 s 0 PAGE_FRAMES;
     (case r of Some i \<Rightarrow> Some (s, i) | None \<Rightarrow> free_frame2 s pid) }"

section \<open>Moving pages back in\<close>

fun write_bytes2 :: "byte list \<Rightarrow> int \<Rightarrow> byte list \<Rightarrow> byte list option" where
  "write_bytes2 m base [] = Some m"
| "write_bytes2 m base (b # bs) = do { m \<leftarrow> arr_set m base b; write_bytes2 m (base + 1) bs }"

text \<open>The four assignments to a page that has been loaded.\<close>

definition install_page2 :: "pmem2 \<Rightarrow> page_ptr \<Rightarrow> int \<Rightarrow> int \<Rightarrow> int \<Rightarrow> pmem2 option" where
  "install_page2 s page frame pid write = do {
     s \<leftarrow> pg_modify s page (set_frame2 frame);
     s \<leftarrow> pg_modify s page (set_procc2 pid);
     s \<leftarrow> pg_modify s page (set_valid 1);
     pg_modify s page (set_write write) }"

fun init_entries2 :: "pmem2 \<Rightarrow> int \<Rightarrow> int \<Rightarrow> nat \<Rightarrow> pmem2 option" where
  "init_entries2 s pid tmp 0 = Some s"
| "init_entries2 s pid tmp (Suc n) = do {
     s \<leftarrow> pg_modify s (MemEntry tmp) (set_valid 0);
     s \<leftarrow> pg_modify s (MemEntry tmp) (set_procc2 pid);
     init_entries2 s pid (tmp + 1) n }"

definition find_slot2 :: "pmem2 \<Rightarrow> int \<Rightarrow> int \<Rightarrow> nat option" where
  "find_slot2 s pid pageNum = first_index
     (\<lambda>k. sf_pid (backingStore s ! k) = pid \<and> sf_page (backingStore s ! k) = pageNum) STORE_FRAMES"

text \<open>
  \<open>check_backing_store\<close>, \<open>init_table\<close> and \<open>find_page\<close> call each other: a page is entered into
  its table, which may have to be loaded or made first. Loading a table needs no other table, which
  is why the recursion ends.
\<close>

function check_backing_store2 :: "pmem2 \<Rightarrow> int \<Rightarrow> int \<Rightarrow> (pmem2 \<times> int) option"
  and init_table2 :: "pmem2 \<Rightarrow> int \<Rightarrow> pmem2 option"
  and find_page2 :: "pmem2 \<Rightarrow> int \<Rightarrow> int \<Rightarrow> (pmem2 \<times> page_ptr) option" where
  "check_backing_store2 s pid pageNum =
     (case find_slot2 s pid pageNum of
        None \<Rightarrow> Some (s, 0)
      | Some i \<Rightarrow> do {
          (s, frame) \<leftarrow> find_free_frame2 s pid;
          m \<leftarrow> write_bytes2 (mainMemory s) (frame * int PAGE_SIZE) (sf_data (backingStore s ! i));
          let s = s\<lparr>mainMemory := m\<rparr>;
          s \<leftarrow> (if pageNum = -1 then
                 install_page2 s (ProcEntry pid) frame pid (sf_write (backingStore s ! i))
               else do {
                 (s, tmp) \<leftarrow> find_page2 s pid pageNum;
                 install_page2 s tmp frame pid (sf_write (backingStore s ! i)) });
          let s = say (if pageNum = -1 then LoadedTable pid frame else LoadedPage pageNum pid frame) s;
          Some (s\<lparr>backingStore := (backingStore s)[i := (backingStore s ! i)\<lparr>sf_pid := -1\<rparr>]\<rparr>, 1) })"
| "init_table2 s pid = do {
     (s, r) \<leftarrow> check_backing_store2 s pid (-1);
     if r \<noteq> 0 then Some s
     else do {
       (s, frame) \<leftarrow> find_free_frame2 s pid;
       if frame \<ge> 0 then do {
         s \<leftarrow> pg_modify s (ProcEntry pid) (set_valid 1);
         s \<leftarrow> pg_modify s (ProcEntry pid) (set_procc2 pid);
         s \<leftarrow> pg_modify s (ProcEntry pid) (set_write 1);
         s \<leftarrow> pg_modify s (ProcEntry pid) (set_frame2 frame);
         s \<leftarrow> init_entries2 s pid (frame * int PAGE_SIZE) PAGE_SIZE;
         Some (say (PutTable pid frame) s) }
       else Some (say (NoFrameForTable pid) s) } }"
| "find_page2 s pid n = do {
     p \<leftarrow> pg_read s (ProcEntry pid);
     s \<leftarrow> (if \<not> pg_valid p then init_table2 s pid else Some s);
     p \<leftarrow> pg_read s (ProcEntry pid);
     Some (s, MemEntry (frame2 p * int PAGE_SIZE + n)) }"
  by pat_completeness auto
termination
  by (relation "measure (\<lambda>x. case x of
        Inl (s, pid, n) \<Rightarrow> if n = -1 then 0 else 3
      | Inr (Inl (s, pid)) \<Rightarrow> 1
      | Inr (Inr (s, pid, n)) \<Rightarrow> 2)") auto

declare check_backing_store2.simps [simp del] init_table2.simps [simp del] find_page2.simps [simp del]

section \<open>The commands\<close>

definition map_page2 :: "pmem2 \<Rightarrow> int \<Rightarrow> int \<Rightarrow> int \<Rightarrow> (pmem2 \<times> int) option" where
  "map_page2 s pid address write = do {
     (s, page) \<leftarrow> find_page2 s pid (address sdiv int PAGE_SIZE);
     b \<leftarrow> pg_read s page;
     if pg_valid b then do {
       let s = say (UpdatingWrite (address sdiv int PAGE_SIZE)) s;
       s \<leftarrow> pg_modify s page (set_write write);
       Some (s, 0) }
     else do {
       (s, r) \<leftarrow> check_backing_store2 s pid (address sdiv int PAGE_SIZE);
       (s, full) \<leftarrow> (if r = 0 then do {
            (s, frame) \<leftarrow> find_free_frame2 s pid;
            if frame < 0 then Some (say NoFrameForPage s, True)
            else do {
              s \<leftarrow> pg_modify s page (set_frame2 frame);
              s \<leftarrow> pg_modify s page (set_valid 1);
              s \<leftarrow> pg_modify s page (set_write write);
              Some (say (MappedPage address (address sdiv int PAGE_SIZE) frame) s, False) } }
          else Some (s, False));
       if full then Some (s, 0)
       else do {
         b \<leftarrow> pg_read s page;
         s \<leftarrow> (if pg_write b \<noteq> write then
                pg_modify (say (UpdatingWrite (address sdiv int PAGE_SIZE)) s) page (set_write write)
              else Some s);
         Some (s, 1) } } }"

text \<open>The guard \<open>!procTable[pid].valid && !check_backing_store(pid, -1)\<close> of \<open>store\<close> and \<open>load\<close>,
  and the guard on the page.\<close>

definition table_missing2 :: "pmem2 \<Rightarrow> int \<Rightarrow> (pmem2 \<times> bool) option" where
  "table_missing2 s pid = do {
     p \<leftarrow> pg_read s (ProcEntry pid);
     if pg_valid p then Some (s, False)
     else do { (s, r) \<leftarrow> check_backing_store2 s pid (-1); Some (s, r = 0) } }"

definition page_missing2 :: "pmem2 \<Rightarrow> page_ptr \<Rightarrow> int \<Rightarrow> int \<Rightarrow> (pmem2 \<times> bool) option" where
  "page_missing2 s page pid n = do {
     b \<leftarrow> pg_read s page;
     if pg_valid b then Some (s, False)
     else do { (s, r) \<leftarrow> check_backing_store2 s pid n; Some (s, r = 0) } }"

definition store2 :: "pmem2 \<Rightarrow> int \<Rightarrow> int \<Rightarrow> byte \<Rightarrow> (pmem2 \<times> int) option" where
  "store2 s pid address value = do {
     (s, missing) \<leftarrow> table_missing2 s pid;
     if missing then Some (say (NoPages pid) s, 0)
     else do {
       (s, page) \<leftarrow> find_page2 s pid (address sdiv int PAGE_SIZE);
       let offset = address smod int PAGE_SIZE;
       (s, missing) \<leftarrow> page_missing2 s page pid (address sdiv int PAGE_SIZE);
       if missing then Some (say (NoFrameMapped address pid) s, 0)
       else do {
         b \<leftarrow> pg_read s page;
         if pg_write b = 0 then Some (say (WriteForbidden address pid) s, 0)
         else do {
           m \<leftarrow> arr_set (mainMemory s) (frame2 b * int PAGE_SIZE + offset) value;
           let s = s\<lparr>mainMemory := m\<rparr>;
           b \<leftarrow> pg_read s page;
           Some (say (StoredValue (uint value) address (frame2 b * int PAGE_SIZE + offset)) s, 1) } } } }"

definition load2 :: "pmem2 \<Rightarrow> int \<Rightarrow> int \<Rightarrow> (pmem2 \<times> int \<times> byte option) option" where
  "load2 s pid address = do {
     (s, missing) \<leftarrow> table_missing2 s pid;
     if missing then Some (say (NoPages pid) s, 0, None)
     else do {
       (s, page) \<leftarrow> find_page2 s pid (address sdiv int PAGE_SIZE);
       let offset = address smod int PAGE_SIZE;
       (s, missing) \<leftarrow> page_missing2 s page pid (address sdiv int PAGE_SIZE);
       if missing then Some (say (NoFrameMapped address pid) s, 0, None)
       else do {
         b \<leftarrow> pg_read s page;
         out \<leftarrow> arr_get (mainMemory s) (frame2 b * int PAGE_SIZE + offset);
         Some (say (ReadValue (uint out) address (frame2 b * int PAGE_SIZE + offset)) s, 1, Some out) } } }"

text \<open>The globals before \<open>main\<close> runs, and after its two initialisation loops.\<close>

definition boot2 :: pmem2 where
  "boot2 = \<lparr>mainMemory = replicate PHYS_MEM_SIZE 0, procTable = replicate MAX_PROCESSES 0,
    console = [], backingStore = replicate STORE_FRAMES
      \<lparr>sf_data = replicate PAGE_SIZE 0, sf_pid = 0, sf_page = 0, sf_write = 0\<rparr>, robin = 0\<rparr>"

definition init2 :: "pmem2 \<Rightarrow> pmem2" where
  "init2 s = s\<lparr>procTable := map (set_valid 0) (procTable s),
               backingStore := map (\<lambda>sl. sl\<lparr>sf_pid := -1\<rparr>) (backingStore s)\<rparr>"

end
