(* ===== verification/Swap.thy ===== *)
theory Swap
  imports PageTable2
begin

text \<open>
  The invariant of the paging system with a backing store, and the effect of the operations that
  move frames: moving one reference out (\<open>free_specific_frame\<close>), emptying a table, choosing
  a victim (\<open>free_frame\<close>), and finding a frame in any case (\<open>find_free_frame\<close>).
\<close>

section \<open>Fields, references and pointers\<close>

lemma set2_fields [simp]:
  "frame2 (set_frame2 v b) = v mod 16" "procc2 (set_procc2 v b) = v mod 4"
  "frame2 (set_procc2 v b) = frame2 b" "procc2 (set_frame2 v b) = procc2 b"
  "frame2 (set_valid v b) = frame2 b" "frame2 (set_write v b) = frame2 b"
  "procc2 (set_valid v b) = procc2 b" "procc2 (set_write v b) = procc2 b"
  "pg_valid (set_frame2 v b) = pg_valid b" "pg_valid (set_procc2 v b) = pg_valid b"
  "pg_write (set_frame2 v b) = pg_write b" "pg_write (set_procc2 v b) = pg_write b"
  by (simp_all add: frame2_def procc2_def set_frame2_def set_procc2_def set_valid_def set_write_def
      pg_valid_def pg_write_def get_set_bits_same get_set_bits_other)

abbreviation live2 :: "pmem2 \<Rightarrow> pref \<Rightarrow> bool" where "live2 \<equiv> live frame2"
abbreviation byte2 :: "pmem2 \<Rightarrow> pref \<Rightarrow> byte" where "byte2 \<equiv> ref_byte frame2"
abbreviation used2 :: "pmem2 \<Rightarrow> int \<Rightarrow> bool" where "used2 \<equiv> used frame2"
abbreviation tab2 :: "pmem2 \<Rightarrow> nat \<Rightarrow> nat" where "tab2 \<equiv> tabf frame2"

fun ptr :: "pmem2 \<Rightarrow> pref \<Rightarrow> page_ptr" where
  "ptr s (Tab i) = ProcEntry (int i)"
| "ptr s (Ent i n) = MemEntry (int (tab2 s i * PAGE_SIZE + n))"

text \<open>The process and the page number under which a reference is stored; entry 0 of a table gets
  the number -2.\<close>

fun key :: "pref \<Rightarrow> int \<times> int" where
  "key (Tab i) = (int i, -1)"
| "key (Ent i n) = (int i, if n = 0 then -2 else int n)"

lemma pg_read_ptr: "wf_refs frame2 s \<Longrightarrow> live2 s r \<Longrightarrow> pg_read s (ptr s r) = Some (byte2 s r)"
proof (cases r)
  case (Ent i n)
  assume a: "wf_refs frame2 s" "live2 s r"
  then have "tab2 s i * PAGE_SIZE + n < length (mainMemory s)"
    using Ent index_frame_less [OF wf_refs_tabf(1) [OF a(1)]] by (auto simp: wf_refs_lengths)
  with Ent show ?thesis by (simp only: ptr.simps pg_read.simps arr_get_int ref_byte.simps)
qed (simp add: wf_refs_lengths)

section \<open>The owner of a frame\<close>

lemma scan_entries2_eq:
  "j + n \<le> length m \<Longrightarrow> scan_entries2 m f (int j) n =
     Some (case first_from (\<lambda>k. pg_valid (m ! k) \<and> frame2 (m ! k) = f) j n of
             Some k \<Rightarrow> MemEntry (int k) | None \<Rightarrow> Null)"
proof (induction n arbitrary: j)
  case 0
  then show ?case by simp
next
  case (Suc n)
  from Suc.IH [of "Suc j"] Suc.prems show ?case by (simp add: add.commute)
qed

lemma scan_table2:
  assumes wf: "wf_refs frame2 s" and tab: "live2 s (Tab i)"
  shows "\<exists>p. scan_entries2 (mainMemory s) f (frame2 (procTable s ! i) * int PAGE_SIZE) PAGE_SIZE = Some p \<and>
    (if p = Null then \<forall>n. live2 s (Ent i n) \<longrightarrow> ref_frame frame2 s (Ent i n) \<noteq> f
     else \<exists>n. live2 s (Ent i n) \<and> ref_frame frame2 s (Ent i n) = f \<and> p = ptr s (Ent i n))"
proof -
  let ?t = "tab2 s i * PAGE_SIZE"
  let ?P = "\<lambda>k. pg_valid (mainMemory s ! k) \<and> frame2 (mainMemory s ! k) = f"
  have base: "frame2 (procTable s ! i) * int PAGE_SIZE = int ?t"
    using wf_refs_tabf(2) [OF wf tab] by simp
  have "?t + PAGE_SIZE \<le> length (mainMemory s)"
    using wf_refs_tabf(1) [OF wf tab] wf_refs_lengths(1) [OF wf] by simp
  note scan = scan_entries2_eq [OF this, of f]
  show ?thesis
  proof (cases "first_from ?P ?t PAGE_SIZE")
    case None
    then have "ref_frame frame2 s (Ent i n) \<noteq> f" if "live2 s (Ent i n)" for n
      using that by (auto simp: first_from_None_iff ref_frame_def)
    with None scan show ?thesis unfolding base by (intro exI [of _ Null]) simp
  next
    case (Some k)
    then have k: "?t \<le> k" "k < ?t + PAGE_SIZE" "?P k" by (auto simp: first_from_Some_iff)
    let ?n = "k - ?t"
    have "?t + ?n = k" "?n < PAGE_SIZE" using k by auto
    then have "live2 s (Ent i ?n)" "ref_frame frame2 s (Ent i ?n) = f" "ptr s (Ent i ?n) = MemEntry (int k)"
      using k tab by (auto simp: ref_frame_def)
    with Some scan show ?thesis unfolding base by (intro exI [of _ "MemEntry (int k)"]) auto
  qed
qed

fun ref_proc :: "pref \<Rightarrow> nat" where
  "ref_proc (Tab i) = i"
| "ref_proc (Ent i n) = i"

lemma scan_procs2_owner:
  assumes wf: "wf_refs frame2 s"
  shows "ps = drop i (procTable s) \<Longrightarrow> \<exists>p. scan_procs2 (mainMemory s) f i ps = Some p \<and>
    (if p = Null then \<forall>r. live2 s r \<and> i \<le> ref_proc r \<longrightarrow> ref_frame frame2 s r \<noteq> f
     else \<exists>r. live2 s r \<and> ref_frame frame2 s r = f \<and> p = ptr s r)"
proof (induction ps arbitrary: i)
  case Nil
  then have "MAX_PROCESSES \<le> i" using wf_refs_lengths(2) [OF wf] by simp
  then have "\<not> (live2 s r \<and> i \<le> ref_proc r)" for r by (cases r) auto
  then show ?case by auto
next
  case (Cons p ps)
  then have i: "i < MAX_PROCESSES" and p: "p = procTable s ! i" and ps: "ps = drop (Suc i) (procTable s)"
    using wf_refs_lengths(2) [OF wf]
    by (metis drop_eq_Nil leI list.distinct(1), metis nth_via_drop, metis drop_Suc list.sel(3) tl_drop)
  have split: "i \<le> ref_proc r \<longleftrightarrow> ref_proc r = i \<or> Suc i \<le> ref_proc r" for r by auto
  show ?case
  proof (cases "live2 s (Tab i)")
    case False
    then have inv: "\<not> pg_valid p" using i p by simp
    then have "\<not> (live2 s r \<and> ref_proc r = i)" for r using p by (cases r) auto
    with Cons.IH [OF ps] inv show ?thesis unfolding split by simp metis
  next
    case tab: True
    then have v: "pg_valid p" using p by simp
    show ?thesis
    proof (cases "frame2 p = f")
      case True
      with v tab p show ?thesis
        by (intro exI [of _ "ProcEntry (int i)"]) (auto simp: ref_frame_def intro!: exI [of _ "Tab i"])
    next
      case False
      from scan_table2 [OF wf tab, of f] obtain q where
        q: "scan_entries2 (mainMemory s) f (frame2 p * int PAGE_SIZE) PAGE_SIZE = Some q"
        "if q = Null then \<forall>n. live2 s (Ent i n) \<longrightarrow> ref_frame frame2 s (Ent i n) \<noteq> f
         else \<exists>n. live2 s (Ent i n) \<and> ref_frame frame2 s (Ent i n) = f \<and> q = ptr s (Ent i n)"
        unfolding p by blast
      show ?thesis
      proof (cases "q = Null")
        case True
        have "ref_frame frame2 s r \<noteq> f" if "live2 s r" "ref_proc r = i" for r
          using that q(2) True False p by (cases r) (auto simp: ref_frame_def)
        with Cons.IH [OF ps] v False q(1) True show ?thesis unfolding split by simp metis
      next
        case nn: False
        with q v False show ?thesis by (intro exI [of _ q]) (auto simp del: live.simps)
      qed
    qed
  qed
qed

lemma frame_allocated2_owner:
  assumes "wf_refs frame2 s"
  shows "\<exists>p. frame_allocated2 s f = Some p \<and>
    (if p = Null then \<not> used2 s f else \<exists>r. live2 s r \<and> ref_frame frame2 s r = f \<and> p = ptr s r)"
  using scan_procs2_owner [OF assms, of "procTable s" 0 f]
  by (auto simp: frame_allocated2_def used_iff split: if_splits)

lemma owner_unique:
  assumes "wf_refs frame2 s" "live2 s r"
  shows "frame_allocated2 s (ref_frame frame2 s r) = Some (ptr s r)"
proof -
  from frame_allocated2_owner [OF assms(1), of "ref_frame frame2 s r"] obtain p where
    p: "frame_allocated2 s (ref_frame frame2 s r) = Some p"
    "if p = Null then \<not> used2 s (ref_frame frame2 s r)
     else \<exists>q. live2 s q \<and> ref_frame frame2 s q = ref_frame frame2 s r \<and> p = ptr s q" by blast
  have "used2 s (ref_frame frame2 s r)" using assms(2) unfolding used_iff by blast
  with p(2) obtain q where "live2 s q" "ref_frame frame2 s q = ref_frame frame2 s r" "p = ptr s q"
    by (auto split: if_splits)
  with wf_refs_inj [OF assms(1)] assms(2) p(1) show ?thesis by metis
qed

section \<open>The page number of an entry\<close>

lemma entry_num2_proc: "entry_num2 (ProcEntry i) b j n = None"
  by (induction n arbitrary: j) auto

lemma entry_num2_mem:
  "entry_num2 (MemEntry x) b j n = (if j \<le> x - b \<and> x - b < j + int n then Some (x - b) else None)"
  by (induction n arbitrary: j) auto

lemma page_num_scan2_proc:
  "k \<le> i \<Longrightarrow> i < k + length ps \<Longrightarrow> page_num_scan2 (ProcEntry (int i)) k ps = -1"
proof (induction ps arbitrary: k)
  case (Cons p ps)
  then show ?case by (cases "i = k") (auto simp: entry_num2_proc)
qed simp

text \<open>The number of entry \<open>n\<close> of the table in frame \<open>t\<close>, when no other table is in that frame.\<close>

lemma page_num_scan2_mem:
  assumes "n < PAGE_SIZE"
    and "\<And>p. p \<in> set ps \<Longrightarrow> pg_valid p \<Longrightarrow> \<exists>f. frame2 p = int f"
  shows "page_num_scan2 (MemEntry (int (t * PAGE_SIZE + n))) k ps =
    (if n \<noteq> 0 \<and> (\<exists>p\<in>set ps. pg_valid p \<and> frame2 p = int t) then int n else -2)"
  using assms(2)
proof (induction ps arbitrary: k)
  case Nil
  then show ?case by simp
next
  case (Cons p ps)
  note ih = Cons.IH [of "Suc k"]
  show ?case
  proof (cases "pg_valid p")
    case True
    then obtain f where f: "frame2 p = int f" using Cons.prems by auto
    have "1 \<le> int (t * PAGE_SIZE + n) - int f * int PAGE_SIZE \<and>
        int (t * PAGE_SIZE + n) - int f * int PAGE_SIZE < 1 + int (PAGE_SIZE - 1) \<longleftrightarrow> f = t \<and> n \<noteq> 0"
      using assms(1) by simp presburger
    moreover have "int (t * PAGE_SIZE + n) - int t * int PAGE_SIZE = int n" by simp
    ultimately show ?thesis
      using ih Cons.prems True f by (auto simp: entry_num2_mem)
  next
    case False
    with ih Cons.prems show ?thesis by simp
  qed
qed

text \<open>Marking the reference itself invalid first does not change its number.\<close>

definition evicted :: "pmem2 \<Rightarrow> pref \<Rightarrow> pmem2" where
  "evicted s r = (case r of
      Tab i \<Rightarrow> s\<lparr>procTable := (procTable s)[i := set_valid 0 (procTable s ! i)]\<rparr>
    | Ent i n \<Rightarrow> s\<lparr>mainMemory := (mainMemory s)[tab2 s i * PAGE_SIZE + n := set_valid 0 (byte2 s (Ent i n))]\<rparr>)"

lemma get_page_num2_key:
  assumes wf: "wf_refs frame2 s" and lv: "live2 s r"
  shows "get_page_num2 (evicted s r) (ptr s r) = snd (key r)"
proof (cases r)
  case (Tab i)
  with lv wf_refs_lengths(2) [OF wf] show ?thesis
    by (simp add: get_page_num2_def page_num_scan2_proc evicted_def)
next
  case (Ent i n)
  have tab: "live2 s (Tab i)" and n: "n < PAGE_SIZE" using lv Ent by auto
  have pf: "\<exists>f. frame2 p = int f" if "p \<in> set (procTable s)" "pg_valid p" for p
    by (rule exI [of _ "nat (frame2 p)"]) (simp add: frame2_def)
  have "procTable s ! i \<in> set (procTable s)" using tab wf_refs_lengths(2) [OF wf] by simp
  moreover have "pg_valid (procTable s ! i)" "frame2 (procTable s ! i) = int (tab2 s i)"
    using tab wf_refs_tabf(2) [OF wf tab] by simp_all
  ultimately have "\<exists>p\<in>set (procTable s). pg_valid p \<and> frame2 p = int (tab2 s i)" by blast
  with page_num_scan2_mem [OF n pf, where k = 0 and t = "tab2 s i"] Ent show ?thesis
    by (simp add: get_page_num2_def evicted_def del: of_nat_add of_nat_mult)
qed

section \<open>Moving one frame out\<close>

lemma read_bytes2_eq:
  "j + n \<le> length m \<Longrightarrow> read_bytes2 m (int j) n = Some (take n (drop j m))"
proof (induction n arbitrary: j)
  case 0
  then show ?case by simp
next
  case (Suc n)
  from Suc.IH [of "Suc j"] Suc.prems show ?case
    by (simp add: add.commute Cons_nth_drop_Suc [symmetric])
qed

lemma read_frame2:
  assumes "length m = PHYS_MEM_SIZE" "f < PAGE_FRAMES"
  shows "read_bytes2 m (int f * int PAGE_SIZE) PAGE_SIZE = Some (frame_bytes m f)"
  using read_bytes2_eq [of "f * PAGE_SIZE" PAGE_SIZE m] assms by (simp add: frame_bytes_def)

text \<open>A table is moved out only when none of its entries is valid.\<close>

definition bare :: "pmem2 \<Rightarrow> pref \<Rightarrow> bool" where
  "bare s r \<longleftrightarrow> (\<forall>i n. r = Tab i \<longrightarrow> \<not> live2 s (Ent i n))"

lemma bare_Ent [simp]: "bare s (Ent i n)"
  by (simp add: bare_def)

text \<open>What \<open>evicted\<close> does to the references: the one is gone, the others are as they were.\<close>

lemma evicted_refs:
  assumes wf: "wf_refs frame2 s" and lv: "live2 s r"
    and bare: "bare s r"
  shows "live2 (evicted s r) q \<longleftrightarrow> live2 s q \<and> q \<noteq> r"
    and "live2 s q \<Longrightarrow> q \<noteq> r \<Longrightarrow> byte2 (evicted s r) q = byte2 s q"
    and "wf_refs frame2 (evicted s r)"
    and "live2 s q \<Longrightarrow> frame_bytes (mainMemory (evicted s r)) (nat (ref_frame frame2 s q)) =
           frame_bytes (mainMemory s) (nat (ref_frame frame2 s q)) \<or> (\<exists>i n. r = Ent i n \<and> q = Tab i)"
proof -
  have empty: "\<not> live2 s (Ent i n)" if "r = Tab i" for i n
    using bare that by (simp add: bare_def del: live.simps)
  show l: "live2 (evicted s r) q \<longleftrightarrow> live2 s q \<and> q \<noteq> r" for q
  proof (cases r)
    case (Tab i)
    with lv wf_refs_lengths(2) [OF wf] empty [OF Tab] show ?thesis
      by (cases q) (auto simp: evicted_def tabf_def nth_list_update)
  next
    case (Ent i n)
    have tab: "live2 s (Tab i)" and n: "n < PAGE_SIZE" using lv Ent by auto
    from write_entry [OF wf tab n, of "evicted s r" "set_valid 0 (byte2 s (Ent i n))"] lv Ent show ?thesis
      by (cases "q = r") (simp_all add: evicted_def del: live.simps ref_byte.simps)
  qed
  show b: "byte2 (evicted s r) q = byte2 s q" if "live2 s q" "q \<noteq> r" for q
  proof (cases r)
    case (Tab i)
    with lv that wf_refs_lengths(2) [OF wf] empty [OF Tab] show ?thesis
      by (cases q) (auto simp: evicted_def tabf_def nth_list_update)
  next
    case (Ent i n)
    have tab: "live2 s (Tab i)" and n: "n < PAGE_SIZE" using lv Ent by auto
    from write_entry(4) [OF wf tab n, of "evicted s r" "set_valid 0 (byte2 s (Ent i n))" q] Ent that show ?thesis
      by (simp add: evicted_def del: live.simps ref_byte.simps)
  qed
  show "wf_refs frame2 (evicted s r)"
  proof (rule wf_refsI)
    show "length (mainMemory (evicted s r)) = PHYS_MEM_SIZE"
      "length (procTable (evicted s r)) = MAX_PROCESSES"
      using wf_refs_lengths [OF wf] by (simp_all add: evicted_def split: pref.splits)
    show "in_range (ref_frame frame2 (evicted s r) q) PAGE_FRAMES" if "live2 (evicted s r) q" for q
      using that wf_refs_frame [OF wf, of q] b [of q] unfolding l by (simp add: ref_frame_def)
    show "q = q'" if "live2 (evicted s r) q" "live2 (evicted s r) q'"
      "ref_frame frame2 (evicted s r) q = ref_frame frame2 (evicted s r) q'" for q q'
      using that wf_refs_inj [OF wf, of q q'] b [of q] b [of q'] unfolding l by (simp add: ref_frame_def)
  qed
  show "frame_bytes (mainMemory (evicted s r)) (nat (ref_frame frame2 s q)) =
      frame_bytes (mainMemory s) (nat (ref_frame frame2 s q)) \<or> (\<exists>i n. r = Ent i n \<and> q = Tab i)"
    if q: "live2 s q" for q
  proof (cases r)
    case (Tab i)
    then show ?thesis by (simp add: evicted_def)
  next
    case (Ent i n)
    have tab: "live2 s (Tab i)" and n: "n < PAGE_SIZE" using lv Ent by auto
    show ?thesis
    proof (cases "q = Tab i")
      case False
      have "ref_frame frame2 s q \<noteq> int (tab2 s i)" "0 \<le> ref_frame frame2 s q"
        using wf_refs_inj [OF wf q tab] False wf_refs_frame [OF wf q] wf_refs_tabf(2) [OF wf tab]
        by (auto simp: ref_frame_def in_range_def)
      then have "nat (ref_frame frame2 s q) \<noteq> tab2 s i" by auto
      with frame_bytes_update_other [OF this n] Ent show ?thesis
        by (simp add: evicted_def del: ref_byte.simps)
    qed (use Ent in auto)
  qed
qed

section \<open>The invariant\<close>

fun slot_key :: "storedFrame \<Rightarrow> int \<times> int" where
  "slot_key sl = (sf_pid sl, sf_page sl)"

text \<open>A stored frame has sixteen bytes; if it is occupied its fields are in range, and a stored
  table has no valid entry and only entries of its process.\<close>

definition slot_ok :: "storedFrame \<Rightarrow> bool" where
  "slot_ok sl \<longleftrightarrow> length (sf_data sl) = PAGE_SIZE \<and>
     (0 \<le> sf_pid sl \<longrightarrow> sf_pid sl < int MAX_PROCESSES \<and> sf_write sl \<in> {0, 1} \<and>
        sf_page sl \<in> {-2..<int PAGE_SIZE} - {0} \<and>
        (sf_page sl = -1 \<longrightarrow> (\<forall>b\<in>set (sf_data sl). \<not> pg_valid b \<and> procc2 b = sf_pid sl)))"

definition holds :: "pmem2 \<Rightarrow> int \<times> int \<Rightarrow> bool" where
  "holds s q \<longleftrightarrow> (\<exists>k<STORE_FRAMES. slot_key (backingStore s ! k) = q)"

definition owned :: "pmem2 \<Rightarrow> bool" where
  "owned s \<longleftrightarrow> (\<forall>i. live2 s (Tab i) \<longrightarrow> procc2 (byte2 s (Tab i)) = int i \<and>
     (\<forall>n<PAGE_SIZE. procc2 (byte2 s (Ent i n)) = int i))"

text \<open>What is in memory is not in the store, and nothing is in the store twice, page 0 (number -2)
  apart.\<close>

definition keyed :: "pmem2 \<Rightarrow> bool" where
  "keyed s \<longleftrightarrow>
     (\<forall>k<STORE_FRAMES. \<forall>l<STORE_FRAMES. slot_key (backingStore s ! k) = slot_key (backingStore s ! l) \<longrightarrow>
        0 \<le> sf_pid (backingStore s ! k) \<longrightarrow> sf_page (backingStore s ! k) \<noteq> -2 \<longrightarrow> k = l) \<and>
     (\<forall>r. live2 s r \<longrightarrow> snd (key r) \<noteq> -2 \<longrightarrow> \<not> holds s (key r))"

definition wf2 :: "pmem2 \<Rightarrow> bool" where
  "wf2 s \<longleftrightarrow> wf_refs frame2 s \<and> length (backingStore s) = STORE_FRAMES \<and>
     (\<forall>k<STORE_FRAMES. slot_ok (backingStore s ! k)) \<and> in_range (robin s) PAGE_FRAMES \<and>
     owned s \<and> keyed s"

text \<open>No page 0 in use, and every stored page has a table in memory or in the store.\<close>

definition no_zero :: "pmem2 \<Rightarrow> bool" where
  "no_zero s \<longleftrightarrow> (\<forall>i. \<not> live2 s (Ent i 0)) \<and> (\<forall>i. \<not> holds s (int i, -2)) \<and>
     (\<forall>i n. holds s (int i, int n) \<longrightarrow> live2 s (Tab i) \<or> holds s (int i, -1))"

text \<open>The pages a process can use: those in memory and those in the store.\<close>

definition view2 :: "pmem2 \<Rightarrow> vspace" where
  "view2 s = (\<lambda>(i, n). if live2 s (Ent i n) then vview frame2 s (i, n)
     else map_option (\<lambda>k. (sf_write (backingStore s ! k) \<noteq> 0, sf_data (backingStore s ! k)))
            (find_slot2 s (int i) (int n)))"

lemma wf2D:
  assumes "wf2 s"
  shows "wf_refs frame2 s" "length (backingStore s) = STORE_FRAMES"
    "k < STORE_FRAMES \<Longrightarrow> slot_ok (backingStore s ! k)" "in_range (robin s) PAGE_FRAMES" "owned s" "keyed s"
  using assms by (auto simp: wf2_def)

lemma refs_ext [simp]:
  "live fr (s\<lparr>backingStore := b\<rparr>) r = live fr s r" "ref_byte fr (s\<lparr>backingStore := b\<rparr>) r = ref_byte fr s r"
  "live fr (s\<lparr>robin := v\<rparr>) r = live fr s r" "ref_byte fr (s\<lparr>robin := v\<rparr>) r = ref_byte fr s r"
  for s :: pmem2
  by (cases r; simp add: tabf_def)+

lemma tabf_ext [simp]:
  "tabf fr (s\<lparr>backingStore := b\<rparr>) i = tabf fr s i" "tabf fr (s\<lparr>robin := v\<rparr>) i = tabf fr s i"
  for s :: pmem2
  by (simp_all add: tabf_def)

lemma ref_frame_ext [simp]:
  "ref_frame fr (s\<lparr>backingStore := b\<rparr>) r = ref_frame fr s r" "ref_frame fr (s\<lparr>robin := v\<rparr>) r = ref_frame fr s r"
  for s :: pmem2
  by (simp_all add: ref_frame_def)

lemma wf_refs_ext [simp]:
  "wf_refs fr (s\<lparr>backingStore := b\<rparr>) = wf_refs fr s" "wf_refs fr (s\<lparr>robin := v\<rparr>) = wf_refs fr s"
  for s :: pmem2
  by (simp_all add: wf_refs_def)

lemma used_ext [simp]:
  "used fr (s\<lparr>backingStore := b\<rparr>) f = used fr s f" "used fr (s\<lparr>robin := v\<rparr>) f = used fr s f"
  for s :: pmem2
  by (simp_all add: used_def)

lemma say_store [simp]: "backingStore (say m s) = backingStore s" "robin (say m s) = robin s"
  by (simp_all add: say_def)

lemma view2_live: "live2 s (Ent i n) \<Longrightarrow> view2 s (i, n) =
    Some (pg_write (byte2 s (Ent i n)) \<noteq> 0, frame_bytes (mainMemory s) (nat (ref_frame frame2 s (Ent i n))))"
  using vview_eq_Some [of frame2 s i n] by (simp add: view2_def)

lemma find_slot2_None: "find_slot2 s (int i) n = None \<longleftrightarrow> \<not> holds s (int i, n)"
  by (auto simp: find_slot2_def first_index_None_iff holds_def)

lemma find_slot2_SomeD:
  "find_slot2 s (int i) n = Some k \<Longrightarrow> k < STORE_FRAMES \<and> slot_key (backingStore s ! k) = (int i, n)"
  by (auto simp: find_slot2_def first_index_Some_iff)

lemma keyed_unique:
  "keyed s \<Longrightarrow> k < STORE_FRAMES \<Longrightarrow> l < STORE_FRAMES \<Longrightarrow> slot_key (backingStore s ! k) = (int i, n) \<Longrightarrow>
   slot_key (backingStore s ! l) = (int i, n) \<Longrightarrow> n \<noteq> -2 \<Longrightarrow> k = l"
  unfolding keyed_def by (metis of_nat_0_le_iff prod.inject slot_key.simps)

lemma keyed_not_holds: "keyed s \<Longrightarrow> live2 s r \<Longrightarrow> snd (key r) \<noteq> -2 \<Longrightarrow> \<not> holds s (key r)"
  by (auto simp: keyed_def)

lemma find_slot2_eq:
  assumes "keyed s" "k < STORE_FRAMES" "slot_key (backingStore s ! k) = (int i, n)" "n \<noteq> -2"
  shows "find_slot2 s (int i) n = Some k"
proof (cases "find_slot2 s (int i) n")
  case None
  with assms show ?thesis by (auto simp: find_slot2_None holds_def)
next
  case (Some l)
  from find_slot2_SomeD [OF this] keyed_unique [OF assms(1), of l k i n] assms Some show ?thesis by simp
qed

lemma view2_stored:
  assumes "keyed s" "k < STORE_FRAMES" "slot_key (backingStore s ! k) = (int i, int n)"
    "\<not> live2 s (Ent i n)"
  shows "view2 s (i, n) = Some (sf_write (backingStore s ! k) \<noteq> 0, sf_data (backingStore s ! k))"
  using find_slot2_eq [OF assms(1-3)] assms(4) by (simp add: view2_def del: live.simps)

lemma view2_None:
  "\<not> live2 s (Ent i n) \<Longrightarrow> \<not> holds s (int i, int n) \<Longrightarrow> view2 s (i, n) = None"
  by (simp add: view2_def find_slot2_None del: live.simps)

section \<open>Room in the store\<close>

text \<open>There are 64 different keys, so with no page 0 in use the store has room for whatever is in
  memory.\<close>

definition all_keys :: "(int \<times> int) list" where
  "all_keys = List.product [0..3] (-1 # [1..15])"

lemma length_all_keys: "length all_keys = STORE_FRAMES"
  by (simp add: all_keys_def)

lemma mem_all_keys:
  "(p, n) \<in> set all_keys \<longleftrightarrow> 0 \<le> p \<and> p < int MAX_PROCESSES \<and> n \<in> {-2..<int PAGE_SIZE} - {0, -2}"
  by (auto simp: all_keys_def)

lemma key_in_all_keys:
  "live fr s r \<Longrightarrow> snd (key r) \<noteq> -2 \<Longrightarrow> key r \<in> set all_keys"
  by (cases r) (auto simp: mem_all_keys split: if_splits)

lemma slot_key_in_all_keys:
  assumes "slot_ok sl" "0 \<le> sf_pid sl" "sf_page sl \<noteq> -2"
  shows "slot_key sl \<in> set all_keys"
  using assms by (auto simp: slot_ok_def mem_all_keys)

lemma no_zero_key: "no_zero s \<Longrightarrow> live2 s r \<Longrightarrow> snd (key r) \<noteq> -2"
  by (cases r) (auto simp: no_zero_def simp del: live.simps intro!: gr0I)

lemma store_has_room:
  assumes wf: "wf2 s" and nz: "no_zero s" and lv: "live2 s r"
  shows "\<exists>k. free_slot2 s = Some k"
proof (rule ccontr)
  assume "\<nexists>k. free_slot2 s = Some k"
  then have occ: "0 \<le> sf_pid (backingStore s ! k)" if "k < STORE_FRAMES" for k
    using that by (force simp: free_slot2_def first_index_None_iff)
  let ?K = "\<lambda>k. slot_key (backingStore s ! k)"
  have page: "sf_page (backingStore s ! k) \<noteq> -2" if "k < STORE_FRAMES" for k
  proof
    assume "sf_page (backingStore s ! k) = -2"
    with occ [OF that] that have "holds s (int (nat (sf_pid (backingStore s ! k))), -2)"
      by (auto simp: holds_def)
    with nz show False unfolding no_zero_def by blast
  qed
  have "inj_on ?K {..<STORE_FRAMES}"
    using wf2D(6) [OF wf] occ page by (auto simp: keyed_def inj_on_def)
  then have card: "card (?K ` {..<STORE_FRAMES}) = STORE_FRAMES" by (simp add: card_image)
  have sub: "?K ` {..<STORE_FRAMES} \<subseteq> set all_keys"
    using slot_key_in_all_keys wf2D(3) [OF wf] occ page by blast
  have "card (set all_keys) \<le> STORE_FRAMES"
    using card_length [of all_keys] length_all_keys by simp
  then have "?K ` {..<STORE_FRAMES} = set all_keys"
    using card_seteq [OF _ sub] card by simp
  moreover have "key r \<in> set all_keys"
    by (rule key_in_all_keys [OF lv no_zero_key [OF nz lv]])
  ultimately obtain k where "k < STORE_FRAMES" "slot_key (backingStore s ! k) = key r"
    by (metis (no_types, lifting) imageE lessThan_iff)
  then have "holds s (key r)" unfolding holds_def by blast
  with keyed_not_holds [OF wf2D(6) [OF wf] lv no_zero_key [OF nz lv]] show False by blast
qed

section \<open>The frames a process may lose\<close>

text \<open>
  What a step that only moves frames out may do: references disappear but none appears or changes,
  occupied slots stay, new slots hold references that disappeared, and, with no page 0 in use,
  every process keeps its view.
\<close>

definition evolve :: "pmem2 \<Rightarrow> pmem2 \<Rightarrow> bool" where
  "evolve s s' \<longleftrightarrow> wf2 s' \<and>
     (\<forall>r. live2 s' r \<longrightarrow> live2 s r \<and> byte2 s' r = byte2 s r) \<and>
     (\<forall>k<STORE_FRAMES. 0 \<le> sf_pid (backingStore s ! k) \<longrightarrow> backingStore s' ! k = backingStore s ! k) \<and>
     (\<forall>k<STORE_FRAMES. sf_pid (backingStore s ! k) < 0 \<longrightarrow> 0 \<le> sf_pid (backingStore s' ! k) \<longrightarrow>
        (\<exists>r. live2 s r \<and> \<not> live2 s' r \<and> slot_key (backingStore s' ! k) = key r)) \<and>
     (no_zero s \<longrightarrow> no_zero s' \<and> view2 s' = view2 s)"

lemma evolve_refl: "wf2 s \<Longrightarrow> evolve s s"
  by (auto simp: evolve_def)

lemma evolveD:
  assumes "evolve s s'"
  shows "wf2 s'" "live2 s' r \<Longrightarrow> live2 s r" "live2 s' r \<Longrightarrow> byte2 s' r = byte2 s r"
    "k < STORE_FRAMES \<Longrightarrow> 0 \<le> sf_pid (backingStore s ! k) \<Longrightarrow> backingStore s' ! k = backingStore s ! k"
    "k < STORE_FRAMES \<Longrightarrow> sf_pid (backingStore s ! k) < 0 \<Longrightarrow> 0 \<le> sf_pid (backingStore s' ! k) \<Longrightarrow>
        \<exists>r. live2 s r \<and> \<not> live2 s' r \<and> slot_key (backingStore s' ! k) = key r"
    "no_zero s \<Longrightarrow> no_zero s'" "no_zero s \<Longrightarrow> view2 s' = view2 s"
  using assms by (auto simp: evolve_def)

lemma evolve_trans:
  assumes a: "evolve s t" and b: "evolve t u"
  shows "evolve s u"
proof -
  have "\<exists>r. live2 s r \<and> \<not> live2 u r \<and> slot_key (backingStore u ! k) = key r"
    if k: "k < STORE_FRAMES" "sf_pid (backingStore s ! k) < 0" "0 \<le> sf_pid (backingStore u ! k)" for k
  proof (cases "0 \<le> sf_pid (backingStore t ! k)")
    case True
    with evolveD(5) [OF a k(1,2)] evolveD(4) [OF b k(1)] evolveD(2) [OF b] show ?thesis by metis
  next
    case False
    with evolveD(5) [OF b k(1) _ k(3)] evolveD(2) [OF a] show ?thesis by force
  qed
  moreover have "backingStore u ! k = backingStore s ! k"
    if "k < STORE_FRAMES" "0 \<le> sf_pid (backingStore s ! k)" for k
    using evolveD(4) [OF a that] evolveD(4) [OF b that(1)] that(2) by simp
  moreover have "live2 u r \<Longrightarrow> live2 s r \<and> byte2 u r = byte2 s r" for r
    using evolveD(2,3) [OF a, of r] evolveD(2,3) [OF b, of r] by simp
  moreover have "no_zero s \<Longrightarrow> no_zero u \<and> view2 u = view2 s"
    using evolveD(6,7) [OF a] evolveD(6,7) [OF b] by simp
  ultimately show ?thesis
    using evolveD(1) [OF b] unfolding evolve_def by blast
qed

text \<open>A key whose reference was not live is stored after the step only if it was before.\<close>

lemma evolve_holds:
  assumes e: "evolve s s'" and h: "holds s' (int i, n)" and nz: "n \<noteq> -2"
    and dead: "\<And>r. key r = (int i, n) \<Longrightarrow> \<not> live2 s r"
  shows "holds s (int i, n)"
proof -
  from h obtain k where k: "k < STORE_FRAMES" "slot_key (backingStore s' ! k) = (int i, n)"
    by (auto simp: holds_def)
  have "0 \<le> sf_pid (backingStore s ! k)"
  proof (rule ccontr)
    assume "\<not> 0 \<le> sf_pid (backingStore s ! k)"
    with evolveD(5) [OF e k(1)] k(2) obtain r where "live2 s r" "key r = (int i, n)" by auto
    with dead show False by blast
  qed
  with evolveD(4) [OF e k(1)] k show ?thesis by (auto simp: holds_def)
qed

lemma holds_evolve: "evolve s s' \<Longrightarrow> holds s (int i, n) \<Longrightarrow> holds s' (int i, n)"
  unfolding holds_def by (metis evolveD(4) of_nat_0_le_iff prod.inject slot_key.simps)

lemma evolve_used: "evolve s s' \<Longrightarrow> used2 s' f \<Longrightarrow> used2 s f"
  unfolding used_iff by (metis evolveD(2,3) ref_frame_def)

section \<open>free_specific_frame\<close>

definition slot_of :: "pmem2 \<Rightarrow> pref \<Rightarrow> storedFrame" where
  "slot_of s r = \<lparr>sf_data = frame_bytes (mainMemory s) (nat (ref_frame frame2 s r)),
     sf_pid = fst (key r), sf_page = snd (key r), sf_write = pg_write (byte2 s r)\<rparr>"

definition evict :: "pmem2 \<Rightarrow> pref \<Rightarrow> pmem2" where
  "evict s r = (case free_slot2 s of
      Some k \<Rightarrow> say (MovedFrame (ref_frame frame2 s r) (int k))
                 ((evicted s r)\<lparr>backingStore := (backingStore s)[k := slot_of s r]\<rparr>)
    | None \<Rightarrow> say (MovedFrame (ref_frame frame2 s r) (int STORE_FRAMES)) (evicted s r))"

lemma evicted_store [simp]: "backingStore (evicted s r) = backingStore s" "robin (evicted s r) = robin s"
  by (simp_all add: evicted_def split: pref.splits)

lemma evict_robin [simp]: "robin (evict s r) = robin s"
  by (simp add: evict_def split: option.splits)

lemma pg_modify_ptr:
  assumes wf: "wf_refs frame2 s" and lv: "live2 s r"
  shows "pg_modify s (ptr s r) (set_valid 0) = Some (evicted s r)"
    and "pg_read (evicted s r) (ptr s r) = Some (set_valid 0 (byte2 s r))"
proof -
  have "pg_modify s (ptr s r) (set_valid 0) = Some (evicted s r) \<and>
        pg_read (evicted s r) (ptr s r) = Some (set_valid 0 (byte2 s r))"
  proof (cases r)
    case (Tab i)
    with lv wf_refs_lengths(2) [OF wf] show ?thesis by (simp add: evicted_def)
  next
    case (Ent i n)
    with lv have i: "tab2 s i * PAGE_SIZE + n < length (mainMemory s)"
      using index_frame_less [OF wf_refs_tabf(1) [OF wf live_Ent_Tab]] wf_refs_lengths(1) [OF wf] by force
    with Ent show ?thesis
      by (simp add: evicted_def del: of_nat_add of_nat_mult)
  qed
  then show "pg_modify s (ptr s r) (set_valid 0) = Some (evicted s r)"
    and "pg_read (evicted s r) (ptr s r) = Some (set_valid 0 (byte2 s r))" by blast+
qed

lemma owned_key: "owned s \<Longrightarrow> live2 s r \<Longrightarrow> procc2 (byte2 s r) = fst (key r)"
  by (cases r) (auto simp: owned_def)

lemma free_specific_frame2_eq:
  assumes wf: "wf2 s" and lv: "live2 s r"
    and bare: "bare s r"
  shows "free_specific_frame2 s (ptr s r) = Some (evict s r)"
proof -
  note w = wf2D(1) [OF wf]
  have f: "nat (ref_frame frame2 s r) < PAGE_FRAMES"
    "frame2 (byte2 s r) = int (nat (ref_frame frame2 s r))"
    using wf_refs_frame [OF w lv] by (auto simp: in_range_def ref_frame_def)
  have "length (mainMemory (evicted s r)) = PHYS_MEM_SIZE"
    using wf_refs_lengths(1) [OF evicted_refs(3) [OF w lv bare]] .
  from read_frame2 [OF this f(1)] evicted_refs(4) [OF w lv bare lv]
  have "read_bytes2 (mainMemory (evicted s r)) (frame2 (byte2 s r) * int PAGE_SIZE) PAGE_SIZE =
      Some (frame_bytes (mainMemory s) (nat (ref_frame frame2 s r)))"
    unfolding f(2) by auto
  then show ?thesis
    using pg_modify_ptr [OF w lv] get_page_num2_key [OF w lv] owned_key [OF wf2D(5) [OF wf] lv]
    by (simp add: free_specific_frame2_def evict_def slot_of_def ref_frame_def free_slot2_def
        Let_def split: option.splits)
qed

lemma evict_refs:
  assumes "wf2 s" "live2 s r" "bare s r"
  shows "live2 (evict s r) q \<longleftrightarrow> live2 s q \<and> q \<noteq> r"
    and "live2 s q \<Longrightarrow> q \<noteq> r \<Longrightarrow> byte2 (evict s r) q = byte2 s q"
    and "wf_refs frame2 (evict s r)"
  using evicted_refs [OF wf2D(1) [OF assms(1)] assms(2,3)]
  by (simp_all add: evict_def split: option.splits)

lemma evict_store:
  assumes "wf2 s"
  shows "length (backingStore (evict s r)) = STORE_FRAMES"
    and "k < STORE_FRAMES \<Longrightarrow> 0 \<le> sf_pid (backingStore s ! k) \<Longrightarrow>
         backingStore (evict s r) ! k = backingStore s ! k"
    and "k < STORE_FRAMES \<Longrightarrow> backingStore (evict s r) ! k = backingStore s ! k \<or>
         backingStore (evict s r) ! k = slot_of s r \<and> free_slot2 s = Some k"
  using wf2D(2) [OF assms]
  by (auto simp: evict_def free_slot2_def first_index_Some_iff nth_list_update split: option.splits)

lemma evict_entry_owner:
  assumes wf: "wf2 s" and lv: "live2 s r" and tab: "live2 s (Tab i)" "r \<noteq> Tab i" and n: "n < PAGE_SIZE"
  shows "procc2 (byte2 (evict s r) (Ent i n)) = procc2 (byte2 s (Ent i n))"
proof -
  have "procc2 (byte2 (evicted s r) (Ent i n)) = procc2 (byte2 s (Ent i n))"
  proof (cases r)
    case (Tab j)
    with tab show ?thesis by (simp add: evicted_def tabf_def)
  next
    case (Ent j m)
    have j: "live2 s (Tab j)" "m < PAGE_SIZE" using lv Ent by auto
    have idx: "tab2 s j * PAGE_SIZE + m < length (mainMemory s)"
      using index_frame_less [OF wf_refs_tabf(1) [OF wf2D(1) [OF wf] j(1)] j(2)]
        wf_refs_lengths(1) [OF wf2D(1) [OF wf]] by simp
    show ?thesis
    proof (cases "tab2 s j * PAGE_SIZE + m = tab2 s i * PAGE_SIZE + n")
      case True
      with idx Ent show ?thesis by (simp add: evicted_def tabf_def)
    next
      case False
      with Ent show ?thesis by (simp add: evicted_def tabf_def)
    qed
  qed
  then show ?thesis by (simp add: evict_def del: ref_byte.simps split: option.splits)
qed

lemma evict_owned:
  assumes "wf2 s" "live2 s r" "bare s r"
  shows "owned (evict s r)"
proof -
  note e = evict_refs [OF assms] and o = wf2D(5) [OF assms(1)]
  show ?thesis
    unfolding owned_def e(1)
    using o e(2) evict_entry_owner [OF assms(1,2)] by (auto simp: owned_def simp del: live.simps ref_byte.simps)
qed

lemma pg_write_01: "pg_write b \<in> {0, 1}"
proof -
  have "0 \<le> pg_write b" "pg_write b < 2"
    unfolding pg_write_def using get_bits_nonneg [of 1 1 b] get_bits_less [of 1 1 b] by simp_all
  then show ?thesis by auto
qed

lemma frame_bytes_Tab:
  "wf_refs frame2 s \<Longrightarrow> live2 s (Tab i) \<Longrightarrow> b \<in> set (frame_bytes (mainMemory s) (tab2 s i)) \<Longrightarrow>
   \<exists>n<PAGE_SIZE. b = byte2 s (Ent i n)"
  using wf_refs_tabf(1) [of frame2 s i] wf_refs_lengths(1) [of frame2 s]
  by (auto simp: frame_bytes_def in_set_conv_nth)

lemma slot_of_ok:
  assumes wf: "wf2 s" and lv: "live2 s r" and bare: "bare s r"
  shows "slot_ok (slot_of s r)"
proof -
  note w = wf2D(1) [OF wf]
  have len: "length (frame_bytes (mainMemory s) (nat (ref_frame frame2 s r))) = PAGE_SIZE"
    using wf_refs_frame [OF w lv] wf_refs_lengths(1) [OF w] by (auto simp: in_range_def)
  show ?thesis
  proof (cases r)
    case (Tab i)
    have "\<not> pg_valid b \<and> procc2 b = int i"
      if "b \<in> set (frame_bytes (mainMemory s) (nat (ref_frame frame2 s r)))" for b
    proof -
      have "nat (ref_frame frame2 s r) = tab2 s i" using Tab by (simp add: ref_frame_def tabf_def)
      with frame_bytes_Tab [OF w] that lv Tab obtain n where "n < PAGE_SIZE" "b = byte2 s (Ent i n)" by metis
      with bare lv Tab wf2D(5) [OF wf] show ?thesis by (auto simp: owned_def bare_def)
    qed
    with Tab len lv pg_write_01 show ?thesis by (simp add: slot_ok_def slot_of_def)
  next
    case (Ent i n)
    with len lv pg_write_01 show ?thesis by (simp add: slot_ok_def slot_of_def)
  qed
qed

lemma slot_key_slot_of [simp]: "slot_key (slot_of s r) = key r"
  by (simp add: slot_of_def)

lemma key_inj: "key r = key q \<Longrightarrow> snd (key r) \<noteq> -2 \<Longrightarrow> r = q"
  by (cases r; cases q) (auto split: if_splits)

lemma key_nonneg: "0 \<le> fst (key r)"
  by (cases r) auto

lemma evict_holds:
  assumes "wf2 s"
  shows "holds (evict s r) q \<Longrightarrow> holds s q \<or> q = key r \<and> (\<exists>k. free_slot2 s = Some k)"
  using evict_store(3) [OF assms, of _ r] unfolding holds_def by (metis slot_key_slot_of)

lemma evict_keyed:
  assumes wf: "wf2 s" and lv: "live2 s r" and bare: "bare s r"
  shows "keyed (evict s r)"
proof -
  let ?b = "backingStore (evict s r)"
  note K = wf2D(6) [OF wf]
  have fresh: "slot_key (backingStore s ! l) \<noteq> key r" if "l < STORE_FRAMES" "snd (key r) \<noteq> -2" for l
    using keyed_not_holds [OF K lv that(2)] that(1) by (auto simp: holds_def)
  have "k = l" if k: "k < STORE_FRAMES" and l: "l < STORE_FRAMES" and eq: "slot_key (?b ! k) = slot_key (?b ! l)"
    and pid: "0 \<le> sf_pid (?b ! k)" and page: "sf_page (?b ! k) \<noteq> -2" for k l
    using evict_store(3) [OF wf k, of r] evict_store(3) [OF wf l, of r]
  proof (elim disjE conjE)
    assume "?b ! k = backingStore s ! k" "?b ! l = backingStore s ! l"
    with K k l eq pid page show "k = l" by (auto simp: keyed_def)
  next
    assume "?b ! k = slot_of s r" "?b ! l = backingStore s ! l"
    with fresh [OF l] eq page show "k = l" by (auto simp: slot_of_def)
  next
    assume "?b ! k = backingStore s ! k" "?b ! l = slot_of s r"
    with fresh [OF k] eq page show "k = l" by (auto simp: slot_of_def prod_eq_iff)
  qed simp
  moreover have "\<not> holds (evict s r) (key q)" if "live2 (evict s r) q" "snd (key q) \<noteq> -2" for q
    using evict_holds [OF wf, of r "key q"] that keyed_not_holds [OF K, of q] key_inj [of q r]
    unfolding evict_refs(1) [OF assms] by blast
  ultimately show ?thesis unfolding keyed_def by blast
qed

lemma evict_wf2:
  assumes "wf2 s" "live2 s r" "bare s r"
  shows "wf2 (evict s r)"
proof -
  have "slot_ok (backingStore (evict s r) ! k)" if "k < STORE_FRAMES" for k
    using evict_store(3) [OF assms(1) that, of r] wf2D(3) [OF assms(1) that] slot_of_ok [OF assms] by auto
  then show ?thesis
    using evict_refs(3) [OF assms] evict_store(1) [OF assms(1)] evict_owned [OF assms] evict_keyed [OF assms]
      wf2D(4) [OF assms(1)] by (simp add: wf2_def)
qed

lemma holds_evict: "wf2 s \<Longrightarrow> holds s (int i, n) \<Longrightarrow> holds (evict s r) (int i, n)"
  unfolding holds_def by (metis evict_store(2) of_nat_0_le_iff prod.inject slot_key.simps)

lemma evict_new_slot:
  assumes "wf2 s" "free_slot2 s = Some k"
  shows "k < STORE_FRAMES" "backingStore (evict s r) ! k = slot_of s r"
proof -
  show k: "k < STORE_FRAMES" using assms(2) by (simp add: free_slot2_def first_index_Some_iff)
  show "backingStore (evict s r) ! k = slot_of s r"
    using k wf2D(2) [OF assms(1)] by (simp add: evict_def assms(2))
qed

lemma evict_holds_new:
  assumes "wf2 s" "free_slot2 s = Some k"
  shows "holds (evict s r) (key r)"
proof -
  have "slot_key (backingStore (evict s r) ! k) = key r"
    using evict_new_slot(2) [OF assms, of r] slot_key_slot_of [of s r] by simp
  with evict_new_slot(1) [OF assms] show ?thesis unfolding holds_def by blast
qed

lemma evict_no_zero:
  assumes a: "wf2 s" "live2 s r" "bare s r" and nz: "no_zero s"
  shows "no_zero (evict s r)"
proof -
  obtain k where k: "free_slot2 s = Some k" using store_has_room [OF a(1) nz a(2)] by blast
  note l = evict_refs(1) [OF a] and h = evict_holds [OF a(1), of r] and kz = no_zero_key [OF nz a(2)]
  have "live2 (evict s r) (Tab i) \<or> holds (evict s r) (int i, -1)" if "holds (evict s r) (int i, int n)" for i n
  proof -
    have "live2 s (Tab i) \<or> holds s (int i, -1)"
    proof (cases "holds s (int i, int n)")
      case True
      with nz show ?thesis unfolding no_zero_def by blast
    next
      case False
      with h [OF that] have "r = Ent i n" by (cases r) (auto split: if_splits)
      with a(2) show ?thesis by simp
    qed
    then show ?thesis
    proof
      assume tab: "live2 s (Tab i)"
      show ?thesis
      proof (cases "r = Tab i")
        case True
        with evict_holds_new [OF a(1) k, of r] show ?thesis by simp
      next
        case False
        with tab l [of "Tab i"] show ?thesis by metis
      qed
    qed (use holds_evict [OF a(1)] in blast)
  qed
  moreover have "\<not> holds (evict s r) (int i, -2)" for i
  proof
    assume "holds (evict s r) (int i, -2)"
    from h [OF this] kz have "holds s (int i, -2)" by (metis snd_conv)
    with nz show False unfolding no_zero_def by blast
  qed
  ultimately show ?thesis
    using nz l unfolding no_zero_def by blast
qed

lemma evict_data:
  assumes a: "wf2 s" "live2 s r" "bare s r" and q: "live2 s (Ent i n)" "Ent i n \<noteq> r"
  shows "view2 (evict s r) (i, n) = view2 s (i, n)"
proof -
  have "frame_bytes (mainMemory (evict s r)) (nat (ref_frame frame2 s (Ent i n))) =
      frame_bytes (mainMemory s) (nat (ref_frame frame2 s (Ent i n)))"
    using evicted_refs(4) [OF wf2D(1) [OF a(1)] a(2,3) q(1)] by (simp add: evict_def split: option.splits)
  with evict_refs(1,2) [OF a, of "Ent i n"] q show ?thesis
    by (simp add: view2_live ref_frame_def del: live.simps ref_byte.simps)
qed

lemma evict_view:
  assumes a: "wf2 s" "live2 s r" "bare s r" and nz: "no_zero s"
  shows "view2 (evict s r) = view2 s"
proof
  fix p :: "nat \<times> nat"
  obtain i n where p: "p = (i, n)" by (cases p)
  obtain k where k: "free_slot2 s = Some k" using store_has_room [OF a(1) nz a(2)] by blast
  note l = evict_refs(1) [OF a, of "Ent i n"] and K = evict_keyed [OF a]
  show "view2 (evict s r) p = view2 s p"
  proof (cases "live2 s (Ent i n)")
    case True
    show ?thesis
    proof (cases "r = Ent i n")
      case r: True
      with no_zero_key [OF nz a(2)] have "key r = (int i, int n)" by (auto split: if_splits)
      then have "slot_key (backingStore (evict s r) ! k) = (int i, int n)"
        using evict_new_slot(2) [OF a(1) k, of r] slot_key_slot_of [of s r] by simp
      from view2_stored [OF K evict_new_slot(1) [OF a(1) k] this] l r
      have "view2 (evict s r) (i, n) = Some (sf_write (slot_of s r) \<noteq> 0, sf_data (slot_of s r))"
        using evict_new_slot(2) [OF a(1) k, of r] by simp
      with view2_live [OF True] p r show ?thesis by (simp add: slot_of_def del: ref_byte.simps)
    qed (use evict_data [OF a True] p in auto)
  next
    case False
    then have dead: "\<not> live2 (evict s r) (Ent i n)" using l by blast
    show ?thesis
    proof (cases "holds s (int i, int n)")
      case True
      then obtain m where m: "m < STORE_FRAMES" "slot_key (backingStore s ! m) = (int i, int n)"
        by (auto simp: holds_def)
      then have "backingStore (evict s r) ! m = backingStore s ! m" using evict_store(2) [OF a(1)] by simp
      with view2_stored [OF K m(1) _ dead] view2_stored [OF wf2D(6) [OF a(1)] m False] m(2) p show ?thesis by simp
    next
      case held: False
      have "key r \<noteq> (int i, int n)" using False a(2) by (cases r) auto
      with evict_holds [OF a(1)] held have "\<not> holds (evict s r) (int i, int n)" by metis
      with view2_None [OF dead] view2_None [OF False held] p show ?thesis by simp
    qed
  qed
qed

lemma evict_evolve:
  assumes a: "wf2 s" "live2 s r" "bare s r"
  shows "evolve s (evict s r)"
proof -
  have "\<exists>q. live2 s q \<and> \<not> live2 (evict s r) q \<and> slot_key (backingStore (evict s r) ! k) = key q"
    if "k < STORE_FRAMES" "sf_pid (backingStore s ! k) < 0" "0 \<le> sf_pid (backingStore (evict s r) ! k)" for k
  proof -
    have "backingStore (evict s r) ! k = slot_of s r"
      using evict_store(3) [OF a(1) that(1), of r] that(2,3) by auto
    then show ?thesis using a(2) evict_refs(1) [OF a, of r] slot_key_slot_of by metis
  qed
  then show ?thesis
    using evict_wf2 [OF a] evict_refs(1,2) [OF a] evict_store(2) [OF a(1)] evict_no_zero [OF a] evict_view [OF a]
    unfolding evolve_def by blast
qed

text \<open>Moving a page out, or a table with no valid entry, is always defined, and it is a step that
  removes this one reference.\<close>

lemma free_specific_frame2_evolves:
  assumes a: "wf2 s" "live2 s r" "bare s r"
  shows "\<exists>s'. free_specific_frame2 s (ptr s r) = Some s' \<and> evolve s s' \<and> robin s' = robin s \<and>
    (\<forall>q. live2 s' q \<longleftrightarrow> live2 s q \<and> q \<noteq> r)"
  using free_specific_frame2_eq [OF a] evict_evolve [OF a] evict_refs(1) [OF a] by auto

end
