(* ===== verification/Victim.thy ===== *)
theory Victim
  imports Swap
begin

text \<open>
  Project4/Part2/pageTable.c, choosing a frame: \<open>free_frame\<close> takes the next victim round robin,
  empties the table of another process first, and never takes the table of the process that asks;
  \<open>find_free_frame\<close> always finds a frame.
\<close>

declare live.simps [simp del] ref_byte.simps [simp del]

section \<open>Steps that leave the references alone\<close>

lemma invs_ext [simp]:
  "holds (s\<lparr>robin := v\<rparr>) q = holds s q" "holds (say m s) q = holds s q"
  "owned (s\<lparr>robin := v\<rparr>) = owned s" "owned (say m s) = owned s"
  "keyed (s\<lparr>robin := v\<rparr>) = keyed s" "keyed (say m s) = keyed s"
  "no_zero (s\<lparr>robin := v\<rparr>) = no_zero s" "no_zero (say m s) = no_zero s"
  "find_slot2 (s\<lparr>robin := v\<rparr>) = find_slot2 s" "find_slot2 (say m s) = find_slot2 s"
  by (simp_all add: holds_def owned_def keyed_def no_zero_def find_slot2_def fun_eq_iff)

lemma vview_ext [simp]: "vview fr (s\<lparr>robin := v\<rparr>) = vview fr s" for s :: pmem2
  by (simp add: vview_def fun_eq_iff)

lemma view2_ext [simp]: "view2 (s\<lparr>robin := v\<rparr>) = view2 s" "view2 (say m s) = view2 s"
  by (simp_all add: view2_def fun_eq_iff)

lemma wf2_say [simp]: "wf2 (say m s) = wf2 s"
  by (simp add: wf2_def)

lemma wf2_robin: "wf2 s \<Longrightarrow> in_range v PAGE_FRAMES \<Longrightarrow> wf2 (s\<lparr>robin := v\<rparr>)"
  by (simp add: wf2_def)

lemma evolve_robin: "evolve s s' \<Longrightarrow> in_range v PAGE_FRAMES \<Longrightarrow> evolve s (s'\<lparr>robin := v\<rparr>)"
  by (simp add: evolve_def wf2_robin)

lemma evolve_say [simp]: "evolve s (say m s') = evolve s s'" "evolve (say m s) s' = evolve s s'"
  by (simp_all add: evolve_def)

lemma evolve_robin_left [simp]: "evolve (s\<lparr>robin := v\<rparr>) s' = evolve s s'"
  by (simp add: evolve_def)

lemma next_robin2_range: "in_range r PAGE_FRAMES \<Longrightarrow> in_range (next_robin2 r) PAGE_FRAMES"
  by (auto simp: next_robin2_def in_range_def)

section \<open>free_frame\<close>

lemma unload_entries2_evolves:
  assumes "wf2 s" "live2 s (Tab i)" "j + n = PAGE_SIZE"
  shows "\<exists>s'. unload_entries2 s (ProcEntry (int i)) (int j) n = Some s' \<and> evolve s s' \<and> robin s' = robin s \<and>
    (\<forall>q. live2 s' q \<longleftrightarrow> live2 s q \<and> (\<forall>m\<ge>j. q \<noteq> Ent i m))"
  using assms
proof (induction n arbitrary: s j)
  case 0
  have "\<not> live2 s (Ent i m)" if "j \<le> m" for m using 0 that by (simp add: live.simps)
  with 0 evolve_refl show ?case by auto
next
  case (Suc n)
  note w = wf2D(1) [OF Suc.prems(1)]
  have j: "j < PAGE_SIZE" using Suc.prems(3) by simp
  have base: "frame2 (procTable s ! i) * int PAGE_SIZE + int j = int (tab2 s i * PAGE_SIZE + j)"
    using wf_refs_tabf(2) [OF w Suc.prems(2)] by simp
  have rt: "pg_read s (ProcEntry (int i)) = Some (procTable s ! i)"
    using pg_read_ptr [OF w Suc.prems(2)] by (simp add: ref_byte.simps)
  have re: "pg_read s (MemEntry (int (tab2 s i * PAGE_SIZE + j))) = Some (byte2 s (Ent i j))"
    using index_frame_less [OF wf_refs_tabf(1) [OF w Suc.prems(2)] j] wf_refs_lengths(1) [OF w]
    by (simp add: ref_byte.simps del: of_nat_add of_nat_mult)
  have "\<exists>t. (if pg_valid (byte2 s (Ent i j)) then free_specific_frame2 s (MemEntry (int (tab2 s i * PAGE_SIZE + j)))
        else Some s) = Some t \<and> evolve s t \<and> robin t = robin s \<and> (\<forall>q. live2 t q \<longleftrightarrow> live2 s q \<and> q \<noteq> Ent i j)"
  proof (cases "pg_valid (byte2 s (Ent i j))")
    case True
    then have "live2 s (Ent i j)" using j Suc.prems(2) by (simp add: live.simps)
    from free_specific_frame2_evolves [OF Suc.prems(1) this] True show ?thesis by simp
  next
    case False
    then have "\<not> live2 s (Ent i j)" by (simp add: live.simps)
    with False evolve_refl [OF Suc.prems(1)] show ?thesis by auto
  qed
  then obtain t where t: "(if pg_valid (byte2 s (Ent i j)) then
        free_specific_frame2 s (MemEntry (int (tab2 s i * PAGE_SIZE + j))) else Some s) = Some t"
    "evolve s t" "robin t = robin s" "\<And>q. live2 t q \<longleftrightarrow> live2 s q \<and> q \<noteq> Ent i j" by blast
  from Suc.IH [OF evolveD(1) [OF t(2)], of "Suc j"] t(4) Suc.prems obtain s' where
    s': "unload_entries2 t (ProcEntry (int i)) (int (Suc j)) n = Some s'" "evolve t s'" "robin s' = robin t"
    "\<And>q. live2 s' q \<longleftrightarrow> live2 t q \<and> (\<forall>m\<ge>Suc j. q \<noteq> Ent i m)" by auto
  have "unload_entries2 s (ProcEntry (int i)) (int j) (Suc n) = Some s'"
    using s'(1) t(1) rt re base
    by (cases "pg_valid (byte2 s (Ent i j))") (simp_all add: add.commute [of 1] del: pg_read.simps of_nat_mult of_nat_add)
  moreover have "live2 s' q \<longleftrightarrow> live2 s q \<and> (\<forall>m\<ge>j. q \<noteq> Ent i m)" for q
    unfolding s'(4) t(4) by (metis Suc_leD le_antisym not_less_eq_eq)
  ultimately show ?case using evolve_trans [OF t(2) s'(2)] s'(3) t(3) by auto
qed

text \<open>The victim is not the table of the process that asks: then its frame becomes free.\<close>

lemma free_victim2:
  assumes wf: "wf2 s" and lv: "live2 s r" "ref_frame frame2 s r = robin s" and r: "r \<noteq> Tab i"
  shows "\<exists>s'. free_frame2 s (int i) = Some (s', robin s) \<and> evolve s s' \<and> \<not> used2 s' (robin s) \<and>
    (live2 s (Tab i) \<longrightarrow> live2 s' (Tab i))"
proof -
  have own: "frame_allocated2 s (robin s) = Some (ptr s r)"
    using owner_unique [OF wf2D(1) [OF wf] lv(1)] lv(2) by simp
  have np: "ptr s r \<noteq> ProcEntry (int i)" using r by (cases r) auto
  obtain t where t: "(if is_proc_entry (ptr s r) then do {
        p \<leftarrow> pg_read s (ptr s r); unload_entries2 (say (UnloadingTable (procc2 p)) s) (ptr s r) 0 PAGE_SIZE }
      else Some s) = Some t" "evolve s t" "robin t = robin s" "live2 t r" "bare t r" "ptr t r = ptr s r"
    "\<And>j. live2 s (Tab j) \<Longrightarrow> live2 t (Tab j)"
  proof (cases r)
    case (Tab j)
    have "wf2 (say (UnloadingTable (procc2 (procTable s ! j))) s)"
      "live2 (say (UnloadingTable (procc2 (procTable s ! j))) s) (Tab j)" using wf lv(1) Tab by simp_all
    from unload_entries2_evolves [OF this, of 0] obtain t where
      "unload_entries2 (say (UnloadingTable (procc2 (procTable s ! j))) s) (ProcEntry (int j)) 0 PAGE_SIZE = Some t"
      "evolve s t" "robin t = robin s" "\<And>q. live2 t q \<longleftrightarrow> live2 s q \<and> (\<forall>m. q \<noteq> Ent j m)" by auto
    moreover have "j < MAX_PROCESSES" using lv(1) Tab by (simp add: live.simps)
    ultimately show thesis
      using that [of t] Tab lv(1) pg_read_ptr [OF wf2D(1) [OF wf] lv(1)]
      by (auto simp: bare_def ref_byte.simps simp del: pg_read.simps)
  next
    case (Ent j n)
    with that [of s] evolve_refl [OF wf] lv(1) show thesis by simp
  qed
  from free_specific_frame2_evolves [OF evolveD(1) [OF t(2)] t(4,5)] obtain u where
    u: "free_specific_frame2 t (ptr s r) = Some u" "evolve t u" "robin u = robin t"
    "\<And>q. live2 u q \<longleftrightarrow> live2 t q \<and> q \<noteq> r" using t(6) by auto
  have su: "evolve s u" by (rule evolve_trans [OF t(2) u(2)])
  have "\<not> used2 u (robin s)"
  proof
    assume "used2 u (robin s)"
    then obtain q where q: "live2 u q" "ref_frame frame2 u q = robin s" unfolding used_iff by blast
    then have "live2 s q" "ref_frame frame2 s q = robin s" using evolveD(2,3) [OF su q(1)] by (simp_all add: ref_frame_def)
    with wf_refs_inj [OF wf2D(1) [OF wf] _ lv(1)] lv(2) have "q = r" by metis
    with u(4) q(1) show False by blast
  qed
  moreover have "free_frame2 s (int i) = Some (u\<lparr>robin := next_robin2 (robin s)\<rparr>, robin s)"
    using own np t(1) u(1,3) t(3) by (subst free_frame2.simps) simp
  moreover have "live2 s (Tab i) \<longrightarrow> live2 u (Tab i)" using t(7) u(4) r by auto
  ultimately show ?thesis
    using evolve_robin [OF su next_robin2_range [OF wf2D(4) [OF wf]]] by auto
qed

lemma frame_owner2:
  assumes "wf2 s" "used2 s f"
  shows "\<exists>r. live2 s r \<and> ref_frame frame2 s r = f \<and> frame_allocated2 s f = Some (ptr s r)"
  using assms owner_unique [OF wf2D(1) [OF assms(1)]] unfolding used_iff by metis

text \<open>\<open>free_frame\<close> on a full memory: it returns, the frame it returns is free, and the process that
  asks keeps its table.\<close>

lemma free_frame2_evolves:
  assumes wf: "wf2 s" and full: "\<And>f. f < PAGE_FRAMES \<Longrightarrow> used2 s (int f)"
  shows "\<exists>s' f. free_frame2 s (int i) = Some (s', int f) \<and> f < PAGE_FRAMES \<and> evolve s s' \<and>
    \<not> used2 s' (int f) \<and> (live2 s (Tab i) \<longrightarrow> live2 s' (Tab i))"
proof -
  have rng: "\<exists>f<PAGE_FRAMES. v = int f" if "in_range v PAGE_FRAMES" for v
    using that by (auto simp: in_range_def dest!: zero_le_imp_eq_int)
  have step: "\<exists>s' f. free_frame2 t (int i) = Some (s', int f) \<and> f < PAGE_FRAMES \<and> evolve t s' \<and>
      \<not> used2 s' (int f) \<and> (live2 t (Tab i) \<longrightarrow> live2 s' (Tab i))"
    if "wf2 t" "live2 t r" "ref_frame frame2 t r = robin t" "r \<noteq> Tab i" for t r
  proof -
    from free_victim2 [OF that] obtain s' where
      "free_frame2 t (int i) = Some (s', robin t)" "evolve t s'" "\<not> used2 s' (robin t)"
      "live2 t (Tab i) \<longrightarrow> live2 s' (Tab i)" by blast
    with rng [OF wf2D(4) [OF that(1)]] show ?thesis by auto
  qed
  have full': "used2 s v" if "in_range v PAGE_FRAMES" for v using rng [OF that] full by auto
  obtain r where r: "live2 s r" "ref_frame frame2 s r = robin s" "frame_allocated2 s (robin s) = Some (ptr s r)"
    using frame_owner2 [OF wf full' [OF wf2D(4) [OF wf]]] by blast
  show ?thesis
  proof (cases "r = Tab i")
    case False
    then show ?thesis using step [OF wf r(1,2)] by simp
  next
    case True
    let ?t = "(say (SkippedFrame (robin s)) s)\<lparr>robin := next_robin2 (robin s)\<rparr>"
    have t: "wf2 ?t" using wf next_robin2_range [OF wf2D(4) [OF wf]] by (simp add: wf2_robin)
    obtain q where q: "live2 ?t q" "ref_frame frame2 ?t q = robin ?t"
      using frame_owner2 [OF t, of "robin ?t"] full' [OF wf2D(4) [OF t]] by auto
    have "next_robin2 (robin s) \<noteq> robin s" by (simp add: next_robin2_def)
    with q(2) r(2) True have "q \<noteq> Tab i" by (auto simp: ref_frame_def)
    from step [OF t q this] r(3) True show ?thesis by (subst free_frame2.simps) simp
  qed
qed

lemma free_scan2_eq:
  assumes "wf2 s"
  shows "free_scan2 s (int j) n = Some (map_option int (first_from (\<lambda>f. \<not> used2 s (int f)) j n))"
proof (induction n arbitrary: j)
  case (Suc n)
  obtain p where p: "frame_allocated2 s (int j) = Some p" "p = Null \<longleftrightarrow> \<not> used2 s (int j)"
  proof (cases "used2 s (int j)")
    case True
    then obtain r where "frame_allocated2 s (int j) = Some (ptr s r)" using frame_owner2 [OF assms] by blast
    with True that [of "ptr s r"] show thesis by (cases r) auto
  next
    case False
    obtain p where "frame_allocated2 s (int j) = Some p"
      "if p = Null then \<not> used2 s (int j) else \<exists>r. live2 s r \<and> ref_frame frame2 s r = int j \<and> p = ptr s r"
      using frame_allocated2_owner [OF wf2D(1) [OF assms], of "int j"] by blast
    with False that [of p] show thesis by (auto simp: used_iff split: if_splits)
  qed
  with Suc.IH [of "Suc j"] show ?case by (simp add: add.commute)
qed simp

text \<open>\<open>find_free_frame\<close> always finds a frame, and nobody's pages are lost over it.\<close>

lemma find_free_frame2_evolves:
  assumes wf: "wf2 s"
  shows "\<exists>s' f. find_free_frame2 s (int i) = Some (s', int f) \<and> f < PAGE_FRAMES \<and> evolve s s' \<and>
    \<not> used2 s' (int f) \<and> (live2 s (Tab i) \<longrightarrow> live2 s' (Tab i))"
proof (cases "first_from (\<lambda>f. \<not> used2 s (int f)) 0 PAGE_FRAMES")
  case None
  then have "used2 s (int f)" if "f < PAGE_FRAMES" for f using that by (simp add: first_from_None_iff)
  with free_frame2_evolves [OF wf] None free_scan2_eq [OF wf, of 0 PAGE_FRAMES] show ?thesis
    by (simp add: find_free_frame2_def)
next
  case (Some f)
  then have "f < PAGE_FRAMES" "\<not> used2 s (int f)" by (auto simp: first_from_Some_iff)
  with Some free_scan2_eq [OF wf, of 0 PAGE_FRAMES] evolve_refl [OF wf] show ?thesis
    by (simp add: find_free_frame2_def)
qed

end
