(* ===== verification/Reload.thy ===== *)
theory Reload
  imports Victim
begin

text \<open>
  Project4/Part2/pageTable.c, bringing frames back in: loading a stored table or page
  (\<open>check_backing_store\<close>), making a new table (\<open>init_table\<close>) and locating an entry
  (\<open>find_page\<close>). Each keeps the invariant, and, with no page 0 in use, what every process sees.
\<close>

section \<open>The view in two parts\<close>

lemma view2_alt:
  "view2 s p = (case vview frame2 s p of Some x \<Rightarrow> Some x
    | None \<Rightarrow> map_option (\<lambda>k. (sf_write (backingStore s ! k) \<noteq> 0, sf_data (backingStore s ! k)))
        (find_slot2 s (int (fst p)) (int (snd p))))"
  by (cases p) (auto simp: view2_def vview_def)

lemma find_slot2_cong: "backingStore s' = backingStore s \<Longrightarrow> find_slot2 s' = find_slot2 s"
  by (simp add: find_slot2_def fun_eq_iff)

lemma holds_cong: "backingStore s' = backingStore s \<Longrightarrow> holds s' = holds s"
  by (simp add: holds_def fun_eq_iff)

lemma view2_same:
  assumes "vview frame2 s' = vview frame2 s" "backingStore s' = backingStore s"
  shows "view2 s' = view2 s"
  by (rule ext) (simp only: view2_alt assms find_slot2_cong [OF assms(2)])

lemma view2_update:
  assumes "vview frame2 s' = (vview frame2 s)(p \<mapsto> x)" "backingStore s' = backingStore s"
  shows "view2 s' = (view2 s)(p \<mapsto> x)"
  by (rule ext) (simp add: view2_alt assms find_slot2_cong [OF assms(2)] split: option.split)

text \<open>The part of \<open>no_zero\<close> that holds while the table of \<open>i\<close> is on its way.\<close>

definition no_zero_but :: "nat \<Rightarrow> pmem2 \<Rightarrow> bool" where
  "no_zero_but i s \<longleftrightarrow> (\<forall>j. \<not> live2 s (Ent j 0)) \<and> (\<forall>j. \<not> holds s (int j, -2)) \<and>
     (\<forall>j n. j \<noteq> i \<and> holds s (int j, int n) \<longrightarrow> live2 s (Tab j) \<or> holds s (int j, -1))"

lemma no_zero_butI: "no_zero s \<Longrightarrow> no_zero_but i s"
  unfolding no_zero_def no_zero_but_def by blast

section \<open>Taking a slot out of the store\<close>

definition clear_slot :: "pmem2 \<Rightarrow> nat \<Rightarrow> pmem2" where
  "clear_slot s k = s\<lparr>backingStore := (backingStore s)[k := (backingStore s ! k)\<lparr>sf_pid := -1\<rparr>]\<rparr>"

lemma clear_slot_simps [simp]:
  "live2 (clear_slot s k) r = live2 s r" "byte2 (clear_slot s k) r = byte2 s r"
  "wf_refs frame2 (clear_slot s k) = wf_refs frame2 s" "used2 (clear_slot s k) f = used2 s f"
  "tab2 (clear_slot s k) i = tab2 s i" "robin (clear_slot s k) = robin s"
  "mainMemory (clear_slot s k) = mainMemory s" "procTable (clear_slot s k) = procTable s"
  by (simp_all add: clear_slot_def)

lemma nth_clear_slot:
  "length (backingStore s) = STORE_FRAMES \<Longrightarrow> l < STORE_FRAMES \<Longrightarrow> backingStore (clear_slot s k) ! l =
    (if l = k then (backingStore s ! k)\<lparr>sf_pid := -1\<rparr> else backingStore s ! l)"
  by (auto simp: clear_slot_def)

lemma holds_clear_slot:
  assumes wf: "wf2 s" and k: "k < STORE_FRAMES" "slot_key (backingStore s ! k) = (int i, n)" "n \<noteq> -2"
  shows "holds (clear_slot s k) (int j, m) \<longleftrightarrow> holds s (int j, m) \<and> (j, m) \<noteq> (i, n)"
proof -
  have "slot_key (backingStore (clear_slot s k) ! l) = (int j, m) \<longleftrightarrow>
      slot_key (backingStore s ! l) = (int j, m) \<and> (j, m) \<noteq> (i, n)" if "l < STORE_FRAMES" for l
  proof (cases "l = k")
    case True
    then show ?thesis using k nth_clear_slot [OF wf2D(2) [OF wf] that, of k] by auto
  next
    case False
    have "slot_key (backingStore s ! l) \<noteq> (int i, n)"
      using False keyed_unique [OF wf2D(6) [OF wf] that k(1) _ k(2,3)] by blast
    then show ?thesis
      using False nth_clear_slot [OF wf2D(2) [OF wf] that, of k] by (simp only: if_False) auto
  qed
  then show ?thesis unfolding holds_def by blast
qed

lemma clear_slot_wf2:
  assumes wf: "wf2 s" and k: "k < STORE_FRAMES"
  shows "wf2 (clear_slot s k)"
proof -
  note nth = nth_clear_slot [OF wf2D(2) [OF wf]]
  have ok: "slot_ok (backingStore (clear_slot s k) ! l)" if "l < STORE_FRAMES" for l
    using wf2D(3) [OF wf that] nth [OF that, of k] by (auto simp: slot_ok_def)
  have "a = b" if "a < STORE_FRAMES" "b < STORE_FRAMES"
    "slot_key (backingStore (clear_slot s k) ! a) = slot_key (backingStore (clear_slot s k) ! b)"
    "0 \<le> sf_pid (backingStore (clear_slot s k) ! a)" "sf_page (backingStore (clear_slot s k) ! a) \<noteq> -2" for a b
  proof -
    have "a \<noteq> k" "b \<noteq> k" using that nth [OF that(1), of k] nth [OF that(2), of k] by auto
    with that wf2D(6) [OF wf] show ?thesis
      unfolding keyed_def nth [OF that(1), of k] nth [OF that(2), of k] by simp
  qed
  moreover have "holds s (key r)" if h: "holds (clear_slot s k) (key r)" for r
  proof -
    obtain l where l: "l < STORE_FRAMES" "slot_key (backingStore (clear_slot s k) ! l) = key r"
      using h unfolding holds_def by blast
    moreover from this have "0 \<le> sf_pid (backingStore (clear_slot s k) ! l)"
      using key_nonneg [of r] by (cases "key r") simp
    ultimately have "slot_key (backingStore s ! l) = key r" using nth [OF l(1), of k] by (simp split: if_splits)
    with l(1) show ?thesis unfolding holds_def by blast
  qed
  ultimately have "keyed (clear_slot s k)"
    using wf2D(6) [OF wf] unfolding keyed_def clear_slot_simps by blast
  moreover have "owned (clear_slot s k)" using wf2D(5) [OF wf] by (simp add: owned_def)
  moreover have "length (backingStore (clear_slot s k)) = STORE_FRAMES"
    using wf2D(2) [OF wf] by (simp add: clear_slot_def)
  ultimately show ?thesis
    using wf2D(1,4) [OF wf] ok unfolding wf2_def clear_slot_simps by blast
qed

lemma view2_clear_slot:
  assumes wf: "wf2 s" and k: "k < STORE_FRAMES" "slot_key (backingStore s ! k) = (int i, n)" "n \<noteq> -2"
    and dead: "\<And>m. n = int m \<Longrightarrow> \<not> live2 s (Ent i m)"
  shows "view2 (clear_slot s k) (j, m) = (if (j, int m) = (i, n) then None else view2 s (j, m))"
proof (cases "live2 s (Ent j m)")
  case True
  then show ?thesis using dead by (auto simp: view2_live ref_frame_def)
next
  case False
  show ?thesis
  proof (cases "holds (clear_slot s k) (int j, int m)")
    case True
    then obtain l where l: "l < STORE_FRAMES" "slot_key (backingStore (clear_slot s k) ! l) = (int j, int m)"
      by (auto simp: holds_def)
    then have e: "backingStore (clear_slot s k) ! l = backingStore s ! l"
      using nth_clear_slot [OF wf2D(2) [OF wf] l(1), of k] by (auto split: if_splits)
    have "view2 (clear_slot s k) (j, m) = view2 s (j, m)"
      using view2_stored [OF wf2D(6) [OF clear_slot_wf2 [OF wf k(1)]] l] view2_stored [OF wf2D(6) [OF wf] l(1)]
        l(2) e False by simp
    with True holds_clear_slot [OF wf k] show ?thesis by auto
  next
    case held: False
    then have "view2 (clear_slot s k) (j, m) = None" using False view2_None by simp
    with held holds_clear_slot [OF wf k, of j "int m"] view2_None [OF False] show ?thesis by auto
  qed
qed

section \<open>A frame gets a new owner\<close>

lemma unused_not_tab: "wf_refs frame2 s \<Longrightarrow> \<not> used2 s (int f) \<Longrightarrow> live2 s (Tab j) \<Longrightarrow> tab2 s j \<noteq> f"
  using wf_refs_tabf(2) [of frame2 s j] unfolding used_iff by (metis ref_byte.simps(1) ref_frame_def)

lemma agree_entry:
  assumes "wf_refs frame2 s" "live2 s (Tab j)" "tab2 s j \<noteq> f" "agree_outside f (mainMemory s) m" "n < PAGE_SIZE"
  shows "m ! (tab2 s j * PAGE_SIZE + n) = byte2 s (Ent j n)"
  using assms wf_refs_tabf(1) [OF assms(1,2)] by (auto simp: agree_outside_def ref_byte.simps)

text \<open>Filling a frame that nothing refers to.\<close>

lemma fill_frame:
  assumes wf: "wf2 s" and f: "f < PAGE_FRAMES" "\<not> used2 s (int f)" and ag: "agree_outside f (mainMemory s) m"
  defines "s' \<equiv> s\<lparr>mainMemory := m\<rparr>"
  shows "wf2 s'" "live2 s' r = live2 s r" "live2 s r \<Longrightarrow> byte2 s' r = byte2 s r" "vview frame2 s' = vview frame2 s"
    "\<not> used2 s' (int f)" "holds s' = holds s" "tab2 s' = tab2 s"
proof -
  note w = wf2D(1) [OF wf]
  have nt: "tab2 s j \<noteq> f" if "live2 s (Tab j)" for j by (rule unused_not_tab [OF w f(2) that])
  have ag': "agree_outside f (mainMemory s) (mainMemory s')" "procTable s' = procTable s" using ag by (simp_all add: s'_def)
  note r = refs_write_data [OF w ag' nt]
  show l: "live2 s' r = live2 s r" for r by (rule r(1))
  show b: "byte2 s' r = byte2 s r" if "live2 s r" for r by (rule r(2) [OF _ that])
  have lens: "length (mainMemory s') = PHYS_MEM_SIZE" "length (procTable s') = MAX_PROCESSES"
    using wf_refs_lengths [OF w] ag by (auto simp: s'_def agree_outside_def)
  have wr: "wf_refs frame2 s'" by (rule wf_refs_same [OF w lens l b])
  show h: "holds s' = holds s" by (rule holds_cong) (simp add: s'_def)
  show tb: "tab2 s' = tab2 s" by (simp add: s'_def tabf_def fun_eq_iff)
  have "owned s'"
    unfolding owned_def l
  proof (intro allI impI conjI)
    fix i n assume i: "live2 s (Tab i)"
    show "procc2 (byte2 s' (Tab i)) = int i" using wf2D(5) [OF wf] b [OF i] i by (simp add: owned_def)
    assume n: "n < PAGE_SIZE"
    have "byte2 s' (Ent i n) = byte2 s (Ent i n)"
      using agree_entry [OF w i nt [OF i] ag n] by (simp add: ref_byte.simps tb) (simp add: s'_def)
    then show "procc2 (byte2 s' (Ent i n)) = int i" using wf2D(5) [OF wf] i n by (simp add: owned_def)
  qed
  moreover have "keyed s'" using wf2D(6) [OF wf] l h by (simp add: keyed_def s'_def)
  ultimately show "wf2 s'" using wr wf2D [OF wf] by (simp add: wf2_def s'_def)
  show "\<not> used2 s' (int f)" using f(2) l b unfolding used_iff by (simp add: ref_frame_def)
  show "vview frame2 s' = vview frame2 s"
  proof (rule ext, clarify)
    fix j n
    show "vview frame2 s' (j, n) = vview frame2 s (j, n)"
    proof (cases "live2 s (Ent j n)")
      case True
      have "nat (ref_frame frame2 s (Ent j n)) \<noteq> f" "nat (ref_frame frame2 s (Ent j n)) < PAGE_FRAMES"
        using f(2) True wf_refs_frame [OF w True] unfolding used_iff by (auto simp: in_range_def)
      from agree_outside_frame_bytes [OF ag'(1) wf_refs_lengths(1) [OF w] this(2,1)] True l b
      show ?thesis by (simp add: vview_eq_Some ref_frame_def)
    qed (simp add: vview_def l)
  qed
qed

text \<open>A table in a free frame.\<close>

lemma new_table2:
  assumes wf: "wf2 s" and i: "i < MAX_PROCESSES" and dead: "\<not> live2 s (Tab i)" "\<not> holds s (int i, -1)"
    and f: "f < PAGE_FRAMES" "\<not> used2 s (int f)" and ag: "agree_outside f (mainMemory s) m"
    and p: "pg_valid p" "frame2 p = int f" "procc2 p = int i"
    and entries: "\<And>k. k < PAGE_SIZE \<Longrightarrow> \<not> pg_valid (m ! (f * PAGE_SIZE + k)) \<and> procc2 (m ! (f * PAGE_SIZE + k)) = int i"
  defines "s' \<equiv> s\<lparr>mainMemory := m, procTable := (procTable s)[i := p]\<rparr>"
  shows "wf2 s'" "live2 s' r \<longleftrightarrow> live2 s r \<or> r = Tab i" "view2 s' = view2 s" "no_zero_but i s \<Longrightarrow> no_zero s'"
proof -
  note w = wf2D(1) [OF wf]
  have st: "mainMemory s' = m" "procTable s' = (procTable s)[i := p]" "backingStore s' = backingStore s" by (simp_all add: s'_def)
  note nt = new_table [OF w i dead(1) st(2) p(1,2) f ag [folded st(1)]]
  have empty: "\<not> pg_valid (mainMemory s' ! (f * PAGE_SIZE + k))" if "k < PAGE_SIZE" for k
    using entries [OF that] st(1) by simp
  note nt = nt [OF empty]
  show l: "live2 s' r \<longleftrightarrow> live2 s r \<or> r = Tab i" for r by (rule nt(1))
  have h: "holds s' = holds s" by (rule holds_cong [OF st(3)])
  show "view2 s' = view2 s" by (rule view2_same [OF nt(4) st(3)])
  have "owned s'"
    unfolding owned_def l
  proof (intro allI impI conjI)
    fix j n assume j: "live2 s (Tab j) \<or> Tab j = Tab i"
    have len: "i < length (procTable s)" using i wf_refs_lengths(2) [OF w] by simp
    show "procc2 (byte2 s' (Tab j)) = int j"
      using j wf2D(5) [OF wf] nt(2) [of "Tab j"] p(3) len st(2) by (cases "j = i") (auto simp: owned_def ref_byte.simps)
    assume n: "n < PAGE_SIZE"
    show "procc2 (byte2 s' (Ent j n)) = int j"
    proof (cases "j = i")
      case True
      have "tab2 s' i = f" using st(2) len p(2) by (simp add: tabf_def)
      with True entries [OF n] st(1) show ?thesis by (simp add: ref_byte.simps)
    next
      case False
      with j have j': "live2 s (Tab j)" by simp
      have "tab2 s' j = tab2 s j" using st(2) False by (simp add: tabf_def)
      then have "byte2 s' (Ent j n) = byte2 s (Ent j n)"
        using agree_entry [OF w j' unused_not_tab [OF w f(2) j'] ag n] st(1) by (simp add: ref_byte.simps)
      with wf2D(5) [OF wf] j' n show ?thesis by (simp add: owned_def)
    qed
  qed
  moreover have "keyed s'"
    using wf2D(6) [OF wf] dead(2) unfolding keyed_def h st(3) l by auto
  ultimately show "wf2 s'" using nt(3) wf2D [OF wf] by (simp add: wf2_def s'_def)
  show "no_zero_but i s \<Longrightarrow> no_zero s'"
    unfolding no_zero_def no_zero_but_def h l by blast
qed

text \<open>An entry is written: its process field stays, and it is not in the store when it is valid.\<close>

lemma entry_inv2:
  assumes wf: "wf2 s" and tab: "live2 s (Tab i)" and n: "n < PAGE_SIZE"
    and b: "procc2 b = int i" and h: "n \<noteq> 0 \<Longrightarrow> \<not> holds s (int i, int n)"
  defines "s' \<equiv> s\<lparr>mainMemory := (mainMemory s)[tab2 s i * PAGE_SIZE + n := b]\<rparr>"
  assumes wr: "wf_refs frame2 s'"
  shows "wf2 s'" and "n \<noteq> 0 \<Longrightarrow> no_zero s \<Longrightarrow> no_zero s'"
proof -
  note w = wf2D(1) [OF wf]
  have st: "mainMemory s' = (mainMemory s)[tab2 s i * PAGE_SIZE + n := b]" "procTable s' = procTable s"
    "backingStore s' = backingStore s" by (simp_all add: s'_def)
  note e = write_entry [OF w tab n st(1,2)]
  have hc: "holds s' = holds s" by (rule holds_cong [OF st(3)])
  have tl: "live2 s' (Tab j) = live2 s (Tab j)" for j using e(3) by simp
  have tb: "tab2 s' j = tab2 s j" for j by (simp add: tabf_def st(2))
  have "owned s'"
    unfolding owned_def tl
  proof (intro allI impI conjI)
    fix j k assume j: "live2 s (Tab j)"
    show "procc2 (byte2 s' (Tab j)) = int j" using wf2D(5) [OF wf] e(4) j by (simp add: owned_def)
    assume k: "k < PAGE_SIZE"
    show "procc2 (byte2 s' (Ent j k)) = int j"
    proof (cases "tab2 s j * PAGE_SIZE + k = tab2 s i * PAGE_SIZE + n")
      case True
      then have "Ent j k = Ent i n" using index_frame_eq [OF k n] live_Tab_distinct [OF w j tab] by auto
      with e(1) b show ?thesis by simp
    next
      case False
      then have "byte2 s' (Ent j k) = byte2 s (Ent j k)" by (simp add: ref_byte.simps tb st(1))
      with wf2D(5) [OF wf] j k show ?thesis by (simp add: owned_def)
    qed
  qed
  moreover have "\<not> holds s (key r)" if "live2 s' r" "snd (key r) \<noteq> -2" for r
    using that e(3) [of r] keyed_not_holds [OF wf2D(6) [OF wf], of r] h by (cases "r = Ent i n") (auto split: if_splits)
  then have "keyed s'" using wf2D(6) [OF wf] unfolding keyed_def hc st(3) by blast
  ultimately show "wf2 s'" using wr wf2D [OF wf] by (simp add: wf2_def st(3)) (simp add: s'_def)
  show "no_zero s'" if "n \<noteq> 0" "no_zero s"
    using that e(3) tl unfolding no_zero_def hc by (metis pref.inject(2))
qed

lemma fresh_entry2:
  assumes wf: "wf2 s" and tab: "live2 s (Tab i)" and n: "n < PAGE_SIZE"
    and h: "n \<noteq> 0 \<Longrightarrow> \<not> holds s (int i, int n)" and f: "f < PAGE_FRAMES" "\<not> used2 s (int f)"
    and b: "pg_valid b" "frame2 b = int f" "procc2 b = int i"
  defines "s' \<equiv> s\<lparr>mainMemory := (mainMemory s)[tab2 s i * PAGE_SIZE + n := b]\<rparr>"
  shows "wf2 s'" "n \<noteq> 0 \<Longrightarrow> no_zero s \<Longrightarrow> no_zero s'" "live2 s' r \<longleftrightarrow> live2 s r \<or> r = Ent i n"
    "byte2 s' (Ent i n) = b"
    "view2 s' = (view2 s)((i, n) \<mapsto> (pg_write b \<noteq> 0, frame_bytes (mainMemory s) f))"
proof -
  note w = wf2D(1) [OF wf]
  have st: "mainMemory s' = (mainMemory s)[tab2 s i * PAGE_SIZE + n := b]" "procTable s' = procTable s"
    "backingStore s' = backingStore s" by (simp_all add: s'_def)
  note e = write_entry [OF w tab n st(1,2)] and fr = fresh_entry [OF w tab n st(1,2) b(1,2) f]
  note v = entry_inv2 [OF wf tab n b(3) h fr(1) [unfolded s'_def], folded s'_def]
  show "wf2 s'" by (rule v(1))
  show "no_zero s'" if "n \<noteq> 0" "no_zero s" using v(2) that by blast
  show "live2 s' r \<longleftrightarrow> live2 s r \<or> r = Ent i n" using e(2,3) b(1) by (cases "r = Ent i n") auto
  show "byte2 s' (Ent i n) = b" by (rule e(1))
  show "view2 s' = (view2 s)((i, n) \<mapsto> (pg_write b \<noteq> 0, frame_bytes (mainMemory s) f))"
    by (rule view2_update [OF fr(2) st(3)])
qed

lemma rewrite_entry2:
  fixes v :: int
  assumes wf: "wf2 s" and lv: "live2 s (Ent i n)"
  defines "b \<equiv> set_write v (byte2 s (Ent i n))"
  defines "s' \<equiv> s\<lparr>mainMemory := (mainMemory s)[tab2 s i * PAGE_SIZE + n := b]\<rparr>"
  shows "wf2 s'" "n \<noteq> 0 \<Longrightarrow> no_zero s \<Longrightarrow> no_zero s'" "live2 s' r = live2 s r"
    "view2 s' = (view2 s)((i, n) \<mapsto> (odd v, frame_bytes (mainMemory s) (nat (ref_frame frame2 s (Ent i n)))))"
proof -
  note w = wf2D(1) [OF wf]
  have n: "n < PAGE_SIZE" and tab: "live2 s (Tab i)" using lv by (simp_all add: live.simps)
  have st: "mainMemory s' = (mainMemory s)[tab2 s i * PAGE_SIZE + n := b]" "procTable s' = procTable s"
    "backingStore s' = backingStore s" by (simp_all add: s'_def)
  have b: "pg_valid b" "frame2 b = ref_frame frame2 s (Ent i n)" "procc2 b = int i"
    using lv wf2D(5) [OF wf] n tab by (simp_all add: b_def ref_frame_def live.simps owned_def)
  have h: "\<not> holds s (int i, int n)" if "n \<noteq> 0"
    using keyed_not_holds [OF wf2D(6) [OF wf] lv] that by simp
  note e = write_entry [OF w tab n st(1,2)] and fr = rewrite_entry [OF w lv st(1,2) b(1,2)]
  note v = entry_inv2 [OF wf tab n b(3) h fr(1) [unfolded s'_def], folded s'_def]
  show "wf2 s'" by (rule v(1))
  show "no_zero s'" if "n \<noteq> 0" "no_zero s" using v(2) that by blast
  show "live2 s' r = live2 s r" using e(2,3) b(1) lv by (cases "r = Ent i n") auto
  have "pg_write b \<noteq> 0 \<longleftrightarrow> odd v" by (simp add: b_def odd_iff_mod_2_eq_one)
  with view2_update [OF fr(2) st(3)]
  show "view2 s' = (view2 s)((i, n) \<mapsto> (odd v, frame_bytes (mainMemory s) (nat (ref_frame frame2 s (Ent i n)))))"
    by simp
qed

lemma store_byte2:
  fixes v :: byte
  assumes wf: "wf2 s" and lv: "live2 s (Ent i n)" and k: "k < PAGE_SIZE"
  defines "g \<equiv> nat (ref_frame frame2 s (Ent i n))"
  defines "s' \<equiv> s\<lparr>mainMemory := (mainMemory s)[g * PAGE_SIZE + k := v]\<rparr>"
  shows "wf2 s'" "no_zero s \<Longrightarrow> no_zero s'" "byte2 s' (Ent i n) = byte2 s (Ent i n)" "tab2 s' = tab2 s"
    "view2 s' = (view2 s)((i, n) \<mapsto> (pg_write (byte2 s (Ent i n)) \<noteq> 0, (frame_bytes (mainMemory s) g)[k := v]))"
proof -
  note w = wf2D(1) [OF wf]
  have st: "mainMemory s' = (mainMemory s)[nat (ref_frame frame2 s (Ent i n)) * PAGE_SIZE + k := v]"
    "procTable s' = procTable s" "backingStore s' = backingStore s" by (simp_all add: s'_def g_def)
  note b = store_byte [OF w lv k st(1,2)]
  have hc: "holds s' = holds s" by (rule holds_cong [OF st(3)])
  show tb: "tab2 s' = tab2 s" by (simp add: tabf_def st(2) fun_eq_iff)
  show "byte2 s' (Ent i n) = byte2 s (Ent i n)" by (rule b(3) [OF lv])
  have "owned s'"
    unfolding owned_def b(2)
  proof (intro allI impI conjI)
    fix j m assume j: "live2 s (Tab j)"
    show "procc2 (byte2 s' (Tab j)) = int j" using wf2D(5) [OF wf] b(3) [OF j] j by (simp add: owned_def)
    assume m: "m < PAGE_SIZE"
    have "tab2 s j \<noteq> g" unfolding g_def by (rule live_Ent_frame_not_tab [OF w lv j])
    then have "g * PAGE_SIZE + k \<noteq> tab2 s j * PAGE_SIZE + m" using index_frame_eq [OF k m, of g "tab2 s j"] by auto
    then have "byte2 s' (Ent j m) = byte2 s (Ent j m)" by (simp add: ref_byte.simps tb) (simp add: s'_def)
    with wf2D(5) [OF wf] j m show "procc2 (byte2 s' (Ent j m)) = int j" by (simp add: owned_def)
  qed
  moreover have "keyed s'" using wf2D(6) [OF wf] unfolding keyed_def hc st(3) b(2) by blast
  ultimately show "wf2 s'" using b(1) wf2D [OF wf] by (simp add: wf2_def s'_def)
  show "no_zero s'" if "no_zero s" using that unfolding no_zero_def hc b(2) by blast
  show "view2 s' = (view2 s)((i, n) \<mapsto> (pg_write (byte2 s (Ent i n)) \<noteq> 0, (frame_bytes (mainMemory s) g)[k := v]))"
    unfolding g_def by (rule view2_update [OF b(4) st(3)])
qed

section \<open>The loops that fill a frame\<close>

lemma write_bytes2_eq:
  "j + length bs \<le> length m \<Longrightarrow> \<exists>m'. write_bytes2 m (int j) bs = Some m' \<and> length m' = length m \<and>
     (\<forall>k<length m. m' ! k = (if j \<le> k \<and> k < j + length bs then bs ! (k - j) else m ! k))"
proof (induction bs arbitrary: m j)
  case (Cons b bs)
  from Cons.IH [of "Suc j" "m[j := b]"] Cons.prems obtain m' where
    m': "write_bytes2 (m[j := b]) (int j + 1) bs = Some m'" "length m' = length m"
    "\<And>k. k < length m \<Longrightarrow> m' ! k = (if Suc j \<le> k \<and> k < Suc j + length bs then bs ! (k - Suc j) else m[j := b] ! k)"
    by (auto simp: add.commute)
  show ?case
  proof (intro exI [of _ m'] conjI allI impI)
    show "write_bytes2 m (int j) (b # bs) = Some m'" using m'(1) Cons.prems by simp
    show "m' ! k = (if j \<le> k \<and> k < j + length (b # bs) then (b # bs) ! (k - j) else m ! k)" if "k < length m" for k
    proof (cases "k = j")
      case False
      then show ?thesis using m'(3) [OF that] by (cases "j < k") (auto simp: nth_Cons' Suc_le_eq)
    qed (use m'(3) [OF that] that in simp)
  qed (rule m'(2))
qed auto

text \<open>A change of the bytes \<open>f * PAGE_SIZE\<close> to \<open>f * PAGE_SIZE + 15\<close> is a change of one frame.\<close>

lemma agree_outside_range:
  assumes "length m = PHYS_MEM_SIZE" "length m' = PHYS_MEM_SIZE"
    and "\<And>k. k < PHYS_MEM_SIZE \<Longrightarrow> \<not> (f * PAGE_SIZE \<le> k \<and> k < f * PAGE_SIZE + PAGE_SIZE) \<Longrightarrow> m' ! k = m ! k"
  shows "agree_outside f m m'"
  unfolding agree_outside_def
proof (intro conjI allI impI)
  fix g k assume g: "g < PAGE_FRAMES" "g \<noteq> f" and k: "k < PAGE_SIZE"
  have "g * PAGE_SIZE + k < PHYS_MEM_SIZE" by (rule index_frame_less [OF g(1) k])
  moreover have "\<not> (f * PAGE_SIZE \<le> g * PAGE_SIZE + k \<and> g * PAGE_SIZE + k < f * PAGE_SIZE + PAGE_SIZE)"
    using g(2) k by presburger
  ultimately show "m' ! (g * PAGE_SIZE + k) = m ! (g * PAGE_SIZE + k)" by (rule assms(3))
qed (use assms in simp)

lemma write_frame2:
  assumes "length m = PHYS_MEM_SIZE" "f < PAGE_FRAMES" "length bs = PAGE_SIZE"
  shows "\<exists>m'. write_bytes2 m (int f * int PAGE_SIZE) bs = Some m' \<and> agree_outside f m m' \<and> frame_bytes m' f = bs"
proof -
  from write_bytes2_eq [of "f * PAGE_SIZE" bs m] assms obtain m' where
    m': "write_bytes2 m (int f * int PAGE_SIZE) bs = Some m'" "length m' = PHYS_MEM_SIZE"
    "\<And>k. k < PHYS_MEM_SIZE \<Longrightarrow> m' ! k = (if f * PAGE_SIZE \<le> k \<and> k < f * PAGE_SIZE + PAGE_SIZE
       then bs ! (k - f * PAGE_SIZE) else m ! k)" by auto
  have "agree_outside f m m'" by (rule agree_outside_range [OF assms(1) m'(2)]) (auto simp: m'(3))
  moreover have "frame_bytes m' f = bs"
    using assms m'(2,3) index_frame_less [OF assms(2)] by (intro nth_equalityI) (auto simp: nth_frame_bytes)
  ultimately show ?thesis using m'(1) by blast
qed

lemma init_entries2_eq:
  "j + n \<le> length (mainMemory s) \<Longrightarrow> \<exists>m. init_entries2 s p (int j) n = Some (s\<lparr>mainMemory := m\<rparr>) \<and>
     length m = length (mainMemory s) \<and>
     (\<forall>k<length m. m ! k = (if j \<le> k \<and> k < j + n then set_procc2 p (set_valid 0 (mainMemory s ! k))
                            else mainMemory s ! k))"
proof (induction n arbitrary: s j)
  case 0
  then show ?case by (intro exI [of _ "mainMemory s"]) auto
next
  case (Suc n)
  let ?s = "s\<lparr>mainMemory := (mainMemory s)[j := set_procc2 p (set_valid 0 (mainMemory s ! j))]\<rparr>"
  from Suc.IH [of "Suc j" ?s] Suc.prems obtain m where
    m: "init_entries2 ?s p (int j + 1) n = Some (?s\<lparr>mainMemory := m\<rparr>)" "length m = length (mainMemory s)"
      "\<forall>k<length m. m ! k = (if Suc j \<le> k \<and> k < Suc j + n then set_procc2 p (set_valid 0 (mainMemory ?s ! k))
                             else mainMemory ?s ! k)"
    by (auto simp: add.commute)
  show ?case
  proof (intro exI [of _ m] conjI)
    show "init_entries2 s p (int j) (Suc n) = Some (s\<lparr>mainMemory := m\<rparr>)"
      using m(1) Suc.prems by simp
  qed (use m(2,3) Suc.prems in \<open>auto simp: nth_list_update Suc_le_eq order_le_less\<close>)
qed

lemma pg_modify_twice: "do { s \<leftarrow> pg_modify s p g; pg_modify s p h } = pg_modify s p (\<lambda>b. h (g b))"
  by (cases p) (auto simp: arr_get_def arr_set_def in_range_def)

definition installed :: "int \<Rightarrow> int \<Rightarrow> int \<Rightarrow> byte \<Rightarrow> byte" where
  "installed frame pid write b = set_write write (set_valid 1 (set_procc2 pid (set_frame2 frame b)))"

lemma install_page2_eq: "install_page2 s p frame pid write = pg_modify s p (installed frame pid write)"
  unfolding install_page2_def installed_def
  by (simp only: pg_modify_twice bind_assoc [symmetric])

lemma installed_fields [simp]:
  "f < PAGE_FRAMES \<Longrightarrow> frame2 (installed (int f) p w b) = int f"
  "i < MAX_PROCESSES \<Longrightarrow> procc2 (installed x (int i) w b) = int i"
  "pg_valid (installed x p w b)" "pg_write (installed x p w b) = w mod 2"
  by (simp_all add: installed_def)

end
