(* ===== verification/Demand.thy ===== *)
theory Demand
  imports Reload
begin

text \<open>
  Project4/Part2/pageTable.c, tables and pages on demand: \<open>check_backing_store\<close> brings a stored
  table or page back, \<open>init_table\<close> makes a table when there is none, \<open>find_page\<close> points to an
  entry of a table in memory. They always return, the table of the process is in memory
  afterwards, and, with no page 0 in use, no process sees a difference.
\<close>

definition settle :: "nat \<Rightarrow> pmem2 \<Rightarrow> pmem2 \<Rightarrow> bool" where
  "settle i s s' \<longleftrightarrow> wf2 s' \<and> live2 s' (Tab i) \<and> (no_zero s \<longrightarrow> no_zero s' \<and> view2 s' = view2 s)"

lemma settleD:
  assumes "settle i s s'"
  shows "wf2 s'" "live2 s' (Tab i)" "no_zero s \<Longrightarrow> no_zero s'" "no_zero s \<Longrightarrow> view2 s' = view2 s"
  using assms by (auto simp: settle_def)

lemma settle_refl: "wf2 s \<Longrightarrow> live2 s (Tab i) \<Longrightarrow> settle i s s"
  by (simp add: settle_def)

lemma settle_say [simp]: "settle i s (say m s') = settle i s s'"
  by (simp add: settle_def)

lemma key_table: "key r = (int i, -1) \<Longrightarrow> r = Tab i"
  by (cases r) (auto split: if_splits)

text \<open>The slot that was found is still there after a frame was made free.\<close>

lemma found_slot:
  assumes wf: "wf2 s" and k: "find_slot2 s (int i) n = Some k" and e: "evolve s t"
  shows "k < STORE_FRAMES" "slot_key (backingStore t ! k) = (int i, n)" "slot_ok (backingStore t ! k)"
    "length (sf_data (backingStore t ! k)) = PAGE_SIZE"
proof -
  from find_slot2_SomeD [OF k] have k': "k < STORE_FRAMES" "slot_key (backingStore s ! k) = (int i, n)" by blast+
  then have "backingStore t ! k = backingStore s ! k" using evolveD(4) [OF e k'(1)] by simp
  with k' wf2D(3) [OF wf k'(1)] show "k < STORE_FRAMES" "slot_key (backingStore t ! k) = (int i, n)"
    and ok: "slot_ok (backingStore t ! k)" by (simp_all only:)
  from ok show "length (sf_data (backingStore t ! k)) = PAGE_SIZE" by (simp only: slot_ok_def)
qed

lemma load_table2:
  assumes wf: "wf2 s" and i: "i < MAX_PROCESSES" and dead: "\<not> live2 s (Tab i)"
    and k: "find_slot2 s (int i) (-1) = Some k"
  shows "\<exists>s'. check_backing_store2 s (int i) (-1) = Some (s', 1) \<and> settle i s s'"
proof -
  obtain t f where t: "find_free_frame2 s (int i) = Some (t, int f)" "f < PAGE_FRAMES" "evolve s t" "\<not> used2 t (int f)"
    using find_free_frame2_evolves [OF wf] by blast
  note sl = found_slot [OF wf k t(3)] and wt = evolveD(1) [OF t(3)]
  have lens: "length (mainMemory t) = PHYS_MEM_SIZE" "length (procTable t) = MAX_PROCESSES"
    using wf_refs_lengths [OF wf2D(1) [OF wt]] by blast+
  obtain m where m: "write_bytes2 (mainMemory t) (int f * int PAGE_SIZE) (sf_data (backingStore t ! k)) = Some m"
    "agree_outside f (mainMemory t) m" "frame_bytes m f = sf_data (backingStore t ! k)"
    using write_frame2 [OF lens(1) t(2) sl(4)] by blast
  let ?c = "clear_slot t k"
  let ?p = "installed (int f) (int i) (sf_write (backingStore t ! k)) (procTable t ! i)"
  let ?u = "?c\<lparr>mainMemory := m, procTable := (procTable ?c)[i := ?p]\<rparr>"
  note h = holds_clear_slot [OF wt sl(1,2)]
  have wc: "wf2 ?c" by (rule clear_slot_wf2 [OF wt sl(1)])
  have deadc: "\<not> live2 ?c (Tab i)" using dead evolveD(2) [OF t(3)] by auto
  have holdc: "\<not> holds ?c (int i, -1)" using h by simp
  have entries: "\<not> pg_valid (m ! (f * PAGE_SIZE + j)) \<and> procc2 (m ! (f * PAGE_SIZE + j)) = int i" if "j < PAGE_SIZE" for j
  proof -
    have "length m = PHYS_MEM_SIZE" using m(2) lens(1) by (simp add: agree_outside_def)
    then have "m ! (f * PAGE_SIZE + j) \<in> set (sf_data (backingStore t ! k))"
      using nth_frame_bytes [OF _ t(2) that, of m] that sl(4) m(3) nth_mem by metis
    with sl(2,3) show ?thesis by (simp add: slot_ok_def)
  qed
  have ag: "agree_outside f (mainMemory ?c) m" using m(2) by simp
  have un: "\<not> used2 ?c (int f)" using t(4) by simp
  have p: "pg_valid ?p" "frame2 ?p = int f" "procc2 ?p = int i" using t(2) i by simp_all
  note nt = new_table2 [OF wc i deadc holdc t(2) un ag p entries]
  have "no_zero_but i ?c" if "no_zero t"
    using that h unfolding no_zero_def no_zero_but_def clear_slot_simps by auto
  moreover have "view2 ?c = view2 t"
    using view2_clear_slot [OF wt sl(1,2)] by (auto simp: fun_eq_iff)
  ultimately have "settle i s ?u"
    using nt evolveD(6,7) [OF t(3)] unfolding settle_def by metis
  moreover have "check_backing_store2 s (int i) (-1) = Some (say (LoadedTable (int i) (int f)) ?u, 1)"
    using lens i by (subst check_backing_store2.simps) (simp add: k t(1) m(1) [simplified] install_page2_eq clear_slot_def say_def)
  ultimately show ?thesis by auto
qed

lemma load_page2:
  assumes wf: "wf2 s" and tab: "live2 s (Tab i)" and n: "n < PAGE_SIZE" and dead: "\<not> live2 s (Ent i n)"
    and k: "find_slot2 s (int i) (int n) = Some k"
  shows "\<exists>s'. check_backing_store2 s (int i) (int n) = Some (s', 1) \<and> settle i s s' \<and>
    live2 s' (Ent i n) \<and> tab2 s' i = tab2 s i"
proof -
  obtain t f where t: "find_free_frame2 s (int i) = Some (t, int f)" "f < PAGE_FRAMES" "evolve s t" "\<not> used2 t (int f)"
    "live2 t (Tab i)"
    using find_free_frame2_evolves [OF wf, of i] tab by blast
  note sl = found_slot [OF wf k t(3)] and wt = evolveD(1) [OF t(3)]
  have i: "i < MAX_PROCESSES" using tab by (simp add: live.simps)
  have n0: "n \<noteq> 0" using sl(2,3) by (auto simp: slot_ok_def)
  obtain m where m: "write_bytes2 (mainMemory t) (int f * int PAGE_SIZE) (sf_data (backingStore t ! k)) = Some m"
    "agree_outside f (mainMemory t) m" "frame_bytes m f = sf_data (backingStore t ! k)"
    using write_frame2 [OF wf_refs_lengths(1) [OF wf2D(1) [OF wt]] t(2) sl(4)] by blast
  let ?c = "clear_slot t k"
  let ?d = "?c\<lparr>mainMemory := m\<rparr>"
  let ?w = "sf_write (backingStore t ! k)"
  let ?b = "installed (int f) (int i) ?w (byte2 (t\<lparr>mainMemory := m\<rparr>) (Ent i n))"
  let ?u = "?d\<lparr>mainMemory := (mainMemory ?d)[tab2 ?d i * PAGE_SIZE + n := ?b]\<rparr>"
  have un: "\<not> used2 ?c (int f)" and ag: "agree_outside f (mainMemory ?c) m" using t(4) m(2) by simp_all
  note fl = fill_frame [OF wt t(2,4) m(2)] and fc = fill_frame [OF clear_slot_wf2 [OF wt sl(1)] t(2) un ag]
  note h = holds_clear_slot [OF wt sl(1,2)]
  have deadt: "\<not> live2 t (Ent i n)" using dead evolveD(2) [OF t(3)] by blast
  have tabd: "live2 ?d (Tab i)" using fc(2) t(5) by simp
  have hd: "\<not> holds ?d (int i, int n)" using h by (simp add: fc(6))
  have b: "pg_valid ?b" "frame2 ?b = int f" "procc2 ?b = int i" using t(2) i by simp_all
  note fe = fresh_entry2 [OF fc(1) tabd n hd t(2) fc(5) b]
  have byte: "pg_modify (t\<lparr>mainMemory := m\<rparr>) (MemEntry (frame2 (procTable t ! i) * int PAGE_SIZE + int n)) g =
      Some (t\<lparr>mainMemory := m[tab2 t i * PAGE_SIZE + n := g (byte2 (t\<lparr>mainMemory := m\<rparr>) (Ent i n))]\<rparr>)" for g
    using pg_modify_entry [OF wf2D(1) [OF fl(1)] _ n, of i g] fl(2) [of "Tab i"] t(5) by (simp add: fl(7))
  have find: "find_page2 (t\<lparr>mainMemory := m\<rparr>) (int i) (int n) =
      Some (t\<lparr>mainMemory := m\<rparr>, MemEntry (frame2 (procTable t ! i) * int PAGE_SIZE + int n))"
    using t(5) pg_read_proc [OF wf2D(1) [OF wt] i] by (subst find_page2.simps) (simp add: live.simps)
  have "check_backing_store2 s (int i) (int n) = Some (say (LoadedPage (int n) (int i) (int f)) ?u, 1)"
    using find byte
    by (subst check_backing_store2.simps)
      (simp add: k t(1) m(1) [simplified] install_page2_eq clear_slot_def say_def tabf_def)
  moreover have "view2 ?u = view2 t"
  proof -
    have "view2 ?d = view2 ?c" by (rule view2_same [OF fc(4)]) simp
    moreover have "view2 ?c = (view2 t)((i, n) := None)"
      using view2_clear_slot [OF wt sl(1,2)] deadt by (auto simp: fun_eq_iff)
    moreover have "view2 t (i, n) = Some (?w \<noteq> 0, sf_data (backingStore t ! k))"
      by (rule view2_stored [OF wf2D(6) [OF wt] sl(1,2) deadt])
    moreover have "?w mod 2 = ?w" using sl(2,3) by (auto simp: slot_ok_def)
    ultimately show ?thesis using fe(5) m(3) by (auto simp: fun_eq_iff)
  qed
  moreover have "no_zero ?d" if "no_zero t"
    using that h fc(2) n0 unfolding no_zero_def fc(6) by auto
  ultimately show ?thesis
    using fe(1-3) n0 evolveD(6,7) [OF t(3)] tabd evolveD(3) [OF t(3,5)]
    by (auto simp: settle_def tabf_def ref_byte.simps)
qed

section \<open>check_backing_store, init_table and find_page\<close>

lemma check_table2:
  assumes "wf2 s" "i < MAX_PROCESSES" "\<not> live2 s (Tab i)"
  shows "\<exists>s' c. check_backing_store2 s (int i) (-1) = Some (s', c) \<and>
    (if holds s (int i, -1) then c = 1 \<and> settle i s s' else c = 0 \<and> s' = s)"
proof (cases "find_slot2 s (int i) (-1)")
  case None
  then show ?thesis by (subst check_backing_store2.simps) (simp add: find_slot2_None [symmetric])
next
  case (Some k)
  from load_table2 [OF assms Some] Some show ?thesis by (simp add: find_slot2_None [symmetric])
qed

lemma check_page2:
  assumes "wf2 s" "live2 s (Tab i)" "n < PAGE_SIZE" "\<not> live2 s (Ent i n)"
  shows "\<exists>s' c. check_backing_store2 s (int i) (int n) = Some (s', c) \<and>
    (if holds s (int i, int n) then c = 1 \<and> settle i s s' \<and> live2 s' (Ent i n) \<and> tab2 s' i = tab2 s i
     else c = 0 \<and> s' = s)"
proof (cases "find_slot2 s (int i) (int n)")
  case None
  then show ?thesis by (subst check_backing_store2.simps) (simp add: find_slot2_None [symmetric])
next
  case (Some k)
  from load_page2 [OF assms Some] Some show ?thesis by (simp add: find_slot2_None [symmetric])
qed

lemma init_table2_settles:
  assumes wf: "wf2 s" and i: "i < MAX_PROCESSES" and dead: "\<not> live2 s (Tab i)"
  shows "\<exists>s'. init_table2 s (int i) = Some s' \<and> settle i s s'"
proof (cases "holds s (int i, -1)")
  case True
  with check_table2 [OF assms] show ?thesis by (subst init_table2.simps) auto
next
  case False
  then have c: "check_backing_store2 s (int i) (-1) = Some (s, 0)" using check_table2 [OF assms] by auto
  obtain t f where t: "find_free_frame2 s (int i) = Some (t, int f)" "f < PAGE_FRAMES" "evolve s t" "\<not> used2 t (int f)"
    using find_free_frame2_evolves [OF wf] by blast
  note wt = evolveD(1) [OF t(3)]
  have lens: "length (mainMemory t) = PHYS_MEM_SIZE" "length (procTable t) = MAX_PROCESSES"
    using wf_refs_lengths [OF wf2D(1) [OF wt]] by blast+
  have deadt: "\<not> live2 t (Tab i)" using dead evolveD(2) [OF t(3)] by blast
  have ht: "\<not> holds t (int i, -1)"
    using evolve_holds [OF t(3), of i "-1"] False dead key_table by (auto simp del: key.simps)
  let ?p = "set_frame2 (int f) (set_write 1 (set_procc2 (int i) (set_valid 1 (procTable t ! i))))"
  let ?t = "t\<lparr>procTable := (procTable t)[i := ?p]\<rparr>"
  obtain m where m: "init_entries2 ?t (int i) (int (f * PAGE_SIZE)) PAGE_SIZE = Some (?t\<lparr>mainMemory := m\<rparr>)"
    "length m = PHYS_MEM_SIZE"
    "\<And>k. k < PHYS_MEM_SIZE \<Longrightarrow> m ! k = (if f * PAGE_SIZE \<le> k \<and> k < f * PAGE_SIZE + PAGE_SIZE
       then set_procc2 (int i) (set_valid 0 (mainMemory t ! k)) else mainMemory t ! k)"
    using init_entries2_eq [of "f * PAGE_SIZE" PAGE_SIZE ?t "int i"] lens t(2) by auto
  have ag: "agree_outside f (mainMemory t) m"
    by (rule agree_outside_range [OF lens(1) m(2)]) (auto simp: m(3))
  have entries: "\<not> pg_valid (m ! (f * PAGE_SIZE + k)) \<and> procc2 (m ! (f * PAGE_SIZE + k)) = int i" if "k < PAGE_SIZE" for k
    using m(3) [OF index_frame_less [OF t(2) that]] that i by simp
  have p: "pg_valid ?p" "frame2 ?p = int f" "procc2 ?p = int i" using t(2) i by simp_all
  note nt = new_table2 [OF wt i deadt ht t(2,4) ag p entries]
  let ?u = "t\<lparr>mainMemory := m, procTable := (procTable t)[i := ?p]\<rparr>"
  have "init_table2 s (int i) = Some (say (PutTable (int i) (int f)) ?u)"
    using m(1) lens i by (subst init_table2.simps) (simp add: c t(1))
  moreover have "settle i s ?u"
    using nt no_zero_butI evolveD(6,7) [OF t(3)] unfolding settle_def by metis
  ultimately show ?thesis by auto
qed

lemma find_page2_settles:
  assumes wf: "wf2 s" and i: "i < MAX_PROCESSES"
  shows "\<exists>s'. find_page2 s (int i) (int n) = Some (s', ptr s' (Ent i n)) \<and> settle i s s' \<and>
    (live2 s (Tab i) \<longrightarrow> s' = s)"
proof -
  have ent: "MemEntry (frame2 (procTable u ! i) * int PAGE_SIZE + int n) = ptr u (Ent i n)"
    if "settle i s u" for u
    using wf_refs_tabf(2) [OF wf2D(1) [OF settleD(1) [OF that]] settleD(2) [OF that]] by simp
  note read = pg_read_proc [OF wf2D(1) i]
  show ?thesis
  proof (cases "live2 s (Tab i)")
    case True
    from settle_refl [OF wf True] ent [OF settle_refl [OF wf True]] True read [OF wf] show ?thesis
      by (subst find_page2.simps) (simp add: live.simps)
  next
    case False
    then obtain u where u: "init_table2 s (int i) = Some u" "settle i s u"
      using init_table2_settles [OF wf i] by blast
    have "\<not> pg_valid (procTable s ! i)" using False i by (simp add: live.simps)
    with u ent [OF u(2)] False read [OF wf] read [OF settleD(1) [OF u(2)]] show ?thesis
      by (subst find_page2.simps) (simp del: ptr.simps pg_read.simps)
  qed
qed

end
