(* ===== verification/Mem2.thy ===== *)
theory Mem2
  imports Demand Mem
begin

text \<open>
  Project4/Part2: \<open>map_page\<close>, \<open>store\<close> and \<open>load\<close> of pageTable.c over the swapping
  machinery, and \<open>main\<close> of mem.c. Every command keeps the invariant. With no page 0 in use the
  paging system is a faithful virtual memory (an instance of \<open>pager\<close>) although memory has
  four frames only.
\<close>

declare live.simps [simp del] ref_byte.simps [simp del]

text \<open>\<open>main\<close> initialises the two arrays and then runs the loop.\<close>

definition mem2_main :: "string \<Rightarrow> pmem2 option" where
  "mem2_main inp = mem_loop map_page2 store2 load2 (init2 boot2) inp"

section \<open>Locating a page\<close>

lemma table_missing2_cases:
  assumes wf: "wf2 s" and i: "i < MAX_PROCESSES"
  shows "\<exists>t b. table_missing2 s (int i) = Some (t, b) \<and>
    (if b then t = s \<and> \<not> live2 s (Tab i) \<and> \<not> holds s (int i, -1) else settle i s t)"
proof (cases "live2 s (Tab i)")
  case True
  with settle_refl [OF wf True] pg_read_proc [OF wf2D(1) [OF wf] i] show ?thesis
    by (intro exI [of _ s] exI [of _ False]) (simp add: table_missing2_def live.simps del: pg_read.simps)
next
  case False
  then have "\<not> pg_valid (procTable s ! i)" using i by (simp add: live.simps)
  moreover obtain t c where "check_backing_store2 s (int i) (-1) = Some (t, c)"
    "if holds s (int i, -1) then c = 1 \<and> settle i s t else c = 0 \<and> t = s"
    using check_table2 [OF wf i False] by blast
  ultimately show ?thesis
    using False pg_read_proc [OF wf2D(1) [OF wf] i]
    by (intro exI [of _ t] exI [of _ "\<not> holds s (int i, -1)"])
      (simp add: table_missing2_def del: pg_read.simps split: if_splits)
qed

lemma pg_read_Ent:
  assumes "wf2 s" "live2 s (Tab i)" "n < PAGE_SIZE"
  shows "pg_read s (ptr s (Ent i n)) = Some (byte2 s (Ent i n))"
  using pg_read_entry [OF wf2D(1) [OF assms(1)] assms(2,3)] wf_refs_tabf(2) [OF wf2D(1) [OF assms(1)] assms(2)]
  by (simp del: pg_read.simps)

lemma pg_modify_Ent:
  assumes "wf2 s" "live2 s (Tab i)" "n < PAGE_SIZE"
  shows "pg_modify s (ptr s (Ent i n)) g =
    Some (s\<lparr>mainMemory := (mainMemory s)[tab2 s i * PAGE_SIZE + n := g (byte2 s (Ent i n))]\<rparr>)"
  using pg_modify_entry [OF wf2D(1) [OF assms(1)] assms(2,3)] wf_refs_tabf(2) [OF wf2D(1) [OF assms(1)] assms(2)]
  by (simp del: pg_modify.simps pg_modify_mem)

lemma page_missing2_cases:
  assumes wf: "wf2 s" and tab: "live2 s (Tab i)" and n: "n < PAGE_SIZE"
  shows "\<exists>t b. page_missing2 s (ptr s (Ent i n)) (int i) (int n) = Some (t, b) \<and>
    (if b then t = s \<and> \<not> live2 s (Ent i n) \<and> \<not> holds s (int i, int n)
     else settle i s t \<and> live2 t (Ent i n) \<and> ptr t (Ent i n) = ptr s (Ent i n))"
proof (cases "live2 s (Ent i n)")
  case True
  with settle_refl [OF wf tab] pg_read_Ent [OF assms] show ?thesis
    by (intro exI [of _ s] exI [of _ False]) (simp add: page_missing2_def live.simps del: pg_read.simps ptr.simps)
next
  case False
  then have "\<not> pg_valid (byte2 s (Ent i n))" using tab n by (simp add: live.simps)
  moreover obtain t c where "check_backing_store2 s (int i) (int n) = Some (t, c)"
    "if holds s (int i, int n) then c = 1 \<and> settle i s t \<and> live2 t (Ent i n) \<and> tab2 t i = tab2 s i
     else c = 0 \<and> t = s"
    using check_page2 [OF assms False] by blast
  ultimately show ?thesis
    using False pg_read_Ent [OF assms]
    by (intro exI [of _ t] exI [of _ "\<not> holds s (int i, int n)"])
      (simp add: page_missing2_def del: pg_read.simps split: if_splits)
qed

text \<open>What \<open>store\<close> and \<open>load\<close> do before they touch a byte.\<close>

lemma locate2:
  assumes wf: "wf2 s" and i: "i < MAX_PROCESSES" and n: "n < PAGE_SIZE"
  obtains (no_table) "table_missing2 s (int i) = Some (s, True)" "no_zero s \<Longrightarrow> view2 s (i, n) = None"
  | (no_page) t where "table_missing2 s (int i) = Some (t, False)" "find_page2 t (int i) (int n) = Some (t, ptr t (Ent i n))"
      "page_missing2 t (ptr t (Ent i n)) (int i) (int n) = Some (t, True)" "settle i s t"
      "no_zero s \<Longrightarrow> view2 s (i, n) = None"
  | (found) t u where "table_missing2 s (int i) = Some (t, False)" "find_page2 t (int i) (int n) = Some (t, ptr u (Ent i n))"
      "page_missing2 t (ptr u (Ent i n)) (int i) (int n) = Some (u, False)" "settle i s u" "live2 u (Ent i n)"
proof -
  from table_missing2_cases [OF wf i] obtain t b where tm: "table_missing2 s (int i) = Some (t, b)"
    "if b then t = s \<and> \<not> live2 s (Tab i) \<and> \<not> holds s (int i, -1) else settle i s t" by blast
  show thesis
  proof (cases b)
    case True
    with tm have d: "\<not> live2 s (Tab i)" "\<not> holds s (int i, -1)" by simp_all
    have "view2 s (i, n) = None" if "no_zero s"
    proof (rule view2_None)
      show "\<not> live2 s (Ent i n)" using d(1) live_Ent_Tab by blast
      show "\<not> holds s (int i, int n)" using that d unfolding no_zero_def by blast
    qed
    with no_table tm True show thesis by simp
  next
    case False
    with tm have t: "settle i s t" by simp
    have f: "find_page2 t (int i) (int n) = Some (t, ptr t (Ent i n))"
      using find_page2_settles [OF settleD(1) [OF t] i, of n] settleD(2) [OF t] by auto
    from page_missing2_cases [OF settleD(1,2) [OF t] n] obtain u c where
      pm: "page_missing2 t (ptr t (Ent i n)) (int i) (int n) = Some (u, c)"
      "if c then u = t \<and> \<not> live2 t (Ent i n) \<and> \<not> holds t (int i, int n)
       else settle i t u \<and> live2 u (Ent i n) \<and> ptr u (Ent i n) = ptr t (Ent i n)" by blast
    show thesis
    proof (cases c)
      case True
      with pm(2) have "view2 t (i, n) = None" using view2_None by simp
      then have "view2 s (i, n) = None" if "no_zero s" using settleD(4) [OF t that] by simp
      with no_page [OF _ f _ t] tm(1) False pm True show thesis by (simp del: ptr.simps)
    next
      case c: False
      with pm(2) have u: "settle i t u" "live2 u (Ent i n)" "ptr u (Ent i n) = ptr t (Ent i n)" by simp_all
      have "settle i s u" using t u(1) by (auto simp: settle_def)
      with found [of t u] tm(1) False f pm(1) u(2,3) c show thesis by simp
    qed
  qed
qed

section \<open>The three commands\<close>

lemma store2_refines:
  assumes wf: "wf2 s" and i: "i < MAX_PROCESSES" and a: "0 \<le> a" "a < int VIRT_ADD_SPACE"
  shows "\<exists>s' c. store2 s (int i) a v = Some (s', c) \<and> wf2 s' \<and>
    (no_zero s \<longrightarrow> no_zero s' \<and> (view2 s', c) = spec_store (view2 s) i a v)"
proof -
  let ?n = "page_no a" and ?o = "page_off a"
  have n: "?n < PAGE_SIZE" using page_no_less [OF a] by simp
  note div = sdiv_page [OF a(1), simplified] smod_page [OF a(1), simplified]
  from wf i n show ?thesis
  proof (cases rule: locate2)
    case no_table
    then have "store2 s (int i) a v = Some (say (NoPages (int i)) s, 0)" by (simp add: store2_def)
    with no_table(2) wf show ?thesis by (simp add: spec_store_def)
  next
    case (no_page t)
    then have "store2 s (int i) a v = Some (say (NoFrameMapped a (int i)) t, 0)"
      by (simp add: store2_def div del: ptr.simps)
    with no_page(5) settleD [OF no_page(4)] show ?thesis by (simp add: spec_store_def)
  next
    case (found t u)
    note wu = settleD(1) [OF found(4)]
    let ?b = "byte2 u (Ent i ?n)"
    let ?g = "nat (ref_frame frame2 u (Ent i ?n))"
    let ?w = "u\<lparr>mainMemory := (mainMemory u)[?g * PAGE_SIZE + ?o := v]\<rparr>"
    note sb = store_byte2 [OF wu found(5) page_off_less, where v = v]
    have idx: "frame2 ?b * int PAGE_SIZE + int ?o = int (?g * PAGE_SIZE + ?o)" "?g * PAGE_SIZE + ?o < length (mainMemory u)"
      using data_index [OF wf2D(1) [OF wu] found(5), of ?o] by (simp_all add: ref_frame_def)
    have r: "pg_read u (ptr u (Ent i ?n)) = Some ?b" by (rule pg_read_ptr [OF wf2D(1) [OF wu] found(5)])
    have r': "pg_read ?w (ptr u (Ent i ?n)) = Some ?b"
      using pg_read_Ent [OF sb(1) _ n, where i = i] sb(3,4) settleD(2) [OF found(4)]
      by (simp add: live.simps del: pg_read.simps)
    have V: "view2 u (i, ?n) = Some (pg_write ?b \<noteq> 0, frame_bytes (mainMemory u) ?g)" by (rule view2_live [OF found(5)])
    show ?thesis
    proof (cases "pg_write ?b = 0")
      case True
      then have "store2 s (int i) a v = Some (say (WriteForbidden a (int i)) u, 0)"
        using found(1-3) r by (simp add: store2_def div del: ptr.simps pg_read.simps)
      with True V settleD [OF found(4)] show ?thesis by (auto simp: spec_store_def split: option.splits)
    next
      case False
      have "\<exists>msg. store2 s (int i) a v = Some (say msg ?w, 1)"
        using found(1-3) r r' idx False
        by (intro exI, simp add: store2_def div del: ptr.simps pg_read.simps of_nat_add of_nat_mult)
      then obtain msg where "store2 s (int i) a v = Some (say msg ?w, 1)" by blast
      moreover have "(view2 ?w, 1) = spec_store (view2 u) i a v" using V False sb(5) by (simp add: spec_store_def)
      ultimately show ?thesis using sb(1,2) settleD(3,4) [OF found(4)] by simp
    qed
  qed
qed

lemma load2_refines:
  assumes wf: "wf2 s" and i: "i < MAX_PROCESSES" and a: "0 \<le> a" "a < int VIRT_ADD_SPACE"
  shows "\<exists>s' c out. load2 s (int i) a = Some (s', c, out) \<and> wf2 s' \<and>
    (no_zero s \<longrightarrow> no_zero s' \<and> view2 s' = view2 s \<and> out = spec_load (view2 s) i a \<and>
       c = (if out = None then 0 else 1))"
proof -
  let ?n = "page_no a" and ?o = "page_off a"
  have n: "?n < PAGE_SIZE" using page_no_less [OF a] by simp
  note div = sdiv_page [OF a(1), simplified] smod_page [OF a(1), simplified]
  from wf i n show ?thesis
  proof (cases rule: locate2)
    case no_table
    then have "load2 s (int i) a = Some (say (NoPages (int i)) s, 0, None)" by (simp add: load2_def)
    with no_table(2) wf show ?thesis by (simp add: spec_load_def)
  next
    case (no_page t)
    then have "load2 s (int i) a = Some (say (NoFrameMapped a (int i)) t, 0, None)"
      by (simp add: load2_def div del: ptr.simps)
    with no_page(5) settleD [OF no_page(4)] show ?thesis by (simp add: spec_load_def)
  next
    case (found t u)
    note wu = settleD(1) [OF found(4)]
    let ?b = "byte2 u (Ent i ?n)"
    let ?g = "nat (ref_frame frame2 u (Ent i ?n))"
    have idx: "frame2 ?b * int PAGE_SIZE + int ?o = int (?g * PAGE_SIZE + ?o)" "?g * PAGE_SIZE + ?o < length (mainMemory u)"
      using data_index [OF wf2D(1) [OF wu] found(5), of ?o] by (simp_all add: ref_frame_def)
    have r: "pg_read u (ptr u (Ent i ?n)) = Some ?b" by (rule pg_read_ptr [OF wf2D(1) [OF wu] found(5)])
    have "\<exists>msg. load2 s (int i) a = Some (say msg u, 1, Some (mainMemory u ! (?g * PAGE_SIZE + ?o)))"
      using found(1-3) r idx
      by (intro exI, simp add: load2_def div del: ptr.simps pg_read.simps of_nat_add of_nat_mult)
    then obtain msg where l: "load2 s (int i) a = Some (say msg u, 1, Some (mainMemory u ! (?g * PAGE_SIZE + ?o)))" by blast
    have "?g < PAGE_FRAMES" using wf_refs_frame [OF wf2D(1) [OF wu] found(5)] by (auto simp: in_range_def)
    then have "spec_load (view2 u) i a = Some (mainMemory u ! (?g * PAGE_SIZE + ?o))"
      using view2_live [OF found(5)] wf_refs_lengths(1) [OF wf2D(1) [OF wu]] by (simp add: spec_load_def nth_frame_bytes)
    with l settleD [OF found(4)] show ?thesis by auto
  qed
qed

text \<open>The tail of \<open>map_page\<close>: the write permission of a page that is in memory.\<close>

definition permit2 :: "pmem2 \<Rightarrow> pmem2 \<Rightarrow> nat \<Rightarrow> nat \<Rightarrow> int \<Rightarrow> bool" where
  "permit2 v v' i n w \<longleftrightarrow> wf2 v' \<and> live2 v' (Ent i n) \<and> (n \<noteq> 0 \<longrightarrow> no_zero v \<longrightarrow> no_zero v') \<and>
     view2 v' = (view2 v)((i, n) \<mapsto> (odd w, snd (the (view2 v (i, n)))))"

lemma permit2_modify:
  assumes wf: "wf2 v" and lv: "live2 v (Ent i n)"
  shows "\<exists>v'. pg_modify (say m v) (ptr v (Ent i n)) (set_write w) = Some v' \<and> permit2 v v' i n w"
proof -
  have n: "n < PAGE_SIZE" using lv by (simp add: live.simps)
  have p: "ptr (say m v) (Ent i n) = ptr v (Ent i n)" by (simp add: tabf_def)
  have wf': "wf2 (say m v)" "live2 (say m v) (Ent i n)" "live2 (say m v) (Tab i)" using wf lv live_Ent_Tab by auto
  note rw = rewrite_entry2 [OF wf'(1,2), of w]
  have "permit2 v ((say m v)\<lparr>mainMemory := (mainMemory (say m v))[tab2 (say m v) i * PAGE_SIZE + n :=
      set_write w (byte2 (say m v) (Ent i n))]\<rparr>) i n w"
    unfolding permit2_def using rw lv by (simp add: view2_live ref_frame_def)
  with pg_modify_Ent [OF wf'(1,3) n, of "set_write w"] show ?thesis unfolding p by blast
qed

lemma permit2_tail:
  assumes wf: "wf2 v" and lv: "live2 v (Ent i n)"
  shows "\<exists>v'. do { b \<leftarrow> pg_read v (ptr v (Ent i n));
       s \<leftarrow> (if pg_write b \<noteq> w then pg_modify (say m v) (ptr v (Ent i n)) (set_write w) else Some v);
       Some (s, c) } = Some (v', c) \<and> permit2 v v' i n w"
proof (cases "pg_write (byte2 v (Ent i n)) = w")
  case True
  then have "odd w \<longleftrightarrow> pg_write (byte2 v (Ent i n)) \<noteq> 0" using pg_write_cases [of "byte2 v (Ent i n)"] by auto
  then have "permit2 v v i n w" using assms view2_live [OF lv] by (auto simp: permit2_def)
  with True pg_read_ptr [OF wf2D(1) [OF wf] lv] show ?thesis by (simp del: ptr.simps pg_read.simps)
next
  case False
  with permit2_modify [OF assms, of m w] pg_read_ptr [OF wf2D(1) [OF wf] lv] show ?thesis
    by (auto simp del: ptr.simps pg_read.simps pg_modify.simps)
qed

text \<open>The middle of \<open>map_page\<close>: the page is new and gets a free frame.\<close>

lemma map_fresh2:
  assumes wf: "wf2 t" and tab: "live2 t (Tab i)" and n: "n < PAGE_SIZE"
    and dead: "\<not> live2 t (Ent i n)" "\<not> holds t (int i, int n)"
  obtains u f v where "find_free_frame2 t (int i) = Some (u, int f)"
    "do { s \<leftarrow> pg_modify u (ptr t (Ent i n)) (set_frame2 (int f)); s \<leftarrow> pg_modify s (ptr t (Ent i n)) (set_valid 1);
       pg_modify s (ptr t (Ent i n)) (set_write w) } = Some v"
    "wf2 v" "live2 v (Ent i n)" "ptr v (Ent i n) = ptr t (Ent i n)"
    "n \<noteq> 0 \<Longrightarrow> no_zero t \<Longrightarrow> no_zero v \<and> (\<exists>d. length d = PAGE_SIZE \<and> view2 v = (view2 t)((i, n) \<mapsto> (odd w, d)))"
proof -
  obtain u f where u: "find_free_frame2 t (int i) = Some (u, int f)" "f < PAGE_FRAMES" "evolve t u" "\<not> used2 u (int f)"
    "live2 u (Tab i)" using find_free_frame2_evolves [OF wf, of i] tab by blast
  note wu = evolveD(1) [OF u(3)]
  let ?b = "set_write w (set_valid 1 (set_frame2 (int f) (byte2 u (Ent i n))))"
  let ?v = "u\<lparr>mainMemory := (mainMemory u)[tab2 u i * PAGE_SIZE + n := ?b]\<rparr>"
  have hu: "\<not> holds u (int i, int n)" if "n \<noteq> 0"
  proof
    assume "holds u (int i, int n)"
    moreover have "\<not> live2 t r" if "key r = (int i, int n)" for r
      using that dead(1) by (cases r) (auto split: if_splits)
    ultimately have "holds t (int i, int n)" using evolve_holds [OF u(3), of i "int n"] by simp
    with dead(2) show False by contradiction
  qed
  have b: "pg_valid ?b" "frame2 ?b = int f" "procc2 ?b = int i"
    using u(2) wf2D(5) [OF wu] u(5) n by (simp_all add: owned_def)
  note fe = fresh_entry2 [OF wu u(5) n hu u(2,4) b]
  have p: "ptr u (Ent i n) = ptr t (Ent i n)" using evolveD(3) [OF u(3,5)] by (simp add: tabf_def ref_byte.simps)
  have md: "do { s \<leftarrow> pg_modify u (ptr t (Ent i n)) (set_frame2 (int f)); s \<leftarrow> pg_modify s (ptr t (Ent i n)) (set_valid 1);
       pg_modify s (ptr t (Ent i n)) (set_write w) } = Some ?v"
    unfolding p [symmetric] using pg_modify_Ent [OF wu u(5) n, of "\<lambda>b. set_write w (set_valid 1 (set_frame2 (int f) b))"]
    by (simp only: pg_modify_twice bind_assoc [symmetric])
  have len: "length (frame_bytes (mainMemory u) f) = PAGE_SIZE"
    using u(2) wf_refs_lengths(1) [OF wf2D(1) [OF wu]] by simp
  have "pg_write ?b \<noteq> 0 \<longleftrightarrow> odd w" by (simp add: odd_iff_mod_2_eq_one)
  then have vw: "view2 ?v = (view2 u)((i, n) \<mapsto> (odd w, frame_bytes (mainMemory u) f))" using fe(5) by simp
  have pv: "ptr ?v (Ent i n) = ptr t (Ent i n)" using p by (simp add: tabf_def)
  have lv: "live2 ?v (Ent i n)" using fe(3) by blast
  have "no_zero ?v \<and> (\<exists>d. length d = PAGE_SIZE \<and> view2 ?v = (view2 t)((i, n) \<mapsto> (odd w, d)))"
    if "n \<noteq> 0" "no_zero t"
    using fe(2) that evolveD(6,7) [OF u(3) that(2)] vw len
    by (intro conjI exI [of _ "frame_bytes (mainMemory u) f"]) simp_all
  with that [OF u(1) md fe(1) lv pv] show thesis by blast
qed

lemma map_page2_refines:
  assumes wf: "wf2 s" and i: "i < MAX_PROCESSES" and a: "0 \<le> a" "a < int VIRT_ADD_SPACE"
  shows "\<exists>s' c. map_page2 s (int i) a w = Some (s', c) \<and> wf2 s' \<and> live2 s' (Ent i (page_no a)) \<and>
    (no_zero s \<longrightarrow> page_no a \<noteq> 0 \<longrightarrow> no_zero s' \<and> spec_map (view2 s) i a (odd w) (view2 s') \<and>
       view2 s' (i, page_no a) \<noteq> None)"
proof -
  let ?n = "page_no a"
  have n: "?n < PAGE_SIZE" using page_no_less [OF a] by simp
  note div = sdiv_page [OF a(1), simplified]
  obtain t where t: "find_page2 s (int i) (int ?n) = Some (t, ptr t (Ent i ?n))" "settle i s t"
    using find_page2_settles [OF wf i] by blast
  note wt = settleD(1) [OF t(2)] and tt = settleD(2) [OF t(2)] and st = settleD(3,4) [OF t(2)]
  have read: "pg_read t (ptr t (Ent i ?n)) = Some (byte2 t (Ent i ?n))" by (rule pg_read_Ent [OF wt tt n])
  have seen: "?thesis" if "map_page2 s (int i) a w = Some (v', c)" "permit2 v v' i ?n w"
    and that_3: "no_zero s \<Longrightarrow> ?n \<noteq> 0 \<Longrightarrow> no_zero v \<and> (view2 v = view2 s \<and> view2 s (i, ?n) \<noteq> None \<or>
       view2 s (i, ?n) = None \<and> (\<exists>d. length d = PAGE_SIZE \<and> view2 v = (view2 s)((i, ?n) \<mapsto> (odd w, d))))" for v v' c
  proof -
    have v': "wf2 v'" "live2 v' (Ent i ?n)" "?n \<noteq> 0 \<Longrightarrow> no_zero v \<Longrightarrow> no_zero v'"
      "view2 v' = (view2 v)((i, ?n) \<mapsto> (odd w, snd (the (view2 v (i, ?n)))))"
      using that(2) by (simp_all add: permit2_def)
    have "no_zero v' \<and> spec_map (view2 s) i a (odd w) (view2 v') \<and> view2 v' (i, ?n) \<noteq> None"
      if nz: "no_zero s" "?n \<noteq> 0"
    proof -
      from that_3 [OF nz] consider (old) "no_zero v" "view2 v = view2 s" "view2 s (i, ?n) \<noteq> None"
        | (new) d where "no_zero v" "view2 s (i, ?n) = None" "length d = PAGE_SIZE" "view2 v = (view2 s)((i, ?n) \<mapsto> (odd w, d))"
        by blast
      then show ?thesis
      proof cases
        case old
        then show ?thesis using v'(3,4) nz by (auto simp: spec_map_def)
      next
        case (new d)
        then have "view2 v' = (view2 s)((i, ?n) \<mapsto> (odd w, d))" using v'(4) by simp
        with new v'(3) nz show ?thesis by (auto simp: spec_map_def intro!: exI [of _ d])
      qed
    qed
    with that(1) v'(1,2) show ?thesis by blast
  qed
  show ?thesis
  proof (cases "live2 t (Ent i ?n)")
    case True
    from permit2_modify [OF wt True] obtain v' where
      v': "pg_modify (say (UpdatingWrite (int ?n)) t) (ptr t (Ent i ?n)) (set_write w) = Some v'" "permit2 t v' i ?n w" by blast
    have "map_page2 s (int i) a w = Some (v', 0)"
      using t(1) read v'(1) True by (simp add: map_page2_def div live.simps del: ptr.simps pg_read.simps pg_modify.simps)
    then show ?thesis by (rule seen [OF _ v'(2)]) (use st view2_live [OF True] in auto)
  next
    case False
    then have inv: "\<not> pg_valid (byte2 t (Ent i ?n))" using tt n by (simp add: live.simps)
    obtain u c where u: "check_backing_store2 t (int i) (int ?n) = Some (u, c)"
      "if holds t (int i, int ?n) then c = 1 \<and> settle i t u \<and> live2 u (Ent i ?n) \<and> tab2 u i = tab2 t i
       else c = 0 \<and> u = t" using check_page2 [OF wt tt n False] by blast
    show ?thesis
    proof (cases "holds t (int i, int ?n)")
      case True
      with u(2) have u': "c = 1" "settle i t u" "live2 u (Ent i ?n)" "ptr u (Ent i ?n) = ptr t (Ent i ?n)" by simp_all
      from permit2_tail [OF settleD(1) [OF u'(2)] u'(3), of w "UpdatingWrite (int ?n)" 1] obtain v' where
        v': "do { b \<leftarrow> pg_read u (ptr u (Ent i ?n)); s \<leftarrow> (if pg_write b \<noteq> w then
          pg_modify (say (UpdatingWrite (int ?n)) u) (ptr u (Ent i ?n)) (set_write w) else Some u); Some (s, 1::int) } = Some (v', 1)"
        "permit2 u v' i ?n w" by blast
      have "map_page2 s (int i) a w = Some (v', 1)"
        using t(1) read inv u(1) u'(1) v'(1) [unfolded u'(4)]
        by (simp add: map_page2_def div del: ptr.simps pg_read.simps pg_modify.simps cong: if_cong)
      then show ?thesis by (rule seen [OF _ v'(2)]) (use st settleD(3,4) [OF u'(2)] view2_live [OF u'(3)] in auto)
    next
      case held: False
      with u(2) have c: "c = 0" "u = t" by simp_all
      obtain x f v where x: "find_free_frame2 t (int i) = Some (x, int f)"
        "do { s \<leftarrow> pg_modify x (ptr t (Ent i ?n)) (set_frame2 (int f)); s \<leftarrow> pg_modify s (ptr t (Ent i ?n)) (set_valid 1);
          pg_modify s (ptr t (Ent i ?n)) (set_write w) } = Some v"
        "wf2 v" "live2 v (Ent i ?n)" "ptr v (Ent i ?n) = ptr t (Ent i ?n)"
        "?n \<noteq> 0 \<Longrightarrow> no_zero t \<Longrightarrow> no_zero v \<and> (\<exists>d. length d = PAGE_SIZE \<and> view2 v = (view2 t)((i, ?n) \<mapsto> (odd w, d)))"
        using map_fresh2 [OF wt tt n False held] by blast
      let ?v = "say (MappedPage a (int ?n) (int f)) v"
      have lv: "wf2 ?v" "live2 ?v (Ent i ?n)" "ptr ?v (Ent i ?n) = ptr t (Ent i ?n)" using x(3-5) by (simp_all add: tabf_def)
      from permit2_tail [OF lv(1,2), of w "UpdatingWrite (int ?n)" 1] obtain v' where
        v': "do { b \<leftarrow> pg_read ?v (ptr ?v (Ent i ?n)); s \<leftarrow> (if pg_write b \<noteq> w then
          pg_modify (say (UpdatingWrite (int ?n)) ?v) (ptr ?v (Ent i ?n)) (set_write w) else Some ?v); Some (s, 1::int) } = Some (v', 1)"
        "permit2 ?v v' i ?n w" by blast
      have "map_page2 s (int i) a w = Some (v', 1)"
        using t(1) read inv u(1) c x(1,2) v'(1) [unfolded lv(3)]
        by (simp add: map_page2_def div bind_assoc [symmetric] del: ptr.simps pg_read.simps pg_modify.simps bind_assoc
            cong: if_cong)
      then show ?thesis by (rule seen [OF _ v'(2)]) (use st x(6) view2_None [OF False held] in auto)
    qed
  qed
qed

section \<open>The pager of Part2\<close>

lemma view2_length:
  assumes "wf2 s" "view2 s (i, n) = Some (p, d)"
  shows "length d = PAGE_SIZE"
proof (cases "live2 s (Ent i n)")
  case True
  with assms view2_live [OF True] wf_refs_frame [OF wf2D(1) [OF assms(1)] True]
    wf_refs_lengths(1) [OF wf2D(1) [OF assms(1)]] show ?thesis by (auto simp: in_range_def)
next
  case False
  with assms(2) obtain k where "find_slot2 s (int i) (int n) = Some k" "d = sf_data (backingStore s ! k)"
    by (auto simp: view2_def)
  with find_slot2_SomeD wf2D(3) [OF assms(1)] show ?thesis unfolding slot_ok_def by blast
qed

interpretation pager2: pager map_page2 store2 load2 "\<lambda>s. wf2 s \<and> no_zero s" view2 "{1..<4}"
proof unfold_locales
  fix s :: pmem2 and i a w v
  assume s: "wf2 s \<and> no_zero s" and i: "i < MAX_PROCESSES" and a: "0 \<le> a" "a < int VIRT_ADD_SPACE"
    and n: "page_no a \<in> {1..<4}"
  from s have wf: "wf2 s" and nz: "no_zero s" by blast+
  show "\<exists>s' c. map_page2 s (int i) a w = Some (s', c) \<and> (wf2 s' \<and> no_zero s') \<and>
      spec_map (view2 s) i a (odd w) (view2 s')"
    using map_page2_refines [OF wf i a, of w] nz n by auto
  show "\<exists>s'. store2 s (int i) a v = Some (s', snd (spec_store (view2 s) i a v)) \<and> (wf2 s' \<and> no_zero s') \<and>
      view2 s' = fst (spec_store (view2 s) i a v)"
    using store2_refines [OF wf i a, of v] nz by (metis fst_conv snd_conv)
  show "\<exists>s'. load2 s (int i) a = Some (s', (if spec_load (view2 s) i a = None then 0 else 1),
      spec_load (view2 s) i a) \<and> (wf2 s' \<and> no_zero s') \<and> view2 s' = view2 s"
    using load2_refines [OF wf i a] nz by auto
qed (use view2_length in \<open>auto\<close>)

text \<open>After the initialisation loops nothing is in use, neither in memory nor in the store.\<close>

lemma init2_empty: "\<not> live2 (init2 boot2) r" "\<not> holds (init2 boot2) (int i, n)"
  by (cases r) (auto simp: live.simps init2_def boot2_def holds_def)

lemma init2_wf: "wf2 (init2 boot2)" "no_zero (init2 boot2)"
proof -
  have "wf_refs frame2 (init2 boot2)"
    by (rule wf_refsI) (simp_all add: init2_empty, simp_all add: init2_def boot2_def)
  moreover have "slot_ok (backingStore (init2 boot2) ! k)" "sf_pid (backingStore (init2 boot2) ! k) < 0"
    if "k < STORE_FRAMES" for k
    using that by (simp_all add: init2_def boot2_def slot_ok_def)
  moreover have "keyed (init2 boot2)"
    unfolding keyed_def using calculation(3) by (force simp: init2_empty)
  moreover have "owned (init2 boot2)" by (simp add: owned_def init2_empty)
  ultimately show "wf2 (init2 boot2)" by (simp add: wf2_def) (simp add: init2_def boot2_def in_range_def)
  show "no_zero (init2 boot2)" by (simp add: no_zero_def init2_empty)
qed

text \<open>With page 0 in use the contents may be lost, but no command is undefined.\<close>

interpretation safe2: safe_pager map_page2 store2 load2 wf2 "{..<4}"
proof unfold_locales
  fix s :: pmem2 and i a w v
  assume a: "wf2 s" "i < MAX_PROCESSES" "0 \<le> a" "a < int VIRT_ADD_SPACE"
  show "\<exists>s' c. map_page2 s (int i) a w = Some (s', c) \<and> wf2 s'" using map_page2_refines [OF a, of w] by blast
  show "\<exists>s' c. store2 s (int i) a v = Some (s', c) \<and> wf2 s'" using store2_refines [OF a, of v] by blast
  show "\<exists>s' c. load2 s (int i) a = Some (s', c) \<and> wf2 s'" using load2_refines [OF a] by blast
qed simp

section \<open>Properties\<close>

lemma mem2_start:
  assumes "mem2_main inp = Some s" "\<forall>buf\<in>set (input_lines inp). good_line {1..<4} buf"
  shows "wf2 s \<and> no_zero s"
  using pager2.loop_safe [of "init2 boot2" inp] init2_wf assms by (auto simp: mem2_main_def)

text \<open>Three pages of process 0, which fill the memory together with its table.\<close>

definition full_session :: string where
  "full_session = ''0,map,16,1'' @ [newline] @ ''0,map,32,1'' @ [newline] @ ''0,map,48,1'' @ [newline]"

lemma full_session_good: "\<forall>buf\<in>set (input_lines full_session). good_line {1..<4} buf"
  by code_simp

lemma full_session_ends: "\<exists>s. mem2_main full_session = Some s \<and> wf2 s \<and> no_zero s"
  using pager2.loop_safe [OF _ full_session_good] init2_wf by (simp add: mem2_main_def)

text \<open>C1: a byte that a process has stored in one of its pages 1 to 3 is read back by it after any
  further session on such pages in which no line stores to that address, however many pages are moved to
  the backing store and back in between.\<close>

theorem mem2_read_your_writes:
  assumes "mem2_main before = Some s" "\<forall>buf\<in>set (input_lines before). good_line {1..<4} buf"
    and "i < MAX_PROCESSES" "0 \<le> a" "a < int VIRT_ADD_SPACE" "page_no a \<in> {1..<4}"
    and "store2 s (int i) a v = Some (t, 1)"
    and "\<forall>buf\<in>set (input_lines after). good_line {1..<4} buf \<and> \<not> line_stores_to i a buf"
  shows "\<exists>u u'. mem_loop map_page2 store2 load2 t after = Some u \<and> load2 u (int i) a = Some (u', 1, Some v)"
  using pager2.read_your_writes [OF mem2_start [OF assms(1,2)] assms(3-8)] .

theorem mem2_read_your_writes_witness:
  "\<exists>s t u u'. mem2_main full_session = Some s \<and> store2 s (int 0) 20 42 = Some (t, 1) \<and>
     mem_loop map_page2 store2 load2 t (''1,map,20,1'' @ [newline]) = Some u \<and>
     load2 u (int 0) 20 = Some (u', 1, Some 42)"
proof -
  have "map_option (\<lambda>s. map_option snd (store2 s (int 0) 20 42)) (mem2_main full_session) = Some (Some 1)"
    by code_simp
  then obtain s t where s: "mem2_main full_session = Some s" "store2 s (int 0) 20 42 = Some (t, 1)"
    by auto
  have a: "\<forall>buf\<in>set (input_lines (''1,map,20,1'' @ [newline])). good_line {1..<4} buf \<and> \<not> line_stores_to 0 20 buf"
    by code_simp
  have "page_no 20 \<in> {1..<4}" by code_simp
  then show ?thesis using mem2_read_your_writes [OF s(1) full_session_good _ _ _ _ s(2) a] s by auto
qed



text \<open>C10: \<open>map_page\<close> (Part2) never fails for lack of memory: the page is in memory afterwards. With
  no page 0 in use it does what the abstract map does: a page that was mapped, in memory or in the store,
  keeps its contents and gets the permission, a new one is mapped, and no other page changes.\<close>

theorem map_page2_correct:
  assumes "wf2 s" "i < MAX_PROCESSES" "0 \<le> a" "a < int VIRT_ADD_SPACE"
  shows "\<exists>s' c. map_page2 s (int i) a w = Some (s', c) \<and> wf2 s' \<and> live2 s' (Ent i (page_no a)) \<and>
    (no_zero s \<longrightarrow> page_no a \<noteq> 0 \<longrightarrow> no_zero s' \<and> spec_map (view2 s) i a (odd w) (view2 s') \<and>
       view2 s' (i, page_no a) \<noteq> None)"
  by (rule map_page2_refines [OF assms])

theorem map_page2_correct_witness:
  "\<exists>s s' c. mem2_main full_session = Some s \<and> map_page2 s (int 1) 20 1 = Some (s', c) \<and>
     spec_map (view2 s) 1 20 True (view2 s')"
proof -
  have "page_no 20 \<noteq> 0" by code_simp
  with full_session_ends map_page2_correct [where i = 1 and a = 20 and w = 1] show ?thesis by fastforce
qed

text \<open>C5: \<open>find_free_frame\<close> (Part2) always returns, the frame it returns is one of the four and nothing
  refers to it, the process that asks keeps its table in memory, nothing new is referred to, and, with no
  page 0 in use, every process keeps the same pages with the same contents.\<close>

theorem find_free_frame2_correct:
  assumes "wf2 s"
  shows "\<exists>s' f. find_free_frame2 s (int i) = Some (s', int f) \<and> f < PAGE_FRAMES \<and> wf2 s' \<and> \<not> used2 s' (int f) \<and>
    (live2 s (Tab i) \<longrightarrow> live2 s' (Tab i)) \<and> (\<forall>r. live2 s' r \<longrightarrow> live2 s r) \<and>
    (no_zero s \<longrightarrow> no_zero s' \<and> view2 s' = view2 s)"
  using find_free_frame2_evolves [OF assms, of i] evolveD(1,2,6,7) by metis

theorem find_free_frame2_correct_witness:
  "\<exists>s s' f. mem2_main full_session = Some s \<and> find_free_frame2 s (int 0) = Some (s', int f) \<and>
     view2 s' = view2 s"
  using full_session_ends find_free_frame2_correct [where i = 0] by metis

text \<open>C15: with no page 0 in use the 64 slots of the backing store never run out: whenever something is in
  memory that could be moved out there is an empty slot for it.\<close>

theorem backing_store_never_full:
  assumes "mem2_main inp = Some s" "\<forall>buf\<in>set (input_lines inp). good_line {1..<4} buf" "live2 s r"
  shows "\<exists>k<STORE_FRAMES. free_slot2 s = Some k \<and> sf_pid (backingStore s ! k) < 0"
proof -
  from mem2_start [OF assms(1,2)] obtain k where "free_slot2 s = Some k"
    using store_has_room assms(3) by blast
  then show ?thesis by (auto simp: free_slot2_def first_index_Some_iff)
qed

theorem backing_store_never_full_witness:
  "\<exists>s. mem2_main full_session = Some s \<and> (\<exists>k<STORE_FRAMES. free_slot2 s = Some k)"
proof -
  from full_session_ends obtain s where s: "mem2_main full_session = Some s" by blast
  have "map_option (\<lambda>s. live2 s (Tab 0)) (mem2_main full_session) = Some True" by code_simp
  with s have "live2 s (Tab 0)" by simp
  from backing_store_never_full [OF s full_session_good this] s show ?thesis by blast
qed

text \<open>C16: \<open>get_page_num\<close> numbers the entries from 1, so page 0 is stored under the number -2, which
  \<open>check_backing_store\<close> never asks for: moving page 0 of a process out loses it, its owner can
  no longer see it.\<close>

theorem page_zero_is_lost:
  assumes "wf2 s" "live2 s (Ent i 0)"
  shows "\<exists>s'. free_specific_frame2 s (ptr s (Ent i 0)) = Some s' \<and> view2 s (i, 0) \<noteq> None \<and> view2 s' (i, 0) = None"
proof -
  from free_specific_frame2_evolves [OF assms bare_Ent] obtain s' where
    s': "free_specific_frame2 s (ptr s (Ent i 0)) = Some s'" "evolve s s'" "\<not> live2 s' (Ent i 0)" by auto
  have "\<not> holds s' (int i, int 0)"
    using wf2D(3) [OF evolveD(1) [OF s'(2)]] by (auto simp: holds_def slot_ok_def)
  with s'(1,3) view2_None view2_live [OF assms(2)] show ?thesis by blast
qed

theorem page_zero_is_lost_witness:
  "\<exists>s s'. mem2_main (''0,map,0,1'' @ [newline]) = Some s \<and> free_specific_frame2 s (ptr s (Ent 0 0)) = Some s' \<and>
     view2 s (0, 0) \<noteq> None \<and> view2 s' (0, 0) = None"
proof -
  have "\<forall>buf\<in>set (input_lines (''0,map,0,1'' @ [newline])). good_line {..<4} buf" by code_simp
  then obtain s where s: "mem2_main (''0,map,0,1'' @ [newline]) = Some s" "wf2 s"
    using safe2.loop_safe [OF init2_wf(1)] by (auto simp: mem2_main_def)
  have "map_option (\<lambda>s. live2 s (Ent 0 0)) (mem2_main (''0,map,0,1'' @ [newline])) = Some True" by code_simp
  with s have "live2 s (Ent 0 0)" by simp
  from page_zero_is_lost [OF s(2) this] s show ?thesis by blast
qed

end
