(* ===== verification/CText.thy ===== *)
theory CText
  imports CLib
begin

text \<open>
  Text as the shells of Project1 handle it: lines read into fixed buffers, the newline taken
  off, words cut by \<open>strtok\<close>, numbers printed by \<open>printf\<close>. \<open>None\<close> is undefined behaviour: a
  buffer that overflows, or one that is used after \<open>fgets\<close> has failed to fill it.
\<close>

section \<open>Input and output\<close>

record io =
  inp :: string
  out :: "string list"

definition put :: "string \<Rightarrow> 'a io_scheme \<Rightarrow> 'a io_scheme" where
  "put str s = s\<lparr>out := out s @ [str]\<rparr>"

text \<open>\<open>fgets(buf, sz, stdin)\<close> into an array of \<open>cap\<close> characters whose contents are used
  afterwards.\<close>

definition read_line :: "nat \<Rightarrow> nat \<Rightarrow> 'a io_scheme \<Rightarrow> (string \<times> 'a io_scheme) option" where
  "read_line cap sz s = (case fgets sz (inp s) of
      None \<Rightarrow> None
    | Some (buf, rest) \<Rightarrow> if length buf < cap then Some (cstr buf, s\<lparr>inp := rest\<rparr>) else None)"

text \<open>\<open>feof(stdin)\<close> after such a call: the end of the input was met while reading.\<close>

definition met_eof :: "nat \<Rightarrow> string \<Rightarrow> bool" where
  "met_eof sz input = (case fgets sz input of
      None \<Rightarrow> True
    | Some (buf, rest) \<Rightarrow> rest = [] \<and> length buf < sz - 1 \<and> last buf \<noteq> newline)"

text \<open>\<open>strcpy\<close> into an array of \<open>cap\<close> characters.\<close>

definition strcpy :: "nat \<Rightarrow> string \<Rightarrow> string option" where
  "strcpy cap str = (if length str < cap then Some str else None)"

section \<open>cleanNewline\<close>

definition cleanNewline :: "string \<Rightarrow> string" where
  "cleanNewline str =
     (if str \<noteq> [] \<and> hd str = newline then []
      else case fst (strtok (\<lambda>c. c = newline) str) of Some t \<Rightarrow> t | None \<Rightarrow> str)"

section \<open>Words\<close>

abbreviation blank :: "char \<Rightarrow> bool" where "blank \<equiv> \<lambda>c. c = CHR '' ''"

text \<open>The loop \<open>while (i < bound && tmp != NULL)\<close> that copies word after word; \<open>n\<close> is the
  number of places left, \<open>cap\<close> the size of each copy.\<close>

fun copy_words :: "nat \<Rightarrow> nat \<Rightarrow> string option \<times> string \<Rightarrow> string list option" where
  "copy_words cap 0 p = Some []"
| "copy_words cap (Suc n) (None, rest) = Some []"
| "copy_words cap (Suc n) (Some t, rest) = do {
     w \<leftarrow> strcpy cap t;
     ws \<leftarrow> copy_words cap n (strtok blank rest);
     Some (w # ws) }"

text \<open>The words of a line, as a reference: cut at every blank, drop the empty pieces.\<close>

fun pieces :: "(char \<Rightarrow> bool) \<Rightarrow> string \<Rightarrow> string list" where
  "pieces d [] = [[]]"
| "pieces d (c # cs) = (if d c then [] # pieces d cs
     else case pieces d cs of w # ws \<Rightarrow> (c # w) # ws | [] \<Rightarrow> [[c]])"

definition words :: "string \<Rightarrow> string list" where
  "words s = filter (\<lambda>w. w \<noteq> []) (pieces blank s)"

section \<open>Numbers\<close>

text \<open>\<open>%d\<close> and \<open>%ld\<close>.\<close>

definition digit :: "nat \<Rightarrow> char" where
  "digit d = char_of (48 + d)"

fun dec_nat :: "nat \<Rightarrow> string" where
  "dec_nat n = (if n < 10 then [digit n] else dec_nat (n div 10) @ [digit (n mod 10)])"

declare dec_nat.simps [simp del]

definition dec :: "int \<Rightarrow> string" where
  "dec i = (if i < 0 then CHR ''-'' # dec_nat (nat (- i)) else dec_nat (nat i))"

section \<open>Lemmas\<close>

lemma put_simps [simp]:
  "inp (put str s) = inp s" "out (put str s) = out s @ [str]" "io.more (put str s) = io.more s"
  by (simp_all add: put_def)

lemma read_line_Some:
  assumes "read_line cap sz s = Some (l, t)" "1 < sz"
  shows "length l < cap" "length l < sz" "length (inp t) < length (inp s)" "out t = out s"
    "io.more t = io.more s" "nul \<notin> set l"
proof -
  from assms(1) obtain buf rest where b: "fgets sz (inp s) = Some (buf, rest)" "length buf < cap"
    "l = cstr buf" "t = s\<lparr>inp := rest\<rparr>"
    by (auto simp: read_line_def split: option.splits if_splits)
  have "length (cstr buf) \<le> length buf" by (simp add: cstr_def length_takeWhile_le)
  with b fgets_Some [OF b(1) assms(2)] show "length l < cap" "length l < sz" "length (inp t) < length (inp s)"
    "out t = out s" "io.more t = io.more s" by auto
  show "nul \<notin> set l" using b(3) by (auto simp: cstr_def dest: set_takeWhileD)
qed

lemma read_line_frame:
  "read_line cap sz s = Some (l, t) \<Longrightarrow> 1 < sz \<Longrightarrow>
   length (inp t) < length (inp s) \<and> io.more t = io.more s \<and> out t = out s \<and> length l < cap"
  using read_line_Some [of cap sz s l t] by simp

text \<open>A line that fits both limits is read as it is.\<close>

lemma read_line_line:
  assumes "inp s = l @ newline # rest" "newline \<notin> set l" "nul \<notin> set l"
    "Suc (length l) < sz" "Suc (length l) < cap"
  shows "read_line cap sz s = Some (l @ [newline], s\<lparr>inp := rest\<rparr>)"
proof -
  have "cstr (l @ [newline]) = l @ [newline]"
    using assms(3) by (auto simp: cstr_def takeWhile_eq_all_conv)
  then show ?thesis using fgets_line [OF assms(2,4), of rest] assms(1,5) by (simp add: read_line_def)
qed

lemma cleanNewline_eq: "cleanNewline str = takeWhile (\<lambda>c. c \<noteq> newline) str"
proof (cases str)
  case (Cons c cs)
  then show ?thesis by (cases "c = newline") (simp_all add: cleanNewline_def strtok_def)
qed (simp add: cleanNewline_def strtok_def)

lemma cleanNewline_line [simp]: "newline \<notin> set l \<Longrightarrow> cleanNewline (l @ [newline]) = l"
  unfolding cleanNewline_eq by (subst takeWhile_append2) auto

lemma cleanNewline_empty [simp]: "cleanNewline [newline] = []"
  by (simp add: cleanNewline_eq)

lemma cleanNewline_length: "length (cleanNewline str) \<le> length str"
  by (simp add: cleanNewline_eq length_takeWhile_le)

lemma pieces_not_Nil [simp]: "pieces d s \<noteq> []"
  by (induction s) (auto split: list.splits)

lemma pieces_prefix:
  "\<forall>c\<in>set t. \<not> d c \<Longrightarrow> d x \<Longrightarrow> pieces d (t @ x # rest) = t # pieces d rest"
  by (induction t) auto

lemma pieces_whole: "\<forall>c\<in>set t. \<not> d c \<Longrightarrow> pieces d t = [t]"
  by (induction t) auto

lemma words_blank: "words (CHR '' '' # s) = words s"
  by (simp add: words_def)

lemma words_strtok:
  "words s = (case strtok blank s of (None, rest) \<Rightarrow> [] | (Some t, rest) \<Rightarrow> t # words rest)"
proof (induction s)
  case Nil
  then show ?case by (simp add: words_def strtok_def)
next
  case (Cons c cs)
  show ?case
  proof (cases "blank c")
    case True
    then have "strtok blank (c # cs) = strtok blank cs" by (simp add: strtok_def)
    with True Cons.IH words_blank [of cs] show ?thesis by simp
  next
    case False
    let ?t = "takeWhile (\<lambda>x. \<not> blank x) (c # cs)" and ?r = "dropWhile (\<lambda>x. \<not> blank x) (c # cs)"
    have t: "\<forall>x\<in>set ?t. \<not> blank x" by (metis set_takeWhileD)
    have s: "strtok blank (c # cs) = (Some ?t, drop 1 ?r)" using False by (simp add: strtok_def)
    have ne: "?t \<noteq> []" using False by simp
    show ?thesis
    proof (cases ?r)
      case Nil
      then have all: "\<forall>x\<in>set (c # cs). \<not> blank x" by (simp only: dropWhile_eq_Nil_conv)
      then have "?t = c # cs" by (simp only: takeWhile_eq_all_conv)
      then have "words (c # cs) = [?t]" using pieces_whole [OF all] by (simp only: words_def) simp
      moreover have "words [] = []" by (simp add: words_def)
      ultimately show ?thesis using s Nil by simp
    next
      case (Cons x xs)
      then have x: "blank x" using hd_dropWhile [of "\<lambda>x. \<not> blank x" "c # cs"] by simp
      have "pieces blank (?t @ x # xs) = ?t # pieces blank xs" by (rule pieces_prefix [OF t x])
      moreover have "?t @ x # xs = c # cs" unfolding Cons [symmetric] by (rule takeWhile_dropWhile_id)
      ultimately have "pieces blank (c # cs) = ?t # pieces blank xs" by (simp only:)
      then have "words (c # cs) = ?t # words xs" using ne by (simp only: words_def filter.simps if_True not_False_eq_True)
      then show ?thesis using s Cons by simp
    qed
  qed
qed

text \<open>The loop copies the words of the line, the first \<open>n\<close> of them.\<close>

lemma copy_words_eq:
  assumes "length s < cap"
  shows "copy_words cap n (strtok blank s) = Some (take n (words s))"
  using assms
proof (induction n arbitrary: s)
  case 0
  then show ?case by simp
next
  case (Suc n)
  obtain o' rest where st: "strtok blank s = (o', rest)" by (cases "strtok blank s")
  show ?case
  proof (cases o')
    case None
    with st words_strtok [of s] show ?thesis by simp
  next
    case (Some t)
    have "length t \<le> length (dropWhile blank s)" using st Some
      by (auto simp: strtok_def length_takeWhile_le split: list.splits intro: le_trans)
    also have "\<dots> \<le> length s" by (rule length_dropWhile_le)
    finally have "strcpy cap t = Some t" using Suc.prems by (simp add: strcpy_def)
    moreover have "length rest < cap" using strtok_rest_less [of blank s] st Some Suc.prems by simp
    ultimately show ?thesis using Suc.IH [of rest] st Some words_strtok [of s] by simp
  qed
qed

lemma words_length: "w \<in> set (words s) \<Longrightarrow> length w \<le> length s"
proof -
  have "w \<in> set (pieces d s) \<Longrightarrow> length w \<le> length s" for d
    by (induction s arbitrary: w) (fastforce split: if_splits list.splits)+
  then show "w \<in> set (words s) \<Longrightarrow> length w \<le> length s" by (auto simp: words_def)
qed

lemma isdigit_digit [simp]: "d < 10 \<Longrightarrow> isdigit (digit d) \<and> code (digit d) = 48 + int d"
  by (simp add: isdigit_def code_def digit_def)

lemma digits_value_append:
  "\<forall>c\<in>set xs. isdigit c \<Longrightarrow> digits_value acc (xs @ ys) = digits_value (digits_value acc xs) ys"
  by (induction xs arbitrary: acc) auto

lemma dec_nat_digits: "\<forall>c\<in>set (dec_nat n). isdigit c"
proof (induction n rule: dec_nat.induct)
  case (1 n)
  then show ?case by (subst dec_nat.simps) auto
qed

lemma dec_nat_not_Nil [simp]: "dec_nat n \<noteq> []"
  by (subst dec_nat.simps) auto

lemma digits_value_dec_nat: "digits_value 0 (dec_nat n) = int n"
proof (induction n rule: dec_nat.induct)
  case (1 n)
  show ?case
  proof (cases "n < 10")
    case True
    then show ?thesis by (subst dec_nat.simps) simp
  next
    case False
    have "n mod 10 < 10" by simp
    moreover have "int (n div 10) * 10 + int (n mod 10) = int n"
      by (metis div_mult_mod_eq of_nat_add of_nat_mult of_nat_numeral)
    ultimately show ?thesis using 1 [OF False] False dec_nat_digits [of "n div 10"]
      by (subst dec_nat.simps) (simp add: digits_value_append)
  qed
qed

lemma digits_value_stop: "rest = [] \<or> \<not> isdigit (hd rest) \<Longrightarrow> digits_value acc rest = acc"
  by (cases rest) auto

text \<open>Reading back a number that was printed gives the number.\<close>

lemma atoi_dec:
  assumes i: "to_int i = Some i" and rest: "rest = [] \<or> \<not> isdigit (hd rest)"
  shows "atoi (dec i @ rest) = Some i"
proof -
  have v: "digits_value 0 (dec_nat n @ rest) = int n" for n
    using digits_value_append [OF dec_nat_digits, of 0 n rest] digits_value_dec_nat [of n] digits_value_stop [OF rest] by simp
  show ?thesis
  proof (cases "i < 0")
    case True
    then show ?thesis using i v [of "nat (- i)"]
      by (simp add: dec_def atoi_def isspace_def code_def)
  next
    case False
    obtain c cs where d: "dec_nat (nat i) = c # cs" by (cases "dec_nat (nat i)") auto
    then have "isdigit c" using dec_nat_digits [of "nat i"] by auto
    from atoi_digit [OF this, of "cs @ rest"] d v [of "nat i"] i False show ?thesis
      by (simp add: dec_def)
  qed
qed

lemma dec_nat_length: "n < 10 ^ k \<Longrightarrow> 0 < k \<Longrightarrow> length (dec_nat n) \<le> k"
proof (induction k arbitrary: n)
  case (Suc k)
  show ?case
  proof (cases "n < 10")
    case False
    then have "0 < k" using Suc.prems by (cases k) auto
    moreover have "n div 10 < 10 ^ k" using Suc.prems by (simp add: less_mult_imp_div_less mult.commute)
    ultimately show ?thesis using Suc.IH [of "n div 10"] False by (subst dec_nat.simps) simp
  qed (subst dec_nat.simps, simp)
qed simp

text \<open>A printed number is a line of digits.\<close>

lemma dec_nat_line:
  assumes "n < 100000"
  shows "newline \<notin> set (dec_nat n)" "nul \<notin> set (dec_nat n)" "length (dec_nat n) \<le> 5"
    "isdigit (hd (dec_nat n))" "atoi (dec_nat n @ [newline]) = Some (int n)"
proof -
  have nd: "\<not> isdigit newline" "\<not> isdigit nul" by (simp_all add: isdigit_def code_def)
  then show "newline \<notin> set (dec_nat n)" "nul \<notin> set (dec_nat n)" using dec_nat_digits [of n] by blast+
  show "length (dec_nat n) \<le> 5" using dec_nat_length [of n 5] assms by simp
  show "isdigit (hd (dec_nat n))" using dec_nat_digits [of n] by simp
  show "atoi (dec_nat n @ [newline]) = Some (int n)"
    using atoi_dec [of "int n" "[newline]"] nd(1) assms by (simp add: dec_def to_int_def INT_MIN_def INT_MAX_def)
qed

end
