(* ===== verification/Shell.thy ===== *)
theory Shell
  imports CText
begin

text \<open>
  What the three Mid-Day Commanders of Project1 share: the argument array that is handed to
  \<open>execvp\<close>, the loop that fills it with words, and the outcome of \<open>fork\<close>, \<open>execvp\<close> and
  \<open>wait3\<close>, which are calls into the operating system and therefore parameters. Standard output
  and standard error are one list of printed pieces. Memory is always available (\<open>malloc\<close> of an
  argument does not fail).
\<close>

section \<open>Argument arrays\<close>

text \<open>An element of a \<open>char*\<close> array: never assigned, NULL, or a string.\<close>

datatype arg = Unset | NullPtr | Arg string

text \<open>What \<open>execvp\<close> reads: the strings up to the first NULL.\<close>

fun argv :: "arg list \<Rightarrow> string list option" where
  "argv [] = None"
| "argv (Unset # as) = None"
| "argv (NullPtr # as) = Some []"
| "argv (Arg w # as) = map_option ((#) w) (argv as)"

text \<open>The loop \<open>while (i < bound && tmp != NULL)\<close> that copies one word after the other into the
  array; \<open>n\<close> is \<open>bound - i\<close>.\<close>

fun fill_args :: "nat \<Rightarrow> nat \<Rightarrow> arg list \<times> nat \<Rightarrow> string option \<times> string \<Rightarrow> (arg list \<times> nat) option" where
  "fill_args cap 0 st p = Some st"
| "fill_args cap (Suc n) st (None, rest) = Some st"
| "fill_args cap (Suc n) (args, i) (Some t, rest) = do {
     w \<leftarrow> strcpy cap t;
     args \<leftarrow> arr_set args (int i) (Arg w);
     fill_args cap n (args, Suc i) (strtok blank rest) }"

text \<open>\<open>free(args[i])\<close> for all \<open>i\<close> from \<open>lo\<close> below \<open>hi\<close>: none of them may be an unset pointer.\<close>

definition freeable :: "arg list \<Rightarrow> nat \<Rightarrow> nat \<Rightarrow> bool" where
  "freeable args lo hi \<longleftrightarrow> hi \<le> length args \<and> Unset \<notin> set (take (hi - lo) (drop lo args))"

section \<open>Processes\<close>

type_synonym time = "int \<times> int"

text \<open>What happens in one call of \<open>fork\<close>: it fails; this is the child and \<open>execvp\<close> has
  failed (otherwise the child is another program); or this is the parent, with the time
  before and after \<open>wait3\<close> and the page faults it reports.\<close>

datatype outcome = Fork_failed | Child | Waited time time int int

record shell = io +
  forks :: nat
  execs :: "string list list"

definition line :: "string \<Rightarrow> string" where
  "line str = str @ [newline]"

abbreviation tab :: char where "tab \<equiv> CHR 0x09"

section \<open>Lemmas\<close>

lemma shell_more: "io.more t = io.more s \<Longrightarrow> forks t = forks s \<and> execs t = execs s"
  for s t :: "'a shell_scheme"
  by (cases s; cases t) simp

definition put_args :: "arg list \<Rightarrow> nat \<Rightarrow> string list \<Rightarrow> arg list" where
  "put_args args i ws = take i args @ map Arg ws @ drop (i + length ws) args"

lemma put_args_Nil [simp]: "put_args args i [] = args"
  by (simp add: put_args_def)

lemma put_args_Cons:
  assumes "i < length args"
  shows "put_args (args[i := Arg w]) (Suc i) ws = put_args args i (w # ws)"
  using assms by (simp add: put_args_def take_Suc_conv_app_nth drop_update_swap)

lemma length_put_args [simp]: "i + length ws \<le> length args \<Longrightarrow> length (put_args args i ws) = length args"
  by (simp add: put_args_def)

lemma fill_args_eq:
  assumes "copy_words cap n p = Some ws" "i + n \<le> length args"
  shows "fill_args cap n (args, i) p = Some (put_args args i ws, i + length ws)"
  using assms
proof (induction cap n p arbitrary: args i ws rule: copy_words.induct)
  case (3 cap n t rest)
  then obtain us where us: "strcpy cap t = Some t" "copy_words cap n (strtok blank rest) = Some us" "ws = t # us"
    by (auto simp: bind_eq_Some_conv strcpy_def split: if_splits)
  have i: "i < length args" "Suc i + n \<le> length (args[i := Arg t])" using 3(3) by simp_all
  from "3.IH" [OF us(1,2) i(2)] us i(1) put_args_Cons [OF i(1), of t us] show ?case by simp
qed auto

text \<open>The words of a line of which at most \<open>n\<close> fit: they are written and the rest is dropped.\<close>

lemma fill_args_words:
  assumes "length l < cap" "i + n \<le> length args"
  shows "fill_args cap n (args, i) (strtok blank l) =
    Some (put_args args i (take n (words l)), i + min n (length (words l)))"
  using fill_args_eq [OF copy_words_eq [OF assms(1), of n] assms(2)] by (simp add: min.commute)

lemma put_args_map:
  "put_args (map Arg us @ rest) (length us) ws = map Arg (us @ ws) @ drop (length ws) rest"
  by (simp add: put_args_def)

lemma argv_args [simp]: "argv (map Arg ws @ NullPtr # rest) = Some ws"
  by (induction ws) auto

lemma argv_filled:
  "length ws < length rest \<Longrightarrow> rest ! length ws = NullPtr \<Longrightarrow>
   argv (put_args (map Arg us @ rest) (length us) ws) = Some (us @ ws)"
  by (simp only: put_args_map Cons_nth_drop_Suc [symmetric] argv_args)

section \<open>Elapsed time\<close>

lemma sdiv_between: "0 < k \<Longrightarrow> x div k \<le> x sdiv k \<and> x sdiv k \<le> x div k + 1" for x k :: int
proof -
  assume k: "0 < k"
  show ?thesis
  proof (cases "0 \<le> x")
    case True
    with k show ?thesis by (cases "x = 0") (simp_all add: signed_divide_int_def)
  next
    case False
    with k have "x sdiv k = - ((- x) div k)" by (simp add: signed_divide_int_def)
    moreover have "(- x) div k = (if x mod k = 0 then - (x div k) else - (x div k) - 1)"
      using k by (simp add: zdiv_zminus1_eq_if)
    ultimately show ?thesis by simp
  qed
qed

text \<open>Seconds and fractions are subtracted and divided separately; the fraction may be negative. For
  two points in time in order, with fractions in range, the milliseconds that come out are the true ones
  rounded down or one more.\<close>

lemma elapsed_bounds:
  fixes k :: int
  assumes "0 < k" "T = (s2 - s1) * (1000 * k) + (u2 - u1)"
  shows "T div k \<le> (s2 - s1) * 1000 + (u2 - u1) sdiv k \<and> (s2 - s1) * 1000 + (u2 - u1) sdiv k \<le> T div k + 1"
proof -
  have "T = (u2 - u1) + (s2 - s1) * 1000 * k" using assms(2) by (simp add: algebra_simps)
  then have "T div k = (s2 - s1) * 1000 + (u2 - u1) div k" using assms(1) by simp
  with sdiv_between [OF assms(1), of "u2 - u1"] show ?thesis by simp
qed

end
