(* ===== verification/MidDay0.thy ===== *)
theory MidDay0
  imports Shell
begin

text \<open>
  Project1/v0/mc0.c: the menu with four fixed commands. The outcome of the \<open>k\<close>-th \<open>fork\<close>
  is the parameter \<open>env k\<close>. At the end of the input \<open>fgets\<close> leaves the option buffer
  indeterminate; the model of the loop stops there.
\<close>

section \<open>The program\<close>

abbreviation MAX_OPTION0 :: int where "MAX_OPTION0 \<equiv> 3"
abbreviation MAX_ARGS0 :: nat where "MAX_ARGS0 \<equiv> 20"
abbreviation MAX_IN_LENGTH0 :: nat where "MAX_IN_LENGTH0 \<equiv> 100"

definition getOption0 :: "'a io_scheme \<Rightarrow> (int \<times> 'a io_scheme) option" where
  "getOption0 s = do {
     (optionString, s) \<leftarrow> read_line MAX_IN_LENGTH0 MAX_IN_LENGTH0 s;
     if optionString \<noteq> [] \<and> isdigit (hd optionString) then do {
       option \<leftarrow> atoi optionString;
       if option \<ge> 0 \<and> option \<le> MAX_OPTION0 then Some (option, s) else Some (-1, s) }
     else Some (-1, s) }"

definition prompt0 :: "'a io_scheme \<Rightarrow> 'a io_scheme" where
  "prompt0 s = put ''Option?: '' (put (line (''   3. seymour'' @ [tab] @ '': Wait.''))
     (put (line (''   2. ls'' @ [tab] @ '': Prints out the result of the ls command.''))
     (put (line (''   1. last'' @ [tab] @ '': Prints out the result of the last command.''))
     (put (line (''   0. whoami'' @ [tab] @ '': Prints out the result of the whoami command.''))
     (put (line ''Taimi speaking. What command would you like to run?'') s)))))"

text \<open>Case 2 of the switch: the words of one line, then a path.\<close>

definition ls_args0 :: "arg list \<Rightarrow> 'a io_scheme \<Rightarrow> (arg list \<times> 'a io_scheme) option" where
  "ls_args0 args s = do {
     let s = put ''Arguments?: '' s;
     (buf, s) \<leftarrow> read_line MAX_IN_LENGTH0 MAX_IN_LENGTH0 s;
     let buf = cleanNewline buf;
     (args, i) \<leftarrow> fill_args MAX_IN_LENGTH0 (MAX_ARGS0 - 1 - 1) (args, 1) (strtok blank buf);
     let s = put ''Path?: '' s;
     (buf, s) \<leftarrow> read_line MAX_IN_LENGTH0 MAX_IN_LENGTH0 s;
     let buf = cleanNewline buf;
     args \<leftarrow> (if buf \<noteq> [] then do { w \<leftarrow> strcpy MAX_IN_LENGTH0 buf; arr_set args (int i) (Arg w) }
             else Some args);
     Some (args, put [newline] s) }"

text \<open>The switch over the option; other values end the program.\<close>

definition switch0 :: "int \<Rightarrow> 'a io_scheme \<Rightarrow> (arg list \<times> 'a io_scheme) option" where
  "switch0 option s = (let args = replicate (MAX_ARGS0 + 1) NullPtr in
     if option = 0 then do {
       args \<leftarrow> arr_set args 0 (Arg ''/usr/bin/whoami'');
       Some (args, put (line ''-- Who am I? --'') s) }
     else if option = 1 then do {
       args \<leftarrow> arr_set args 0 (Arg ''/usr/bin/last'');
       Some (args, put (line ''-- Last Logins --'') s) }
     else if option = 2 then do {
       args \<leftarrow> arr_set args 0 (Arg ''/bin/ls'');
       ls_args0 args (put (line ''-- Directory Listing --'') s) }
     else do {
       args \<leftarrow> arr_set args 0 (Arg ''./seymour'');
       Some (args, put (line ''-- Waiting --'') s) })"

definition elapsed0 :: "time \<Rightarrow> time \<Rightarrow> int" where
  "elapsed0 start stop =
     (let seconds = fst stop - fst start; nanoseconds = snd stop - snd start;
          milliseconds = seconds * 1000
      in milliseconds + nanoseconds sdiv 1000000)"

definition statistics0 :: "time \<Rightarrow> time \<Rightarrow> int \<Rightarrow> int \<Rightarrow> 'a io_scheme \<Rightarrow> 'a io_scheme" where
  "statistics0 start stop majflt minflt s =
     (let s = put (newline # line ''--- Statistics ---'') s;
          milliseconds = elapsed0 start stop;
          s = (if milliseconds < 1 then put (line ''Elapsed time: <1 millisecond'') s
               else put (line (''Elapsed time: '' @ dec milliseconds @ '' milliseconds'')) s)
      in put (line (''Page faults (reclaimed): '' @ dec minflt)) (put (line (''Page faults: '' @ dec majflt)) s))"

definition execute0 :: "(nat \<Rightarrow> outcome) \<Rightarrow> arg list \<Rightarrow> shell \<Rightarrow> shell option" where
  "execute0 env args s = (let s' = s\<lparr>forks := Suc (forks s)\<rparr> in
     case env (forks s) of
       Fork_failed \<Rightarrow> Some (put (line ''Fork failed; aborting...'') s')
     | Child \<Rightarrow> do { av \<leftarrow> argv args; Some (s'\<lparr>execs := execs s @ [av]\<rparr>) }
     | Waited start stop majflt minflt \<Rightarrow> do {
         av \<leftarrow> argv args;
         Some (statistics0 start stop majflt minflt (s'\<lparr>execs := execs s @ [av]\<rparr>)) })"

text \<open>One round of the main loop.\<close>

definition mc0_round :: "(nat \<Rightarrow> outcome) \<Rightarrow> shell \<Rightarrow> shell option" where
  "mc0_round env s = do {
     (option, s) \<leftarrow> getOption0 (prompt0 s);
     if option \<ge> 0 \<and> option \<le> MAX_OPTION0 then do {
       (args, s) \<leftarrow> switch0 option (put [newline] s);
       s \<leftarrow> execute0 env args s;
       if freeable args 1 (MAX_ARGS0 + 1) then Some (put [newline] s) else None }
     else Some (put [newline] (put (line ''Invalid option.'') s)) }"

lemma getOption0_less:
  "getOption0 s = Some (v, t) \<Longrightarrow> length (inp t) < length (inp s) \<and> io.more t = io.more s"
  by (auto simp: getOption0_def bind_eq_Some_conv dest!: read_line_frame split: if_splits)

lemma ls_args0_less:
  "ls_args0 args s = Some (args', t) \<Longrightarrow> length (inp t) < length (inp s) \<and> io.more t = io.more s"
  by (fastforce simp: ls_args0_def bind_eq_Some_conv Let_def dest!: read_line_frame split: if_splits)

lemma switch0_less:
  "switch0 v s = Some (args, t) \<Longrightarrow> length (inp t) \<le> length (inp s) \<and> io.more t = io.more s"
  by (auto simp: switch0_def bind_eq_Some_conv Let_def dest!: ls_args0_less split: if_splits)

lemma statistics0_inp [simp]: "inp (statistics0 a b c d s) = inp s"
  by (simp add: statistics0_def Let_def)

lemma execute0_inp: "execute0 env args s = Some t \<Longrightarrow> inp t = inp s"
  by (auto simp: execute0_def bind_eq_Some_conv Let_def split: outcome.splits)

lemma prompt0_simps [simp]: "inp (prompt0 s) = inp s" "io.more (prompt0 s) = io.more s"
  by (simp_all add: prompt0_def)

lemma mc0_round_less: "mc0_round env s = Some t \<Longrightarrow> length (inp t) < length (inp s)"
  by (auto simp: mc0_round_def bind_eq_Some_conv dest!: getOption0_less switch0_less execute0_inp
      split: if_splits)

function mc0_loop :: "(nat \<Rightarrow> outcome) \<Rightarrow> shell \<Rightarrow> shell option" where
  "mc0_loop env s = (if inp s = [] then Some (prompt0 s)
     else do { s \<leftarrow> mc0_round env s; mc0_loop env s })"
  by pat_completeness auto
termination
  by (relation "measure (\<lambda>(env, s). length (inp s))") (auto dest: mc0_round_less)

declare mc0_loop.simps [simp del]

definition mc0_main :: "(nat \<Rightarrow> outcome) \<Rightarrow> string \<Rightarrow> shell option" where
  "mc0_main env input = mc0_loop env
     (put (line ''===== Mid-Day Commander, v0 ====='') \<lparr>inp = input, out = [], forks = 0, execs = []\<rparr>)"

section \<open>Properties\<close>

lemma getOption0_range: "getOption0 s = Some (v, t) \<Longrightarrow> v = -1 \<or> 0 \<le> v \<and> v \<le> MAX_OPTION0"
  by (auto simp: getOption0_def bind_eq_Some_conv split: if_splits)

text \<open>The argument array of \<open>ls\<close>: the words that fit, then the path.\<close>

lemma ls_args0_eq:
  assumes "inp s = a @ newline # p @ newline # rest" "newline \<notin> set a" "nul \<notin> set a"
    "newline \<notin> set p" "nul \<notin> set p" "Suc (length a) < MAX_IN_LENGTH0" "Suc (length p) < MAX_IN_LENGTH0"
  shows "\<exists>t args. ls_args0 (Arg x # replicate MAX_ARGS0 NullPtr) s = Some (args, t) \<and> inp t = rest \<and>
    io.more t = io.more s \<and> Unset \<notin> set args \<and> length args = MAX_ARGS0 + 1 \<and>
    argv args = Some (x # take (MAX_ARGS0 - 2) (words a) @ (if p = [] then [] else [p]))"
proof -
  let ?ws = "take (MAX_ARGS0 - 2) (words a)" and ?n = "length (take (MAX_ARGS0 - 2) (words a))"
  let ?args = "put_args (Arg x # replicate MAX_ARGS0 NullPtr) 1 ?ws"
  have n: "?n \<le> MAX_ARGS0 - 2" by simp
  have args: "?args = map Arg (x # ?ws) @ replicate (MAX_ARGS0 - ?n) NullPtr"
    using put_args_map [of "[x]" "replicate MAX_ARGS0 NullPtr" ?ws] by simp
  have r1: "read_line MAX_IN_LENGTH0 MAX_IN_LENGTH0 (put ''Arguments?: '' s) =
      Some (a @ [newline], (put ''Arguments?: '' s)\<lparr>inp := p @ newline # rest\<rparr>)"
    by (rule read_line_line) (use assms in auto)
  let ?s = "put ''Path?: '' ((put ''Arguments?: '' s)\<lparr>inp := p @ newline # rest\<rparr>)"
  have r2: "read_line MAX_IN_LENGTH0 MAX_IN_LENGTH0 ?s = Some (p @ [newline], ?s\<lparr>inp := rest\<rparr>)"
    by (rule read_line_line) (use assms in auto)
  have f: "fill_args MAX_IN_LENGTH0 (MAX_ARGS0 - 1 - 1) (Arg x # replicate MAX_ARGS0 NullPtr, 1) (strtok blank a) =
      Some (?args, 1 + ?n)"
    using fill_args_words [of a MAX_IN_LENGTH0 1 "MAX_ARGS0 - 2" "Arg x # replicate MAX_ARGS0 NullPtr"] assms(6)
    by (simp add: min.commute)
  have "MAX_ARGS0 - ?n = Suc (MAX_ARGS0 - 1 - ?n)" using n by arith
  then have rep: "replicate (MAX_ARGS0 - ?n) NullPtr = NullPtr # replicate (MAX_ARGS0 - 1 - ?n) NullPtr" by simp
  show ?thesis
  proof (cases "p = []")
    case True
    have "ls_args0 (Arg x # replicate MAX_ARGS0 NullPtr) s = Some (?args, put [newline] (?s\<lparr>inp := rest\<rparr>))"
      using r1 r2 f True assms(2) by (simp add: ls_args0_def Let_def)
    moreover have "argv ?args = Some (x # ?ws)" unfolding args rep by (rule argv_args)
    ultimately show ?thesis using True args n by (auto simp: in_set_replicate)
  next
    case False
    let ?args' = "map Arg (x # ?ws @ [p]) @ replicate (MAX_ARGS0 - 1 - ?n) NullPtr"
    have "?args[1 + ?n := Arg p] = ?args'" unfolding args rep by (simp add: list_update_append)
    moreover have "arr_set ?args (int (1 + ?n)) (Arg p) = Some (?args[1 + ?n := Arg p])"
      by (rule arr_set_int) (use n args in simp)
    moreover have "strcpy MAX_IN_LENGTH0 p = Some p" using assms(7) by (simp add: strcpy_def)
    ultimately have "ls_args0 (Arg x # replicate MAX_ARGS0 NullPtr) s = Some (?args', put [newline] (?s\<lparr>inp := rest\<rparr>))"
      using r1 r2 f False assms(2,4) by (simp add: ls_args0_def Let_def)
    moreover have "argv ?args' = Some (x # ?ws @ [p])"
    proof -
      have "MAX_ARGS0 - 1 - ?n = Suc (MAX_ARGS0 - 2 - ?n)" using n by arith
      then show ?thesis by (metis argv_args replicate_Suc)
    qed
    ultimately show ?thesis using False n by (auto simp: in_set_replicate)
  qed
qed

lemma getOption0_digit:
  assumes "inp s = digit d # newline # rest" "d < 10"
  shows "getOption0 s = Some (if d \<le> 3 then int d else -1, s\<lparr>inp := rest\<rparr>)"
proof -
  have d: "isdigit (digit d)" "code (digit d) = 48 + int d" using isdigit_digit [OF assms(2)] by auto
  have "\<not> isdigit newline" "\<not> isdigit nul" by (simp_all add: isdigit_def code_def)
  with d(1) have "newline \<noteq> digit d" "nul \<noteq> digit d" by metis+
  then have "read_line MAX_IN_LENGTH0 MAX_IN_LENGTH0 s = Some ([digit d] @ [newline], s\<lparr>inp := rest\<rparr>)"
    by (intro read_line_line) (use assms(1) in auto)
  moreover have "atoi [digit d, newline] = Some (int d)"
    using d assms(2) by (subst atoi_digit) (auto simp: to_int_def INT_MIN_def INT_MAX_def isdigit_def code_def)
  ultimately show ?thesis using d(1) by (simp add: getOption0_def)
qed

text \<open>C22: option 2 of the v0 shell. Whatever the two lines hold, the array handed to \<open>execvp\<close> is filled
  within its bounds and terminated: it is \<open>/bin/ls\<close>, the first eighteen words of the first line, and
  the second line as the path unless it is empty; the words that do not fit are dropped. Exactly the three lines
  are read, and every pointer that is freed was set.\<close>

theorem mc0_ls_arguments:
  assumes "inp s = digit 2 # newline # a @ newline # p @ newline # rest"
    and "newline \<notin> set a" "nul \<notin> set a" "newline \<notin> set p" "nul \<notin> set p"
    and "Suc (length a) < MAX_IN_LENGTH0" "Suc (length p) < MAX_IN_LENGTH0"
    and "env (forks s) \<noteq> Fork_failed"
  shows "\<exists>t. mc0_round env s = Some t \<and> inp t = rest \<and> forks t = Suc (forks s) \<and>
    execs t = execs s @ [''/bin/ls'' # take 18 (words a) @ (if p = [] then [] else [p])]"
proof -
  let ?s = "put (line ''-- Directory Listing --'') (put [newline] ((prompt0 s)\<lparr>inp := a @ newline # p @ newline # rest\<rparr>))"
  have o: "getOption0 (prompt0 s) = Some (2, (prompt0 s)\<lparr>inp := a @ newline # p @ newline # rest\<rparr>)"
    using getOption0_digit [of "prompt0 s" 2] assms(1) by simp
  from ls_args0_eq [of ?s a p rest "''/bin/ls''"] assms(2-7) obtain t args where
    t: "ls_args0 (Arg ''/bin/ls'' # replicate MAX_ARGS0 NullPtr) ?s = Some (args, t)" "inp t = rest"
    "io.more t = io.more ?s" "Unset \<notin> set args" "length args = MAX_ARGS0 + 1"
    "argv args = Some (''/bin/ls'' # take (MAX_ARGS0 - 2) (words a) @ (if p = [] then [] else [p]))" by auto
  have f: "forks t = forks s" "execs t = execs s" using shell_more [of t s] t(3) by simp_all
  have sw: "switch0 2 (put [newline] ((prompt0 s)\<lparr>inp := a @ newline # p @ newline # rest\<rparr>)) = Some (args, t)"
    using t(1) by (simp add: switch0_def arr_set_def in_range_def numeral_eq_Suc)
  obtain u where u: "execute0 env args t = Some u" "inp u = rest" "forks u = Suc (forks s)"
    "execs u = execs s @ [''/bin/ls'' # take 18 (words a) @ (if p = [] then [] else [p])]"
    using t(2,6) f assms(8) by (cases "env (forks s)") (auto simp: execute0_def statistics0_def Let_def put_def)
  have "freeable args 1 (MAX_ARGS0 + 1)"
    using t(4,5) by (auto simp: freeable_def dest: in_set_takeD in_set_dropD)
  then have "mc0_round env s = Some (put [newline] u)" using o sw u(1) by (simp add: mc0_round_def)
  then show ?thesis using u by (simp add: put_def)
qed

theorem mc0_ls_arguments_witness:
  "\<exists>t. mc0_round (\<lambda>k. Waited (0, 0) (1, 0) 0 0)
      \<lparr>inp = digit 2 # newline # ''-l  -a'' @ newline # ''/tmp'' @ newline # [], out = [], forks = 0, execs = []\<rparr> = Some t \<and>
    execs t = [[''/bin/ls'', ''-l'', ''-a'', ''/tmp'']]"
proof -
  have w: "words ''-l  -a'' = [''-l'', ''-a'']" by code_simp
  show ?thesis
    using mc0_ls_arguments [of "\<lparr>inp = digit 2 # newline # ''-l  -a'' @ newline # ''/tmp'' @ newline # [],
      out = [], forks = 0, execs = []\<rparr>" "''-l  -a''" "''/tmp''" "[]" "\<lambda>k. Waited (0, 0) (1, 0) 0 0"] w by auto
qed

end
