(* ===== verification/Options.thy ===== *)
theory Options
  imports Shell
begin

text \<open>
  Project1/v1/option.c and Project1/v2/option.c: choosing an option of the menu and adding
  new ones. The array of options is the list of its first \<open>size\<close> elements; an element past
  \<open>MAX_OPTIONS\<close> (mc1.c, mc2.c) is undefined behaviour. Whether the \<open>malloc\<close> of
  \<open>appendOption\<close> succeeds is a parameter.
\<close>

section \<open>Data\<close>

abbreviation MAX_IN_LENGTH :: nat where "MAX_IN_LENGTH \<equiv> 200"
abbreviation MAX_DEF_ARGS :: nat where "MAX_DEF_ARGS \<equiv> 20"
abbreviation MAX_OPTIONS :: nat where "MAX_OPTIONS \<equiv> 32"
abbreviation OPT_A :: int where "OPT_A \<equiv> -2"
abbreviation OPT_C :: int where "OPT_C \<equiv> -3"
abbreviation OPT_E :: int where "OPT_E \<equiv> -4"
abbreviation OPT_P :: int where "OPT_P \<equiv> -5"
abbreviation OPT_R :: int where "OPT_R \<equiv> -6"

text \<open>The pointer \<open>defArgs\<close> is NULL, or it points into the stack frame that \<open>addOption\<close> had,
  where the given strings and a NULL were when \<open>addOption\<close> returned.\<close>

datatype def_args = No_args | Frame "string list"

record option1 =
  o_path :: string
  o_name :: string
  o_desc :: string
  o_head :: string
  o_defArgs :: def_args
  o_args :: int
  o_argPath :: int

record option2 = option1 +
  o_blocking :: int

section \<open>v1\<close>

definition selectOption1 :: "int \<Rightarrow> 'a io_scheme \<Rightarrow> (int \<times> 'a io_scheme) option" where
  "selectOption1 sz s =
     (if met_eof MAX_IN_LENGTH (inp s) then Some (OPT_E, s\<lparr>inp := []\<rparr>)
      else do {
        (choiceStr, s) \<leftarrow> read_line MAX_IN_LENGTH MAX_IN_LENGTH s;
        let c = (case choiceStr of [] \<Rightarrow> nul | c # cs \<Rightarrow> c);
        if c = CHR ''a'' then Some (OPT_A, s)
        else if c = CHR ''c'' then Some (OPT_C, s)
        else if c = CHR ''e'' then Some (OPT_E, s)
        else if c = CHR ''p'' then Some (OPT_P, s)
        else if isdigit c then do {
          option \<leftarrow> atoi choiceStr;
          if option \<ge> 0 \<and> option \<le> sz then Some (option, s) else Some (-1, s) }
        else Some (-1, s) })"

definition appendOption1 :: "bool \<Rightarrow> option1 list \<Rightarrow> string \<Rightarrow> string \<Rightarrow> string \<Rightarrow> string \<Rightarrow> def_args \<Rightarrow>
    int \<Rightarrow> int \<Rightarrow> (option1 list \<times> int) option" where
  "appendOption1 alloc cmds path name desc head defArgs args argPath =
     (if \<not> alloc then Some (cmds, -1)
      else do {
        path \<leftarrow> strcpy MAX_IN_LENGTH path;
        name \<leftarrow> strcpy MAX_IN_LENGTH name;
        desc \<leftarrow> strcpy MAX_IN_LENGTH desc;
        head \<leftarrow> strcpy MAX_IN_LENGTH head;
        if length cmds < MAX_OPTIONS then
          Some (cmds @ [\<lparr>o_path = path, o_name = name, o_desc = desc, o_head = head, o_defArgs = defArgs,
                         o_args = args, o_argPath = argPath\<rparr>], int (length cmds))
        else None })"

text \<open>The generated header; \<open>headStr\<close> has room for \<open>MAX_IN_LENGTH\<close> characters.\<close>

definition make_head :: "string \<Rightarrow> string option" where
  "make_head nameStr = strcpy MAX_IN_LENGTH (''-- '' @ nameStr @ '' --'')"

definition addOption1 :: "bool \<Rightarrow> option1 list \<Rightarrow> 'a io_scheme \<Rightarrow>
    ((option1 list \<times> int) \<times> 'a io_scheme) option" where
  "addOption1 alloc cmds s = do {
     let s = put ''Command?: '' s;
     (nameStr, s) \<leftarrow> read_line (MAX_IN_LENGTH - 6) MAX_IN_LENGTH s;
     let nameStr = cleanNewline nameStr;
     buf \<leftarrow> strcpy MAX_IN_LENGTH nameStr;
     if buf \<noteq> [] then do {
       let (tmp, rest) = strtok blank buf;
       tmp \<leftarrow> tmp;
       pathStr \<leftarrow> strcpy MAX_IN_LENGTH tmp;
       defArgs \<leftarrow> copy_words MAX_IN_LENGTH (MAX_DEF_ARGS - 1) (strtok blank rest);
       headStr \<leftarrow> make_head nameStr;
       r \<leftarrow> appendOption1 alloc cmds pathStr nameStr ''A user generated command.'' headStr (Frame defArgs) 0 0;
       Some (r, s) }
     else Some ((cmds, -1), s) }"

definition addOptionVerbose1 :: "bool \<Rightarrow> option1 list \<Rightarrow> 'a io_scheme \<Rightarrow>
    ((option1 list \<times> int) \<times> 'a io_scheme) option" where
  "addOptionVerbose1 alloc cmds s = do {
     (pathStr, s) \<leftarrow> read_line MAX_IN_LENGTH MAX_IN_LENGTH (put ''Path to command?: '' s);
     (nameStr, s) \<leftarrow> read_line (MAX_IN_LENGTH - 6) (MAX_IN_LENGTH - 6) (put ''Name of command?: '' s);
     (descStr, s) \<leftarrow> read_line MAX_IN_LENGTH MAX_IN_LENGTH (put ''Description?: '' s);
     let pathStr = cleanNewline pathStr;
     let nameStr = cleanNewline nameStr;
     let descStr = cleanNewline descStr;
     headStr \<leftarrow> make_head nameStr;
     r \<leftarrow> appendOption1 alloc cmds pathStr nameStr descStr headStr No_args 1 1;
     Some (r, s) }"

section \<open>v2\<close>

definition selectOption2 :: "int \<Rightarrow> 'a io_scheme \<Rightarrow> (int \<times> 'a io_scheme) option" where
  "selectOption2 sz s =
     (if met_eof MAX_IN_LENGTH (inp s) then Some (OPT_E, s\<lparr>inp := []\<rparr>)
      else do {
        (choiceStr, s) \<leftarrow> read_line MAX_IN_LENGTH MAX_IN_LENGTH s;
        let c = (case choiceStr of [] \<Rightarrow> nul | c # cs \<Rightarrow> c);
        if c = CHR ''a'' then Some (OPT_A, s)
        else if c = CHR ''c'' then Some (OPT_C, s)
        else if c = CHR ''e'' then Some (OPT_E, s)
        else if c = CHR ''p'' then Some (OPT_P, s)
        else if c = CHR ''r'' then Some (OPT_R, s)
        else if isdigit c then do {
          option \<leftarrow> atoi choiceStr;
          if option \<ge> 0 \<and> option < sz then Some (option, s) else Some (-1, s) }
        else Some (-1, s) })"

definition appendOption2 :: "bool \<Rightarrow> option2 list \<Rightarrow> string \<Rightarrow> string \<Rightarrow> string \<Rightarrow> string \<Rightarrow> def_args \<Rightarrow>
    int \<Rightarrow> int \<Rightarrow> int \<Rightarrow> (option2 list \<times> int) option" where
  "appendOption2 alloc cmds path name desc head defArgs args argPath blocking =
     (if \<not> alloc then Some (cmds, -1)
      else do {
        path \<leftarrow> strcpy MAX_IN_LENGTH path;
        name \<leftarrow> strcpy MAX_IN_LENGTH name;
        desc \<leftarrow> strcpy MAX_IN_LENGTH desc;
        head \<leftarrow> strcpy MAX_IN_LENGTH head;
        if length cmds < MAX_OPTIONS then
          Some (cmds @ [\<lparr>o_path = path, o_name = name, o_desc = desc, o_head = head, o_defArgs = defArgs,
                         o_args = args, o_argPath = argPath, o_blocking = blocking\<rparr>], int (length cmds))
        else None })"

lemma strtok_measure:
  "(case fst (strtok d s) of None \<Rightarrow> 0 | Some t \<Rightarrow> Suc (length (snd (strtok d s)))) < Suc (length s)"
proof -
  obtain o' r where "strtok d s = (o', r)" by (cases "strtok d s")
  with strtok_rest_less [of d s] show ?thesis by (cases o') auto
qed

text \<open>The loop over the words after the path: a word that starts with \<open>&\<close> makes the command a
  background command, any other word is copied; \<open>n\<close> is the number of places left.\<close>

function default_args2 :: "nat \<Rightarrow> int \<Rightarrow> string option \<times> string \<Rightarrow> (string list \<times> int) option" where
  "default_args2 0 blocking p = Some ([], blocking)"
| "default_args2 (Suc n) blocking (None, rest) = Some ([], blocking)"
| "default_args2 (Suc n) blocking (Some t, rest) =
     (if t \<noteq> [] \<and> hd t = CHR ''&'' then default_args2 (Suc n) 0 (strtok blank rest)
      else do {
        w \<leftarrow> strcpy MAX_IN_LENGTH t;
        (ws, blocking) \<leftarrow> default_args2 n blocking (strtok blank rest);
        Some (w # ws, blocking) })"
  by pat_completeness auto

termination
  by (relation "measure (\<lambda>(n, b, p). case fst p of None \<Rightarrow> 0 | Some t \<Rightarrow> Suc (length (snd p)))")
    (auto simp: strtok_measure)

definition addOption2 :: "bool \<Rightarrow> option2 list \<Rightarrow> 'a io_scheme \<Rightarrow>
    ((option2 list \<times> int) \<times> 'a io_scheme) option" where
  "addOption2 alloc cmds s = do {
     let s = put ''Command?: '' s;
     (nameStr, s) \<leftarrow> read_line (MAX_IN_LENGTH - 6) MAX_IN_LENGTH s;
     let nameStr = cleanNewline nameStr;
     buf \<leftarrow> strcpy MAX_IN_LENGTH nameStr;
     if buf \<noteq> [] then do {
       let (tmp, rest) = strtok blank buf;
       tmp \<leftarrow> tmp;
       pathStr \<leftarrow> strcpy MAX_IN_LENGTH tmp;
       (defArgs, blocking) \<leftarrow> default_args2 (MAX_DEF_ARGS - 1) 1 (strtok blank rest);
       headStr \<leftarrow> make_head nameStr;
       r \<leftarrow> appendOption2 alloc cmds pathStr nameStr ''A user generated command.'' headStr (Frame defArgs) 0 0 blocking;
       Some (r, s) }
     else Some ((cmds, -1), s) }"

definition addOptionVerbose2 :: "bool \<Rightarrow> option2 list \<Rightarrow> 'a io_scheme \<Rightarrow>
    ((option2 list \<times> int) \<times> 'a io_scheme) option" where
  "addOptionVerbose2 alloc cmds s = do {
     (pathStr, s) \<leftarrow> read_line MAX_IN_LENGTH MAX_IN_LENGTH (put ''Path to command?: '' s);
     (nameStr, s) \<leftarrow> read_line (MAX_IN_LENGTH - 6) (MAX_IN_LENGTH - 6) (put ''Name of command?: '' s);
     (descStr, s) \<leftarrow> read_line MAX_IN_LENGTH MAX_IN_LENGTH (put ''Description?: '' s);
     let pathStr = cleanNewline pathStr;
     let nameStr = cleanNewline nameStr;
     let descStr = cleanNewline descStr;
     headStr \<leftarrow> make_head nameStr;
     r \<leftarrow> appendOption2 alloc cmds pathStr nameStr descStr headStr No_args 1 1 1;
     Some (r, s) }"

section \<open>Lemmas\<close>

lemma strcpy_Some [simp]: "strcpy cap str = Some w \<longleftrightarrow> length str < cap \<and> w = str"
  by (auto simp: strcpy_def)

lemma strcpy_fits [simp]: "length str < cap \<Longrightarrow> strcpy cap str = Some str"
  by simp

lemma make_head_eq: "length nameStr + 6 < MAX_IN_LENGTH \<Longrightarrow> make_head nameStr = Some (''-- '' @ nameStr @ '' --'')"
  by (simp add: make_head_def)

lemma words_rest:
  assumes "strtok blank l = (Some t, rest)"
  shows "words l = t # words rest" "length t \<le> length l" "length rest < length l"
proof -
  show "words l = t # words rest" using words_strtok [of l] assms by simp
  then show "length t \<le> length l" using words_length [of t l] by simp
  show "length rest < length l" by (rule strtok_rest_less [OF assms])
qed

lemma words_Cons_strtok:
  assumes "words l = w # ws"
  obtains rest where "strtok blank l = (Some w, rest)" "words rest = ws"
proof (cases "strtok blank l")
  case (Pair o' rest)
  with assms words_strtok [of l] that show thesis by (cases o') auto
qed

definition is_amp :: "string \<Rightarrow> bool" where
  "is_amp w \<longleftrightarrow> w \<noteq> [] \<and> hd w = CHR ''&''"

lemma default_args2_word:
  "default_args2 (Suc n) b (Some t, rest) =
     (if is_amp t then default_args2 (Suc n) 0 (strtok blank rest)
      else do { w \<leftarrow> strcpy MAX_IN_LENGTH t; (ws, b) \<leftarrow> default_args2 n b (strtok blank rest); Some (w # ws, b) })"
  by (simp add: is_amp_def)

text \<open>With room for all of them the loop keeps the words that do not start with \<open>&\<close>, and the
  command is a background command exactly if there was one that does.\<close>

lemma default_args2_eq:
  assumes "length l < MAX_IN_LENGTH" "length (filter (\<lambda>w. \<not> is_amp w) (words l)) < n"
  shows "default_args2 n b (strtok blank l) =
    Some (filter (\<lambda>w. \<not> is_amp w) (words l), if \<exists>w\<in>set (words l). is_amp w then 0 else b)"
  using assms
proof (induction "length l" arbitrary: l n b rule: less_induct)
  case less
  obtain m where n: "n = Suc m" using less.prems(2) by (cases n) auto
  obtain o' rest where st: "strtok blank l = (o', rest)" by (cases "strtok blank l")
  show ?case
  proof (cases o')
    case None
    with st words_strtok [of l] n show ?thesis by simp
  next
    case (Some t)
    note w = words_rest [OF st [unfolded Some]]
    have l: "length rest < MAX_IN_LENGTH" "length t < MAX_IN_LENGTH" using w less.prems(1) by simp_all
    show ?thesis
    proof (cases "is_amp t")
      case True
      with less.hyps [OF w(3) l(1), of n 0] less.prems(2) w(1) st Some n show ?thesis
        by (simp add: default_args2_word del: default_args2.simps(3))
    next
      case False
      with less.hyps [OF w(3) l(1), of m b] less.prems(2) w(1) st Some n l(2) show ?thesis
        by (simp add: default_args2_word del: default_args2.simps(3))
    qed
  qed
qed

lemma selectOption1_cases:
  assumes "selectOption1 sz s = Some (v, t)"
  shows "v \<in> {-5..-1} \<or> 0 \<le> v \<and> v \<le> sz" "inp t = [] \<or> length (inp t) < length (inp s)"
    "io.more t = io.more s" "v \<noteq> OPT_E \<Longrightarrow> inp s \<noteq> [] \<and> length (inp t) < length (inp s)"
proof -
  have "(v \<in> {-5..-1} \<or> 0 \<le> v \<and> v \<le> sz) \<and> (inp t = [] \<or> length (inp t) < length (inp s)) \<and>
    io.more t = io.more s \<and> (v \<noteq> OPT_E \<longrightarrow> inp s \<noteq> [] \<and> length (inp t) < length (inp s))"
    using assms
    by (auto simp: selectOption1_def bind_eq_Some_conv Let_def dest!: read_line_frame split: if_splits)
  then show "v \<in> {-5..-1} \<or> 0 \<le> v \<and> v \<le> sz" "inp t = [] \<or> length (inp t) < length (inp s)"
    "io.more t = io.more s" "v \<noteq> OPT_E \<Longrightarrow> inp s \<noteq> [] \<and> length (inp t) < length (inp s)" by blast+
qed

lemma selectOption2_cases:
  assumes "selectOption2 sz s = Some (v, t)"
  shows "v \<in> {-6..-1} \<or> 0 \<le> v \<and> v < sz" "inp t = [] \<or> length (inp t) < length (inp s)"
    "io.more t = io.more s" "v \<noteq> OPT_E \<Longrightarrow> inp s \<noteq> [] \<and> length (inp t) < length (inp s)"
proof -
  have "(v \<in> {-6..-1} \<or> 0 \<le> v \<and> v < sz) \<and> (inp t = [] \<or> length (inp t) < length (inp s)) \<and>
    io.more t = io.more s \<and> (v \<noteq> OPT_E \<longrightarrow> inp s \<noteq> [] \<and> length (inp t) < length (inp s))"
    using assms
    by (auto simp: selectOption2_def bind_eq_Some_conv Let_def dest!: read_line_frame split: if_splits)
  then show "v \<in> {-6..-1} \<or> 0 \<le> v \<and> v < sz" "inp t = [] \<or> length (inp t) < length (inp s)"
    "io.more t = io.more s" "v \<noteq> OPT_E \<Longrightarrow> inp s \<noteq> [] \<and> length (inp t) < length (inp s)" by blast+
qed

text \<open>What is typed as a number is selected, up to the limit each version has.\<close>

lemma select_number:
  assumes "inp s = dec_nat v @ newline # rest" "v < 100000"
  shows "selectOption1 sz s = Some (if int v \<le> sz then int v else -1, s\<lparr>inp := rest\<rparr>)"
    "selectOption2 sz s = Some (if int v < sz then int v else -1, s\<lparr>inp := rest\<rparr>)"
proof -
  let ?l = "dec_nat v"
  note l = dec_nat_line [OF assms(2)]
  have r: "read_line MAX_IN_LENGTH MAX_IN_LENGTH s = Some (?l @ [newline], s\<lparr>inp := rest\<rparr>)"
    using read_line_line [OF assms(1) l(1,2)] l(3) by simp
  have e: "\<not> met_eof MAX_IN_LENGTH (inp s)"
    using fgets_line [OF l(1), of MAX_IN_LENGTH rest] l(3) assms(1) by (simp add: met_eof_def)
  obtain c cs where c: "?l = c # cs" "isdigit c" using l(4) by (cases ?l) auto
  have a: "atoi (c # cs @ [newline]) = Some (int v)" using l(5) c(1) by simp
  have "c \<noteq> CHR ''a''" "c \<noteq> CHR ''c''" "c \<noteq> CHR ''e''" "c \<noteq> CHR ''p''" "c \<noteq> CHR ''r''"
    using c(2) by (auto simp: isdigit_def code_def)
  with e r a c show "selectOption1 sz s = Some (if int v \<le> sz then int v else -1, s\<lparr>inp := rest\<rparr>)"
    "selectOption2 sz s = Some (if int v < sz then int v else -1, s\<lparr>inp := rest\<rparr>)"
    by (simp_all add: selectOption1_def selectOption2_def)
qed

section \<open>Properties\<close>

lemma read_name:
  assumes "inp s = l @ newline # rest" "newline \<notin> set l" "nul \<notin> set l" "Suc (length l) < MAX_IN_LENGTH - 6"
  shows "read_line (MAX_IN_LENGTH - 6) MAX_IN_LENGTH (put str s) = Some (l @ [newline], (put str s)\<lparr>inp := rest\<rparr>)"
  by (rule read_line_line) (use assms in auto)



text \<open>The options \<open>selectOption\<close> (v2) returns: a letter option, -1, or an index of the array; it
  never reads past the end of the input.\<close>

theorem selectOption2_in_range:
  assumes "selectOption2 (int n) s = Some (v, t)"
  shows "v \<in> {OPT_R..-1} \<or> in_range v n"
  using selectOption2_cases(1) [OF assms] by (auto simp: in_range_def)

theorem selectOption2_in_range_witness:
  "\<exists>v t. selectOption2 (int 3) \<lparr>inp = ''2'' @ [newline], out = []\<rparr> = Some (v, t) \<and> (v \<in> {OPT_R..-1} \<or> in_range v 3)"
proof -
  have "map_option fst (selectOption2 (int 3) \<lparr>inp = ''2'' @ [newline], out = []\<rparr>) = Some 2" by code_simp
  then obtain t where "selectOption2 (int 3) \<lparr>inp = ''2'' @ [newline], out = []\<rparr> = Some (2, t)" by auto
  with selectOption2_in_range [OF this] show ?thesis by blast
qed

text \<open>\<open>addOption\<close> declares \<open>nameStr\<close> with 194 characters and lets \<open>fgets\<close> write 200: in both
  versions a command line of 194 to 198 characters overruns the array.\<close>

theorem addOption_overflow:
  assumes "inp s = l @ newline # rest" "newline \<notin> set l"
    and "MAX_IN_LENGTH - 6 \<le> length l" "Suc (length l) < MAX_IN_LENGTH"
  shows "addOption1 alloc cmds s = None \<and> addOption2 alloc cmds' s = None"
proof -
  have "fgets MAX_IN_LENGTH (inp s) = Some (l @ [newline], rest)" using fgets_line [OF assms(2,4)] assms(1) by simp
  then have "read_line (MAX_IN_LENGTH - 6) MAX_IN_LENGTH (put ''Command?: '' s) = None"
    using assms(3) by (simp add: read_line_def)
  then show ?thesis
    by (simp_all add: addOption1_def addOption2_def Let_def)
qed

theorem addOption_overflow_witness:
  "addOption1 True [] \<lparr>inp = replicate 194 CHR ''x'' @ newline # [], out = []\<rparr> = None \<and>
   addOption2 True [] \<lparr>inp = replicate 194 CHR ''x'' @ newline # [], out = []\<rparr> = None"
  using addOption_overflow [of "\<lparr>inp = replicate 194 CHR ''x'' @ newline # [], out = []\<rparr>" "replicate 194 CHR ''x''" "[]"]
  by simp

end
