(* ===== verification/MidDay1.thy ===== *)
theory MidDay1
  imports Options
begin

text \<open>
  Project1/v1/mc1.c: the menu with user-defined commands. What the operating system does is a
  parameter, the record \<open>sys\<close>: the outcome of every \<open>fork\<close>, the working directory after
  the requests to change it, whether the allocation of an option succeeds, and what a program
  finds in the dead stack frame of \<open>addOption\<close>, through which \<open>defArgs\<close> points.
\<close>

section \<open>The program\<close>

abbreviation MAX_ARGS :: nat where "MAX_ARGS \<equiv> 40"
abbreviation MAX_DIR_LENGTH :: nat where "MAX_DIR_LENGTH \<equiv> 128"

record sys =
  sys_alloc :: "nat \<Rightarrow> bool"
  sys_cwd :: "string list \<Rightarrow> string"
  sys_frame :: "string list \<Rightarrow> string list option"

record sys1 = sys +
  sys_fork :: "nat \<Rightarrow> outcome"

record mc1 = shell +
  cmds :: "option1 list"
  chdirs :: "string list"

definition elapsed1 :: "time \<Rightarrow> time \<Rightarrow> int" where
  "elapsed1 start stop =
     (let seconds = fst stop - fst start; microseconds = snd stop - snd start;
          milliseconds = seconds * 1000
      in milliseconds + microseconds sdiv 1000)"

definition statistics1 :: "time \<Rightarrow> time \<Rightarrow> int \<Rightarrow> int \<Rightarrow> 'a io_scheme \<Rightarrow> 'a io_scheme" where
  "statistics1 start stop majflt minflt s =
     (let s = put (newline # line ''--- Statistics ---'') s;
          milliseconds = elapsed1 start stop;
          s = (if milliseconds < 1 then put (line ''Elapsed time: <1 millisecond'') s
               else put (line (''Elapsed time: '' @ dec milliseconds @ '' milliseconds'')) s)
      in put (line (''Page faults (reclaimed): '' @ dec minflt)) (put (line (''Page faults: '' @ dec majflt)) s))"

definition executeCommand1 :: "sys1 \<Rightarrow> arg list \<Rightarrow> nat \<Rightarrow> mc1 \<Rightarrow> mc1 option" where
  "executeCommand1 sys args argc s = do {
     let s' = s\<lparr>forks := Suc (forks s)\<rparr>;
     s \<leftarrow> (case sys_fork sys (forks s) of
         Fork_failed \<Rightarrow> Some (put (line ''Fork failed; aborting...'') s')
       | Child \<Rightarrow> do { av \<leftarrow> argv args; Some (s'\<lparr>execs := execs s @ [av]\<rparr>) }
       | Waited start stop majflt minflt \<Rightarrow> do {
           av \<leftarrow> argv args;
           Some (statistics1 start stop majflt minflt (s'\<lparr>execs := execs s @ [av]\<rparr>)) });
     if freeable args 1 argc then Some s else None }"

text \<open>The default arguments: \<open>defArgs[argsSize - 1]\<close> is read until a NULL or the bound; \<open>n\<close> is
  \<open>MAX_DEF_ARGS - argsSize\<close>.\<close>

fun unpack_args :: "nat \<Rightarrow> arg list \<times> nat \<Rightarrow> string list \<Rightarrow> (arg list \<times> nat) option" where
  "unpack_args 0 st ds = Some st"
| "unpack_args (Suc n) st [] = Some st"
| "unpack_args (Suc n) (args, i) (d # ds) = do {
     w \<leftarrow> strcpy MAX_IN_LENGTH d;
     args \<leftarrow> arr_set args (int i) (Arg w);
     unpack_args n (args, Suc i) ds }"

definition default_arguments :: "'x sys_scheme \<Rightarrow> def_args \<Rightarrow> arg list \<times> nat \<Rightarrow> (arg list \<times> nat) option" where
  "default_arguments sys defArgs st = (case defArgs of
      No_args \<Rightarrow> Some st
    | Frame ds \<Rightarrow> do { ds \<leftarrow> sys_frame sys ds; unpack_args (MAX_DEF_ARGS - snd st) st ds })"

definition user_arguments :: "arg list \<times> nat \<Rightarrow> 'a io_scheme \<Rightarrow> ((arg list \<times> nat) \<times> 'a io_scheme) option" where
  "user_arguments st s = do {
     (buf, s) \<leftarrow> read_line MAX_IN_LENGTH MAX_IN_LENGTH (put ''Arguments?: '' s);
     let buf = cleanNewline buf;
     st \<leftarrow> (if buf \<noteq> [] then fill_args MAX_IN_LENGTH (MAX_ARGS - 1 - snd st) st (strtok blank buf) else Some st);
     Some (st, s) }"

definition path_argument :: "arg list \<times> nat \<Rightarrow> 'a io_scheme \<Rightarrow> ((arg list \<times> nat) \<times> 'a io_scheme) option" where
  "path_argument st s = do {
     (buf, s) \<leftarrow> read_line MAX_IN_LENGTH MAX_IN_LENGTH (put ''Path?: '' s);
     let buf = cleanNewline buf;
     if buf \<noteq> [] then do {
       w \<leftarrow> strcpy MAX_IN_LENGTH buf;
       args \<leftarrow> arr_set (fst st) (int (snd st)) (Arg w);
       Some ((args, Suc (snd st)), s) }
     else Some (st, s) }"

text \<open>From the header of the command to the terminated argument array.\<close>

definition collect_args :: "'x sys_scheme \<Rightarrow> 'o option1_scheme \<Rightarrow> 'a io_scheme \<Rightarrow> ((arg list \<times> nat) \<times> 'a io_scheme) option" where
  "collect_args sys cmd s = do {
     let s = put (line (o_head cmd)) (put [newline] s);
     args \<leftarrow> arr_set (replicate (MAX_ARGS + 1) Unset) 0 (Arg (o_path cmd));
     st \<leftarrow> default_arguments sys (o_defArgs cmd) (args, 1);
     (st, s) \<leftarrow> (if o_args cmd \<noteq> 0 then user_arguments st s else Some (st, s));
     (st, s) \<leftarrow> (if o_argPath cmd \<noteq> 0 then path_argument st s else Some (st, s));
     args \<leftarrow> arr_set (fst st) (int (snd st)) NullPtr;
     Some ((args, Suc (snd st)), s) }"

definition runOption1 :: "sys1 \<Rightarrow> int \<Rightarrow> mc1 \<Rightarrow> mc1 option" where
  "runOption1 sys option s = do {
     cmd \<leftarrow> arr_get (cmds s) option;
     ((args, argsSize), s) \<leftarrow> collect_args sys cmd s;
     s \<leftarrow> executeCommand1 sys args argsSize s;
     Some (put [newline] s) }"

definition menu1 :: "mc1 \<Rightarrow> mc1" where
  "menu1 s = (let s = put (line ''Taimi speaking. What command would you like to run?'') s;
       s = fold (\<lambda>i s. put (line (''   '' @ dec (int i) @ ''. '' @ o_name (cmds s ! i) @ [tab] @ '': '' @ o_desc (cmds s ! i))) s)
             [0..<length (cmds s)] s;
       s = put (line ''   a. add command : Adds a new command to the menu.'') s;
       s = put (line ''   c. change directory : Changes the process working directory.'') s;
       s = put (line ''   e. exit : Leave Mid-Day Commander.'') s;
       s = put (line ''   p. pwd : Prints the working directory.'') s
     in put ''Option?: '' s)"

text \<open>The letter options of the menu and the invalid choice; the Boolean is \<open>finished\<close>.\<close>

definition changeDirectory1 :: "mc1 \<Rightarrow> mc1 option" where
  "changeDirectory1 s = do {
     (path, s) \<leftarrow> read_line MAX_IN_LENGTH MAX_IN_LENGTH (put ''Path?: '' s);
     Some (put [newline] (s\<lparr>chdirs := chdirs s @ [cleanNewline path]\<rparr>)) }"

definition printDirectory1 :: "'x sys_scheme \<Rightarrow> mc1 \<Rightarrow> mc1 option" where
  "printDirectory1 sys s = do {
     path \<leftarrow> strcpy MAX_DIR_LENGTH (sys_cwd sys (chdirs s));
     Some (put [newline] (put (line (''cwd: '' @ path)) s)) }"

definition addCommand1 :: "'x sys_scheme \<Rightarrow> mc1 \<Rightarrow> mc1 option" where
  "addCommand1 sys s = do {
     ((cs, id), s) \<leftarrow> addOption1 (sys_alloc sys (length (cmds s))) (cmds s) s;
     let s = s\<lparr>cmds := cs\<rparr>;
     Some (put [newline] (if id < 0 then put (line ''Failed to add option.'') s
                          else put (line (''Added with ID '' @ dec id)) s)) }"

definition mc1_round :: "sys1 \<Rightarrow> mc1 \<Rightarrow> (bool \<times> mc1) option" where
  "mc1_round sys s = do {
     (option, s) \<leftarrow> selectOption1 (int (length (cmds s))) (menu1 s);
     if option = -1 then Some (False, put (line ''Invalid choice.'') s)
     else if option = OPT_A then map_option (Pair False) (addCommand1 sys s)
     else if option = OPT_C then map_option (Pair False) (changeDirectory1 s)
     else if option = OPT_E then Some (True, s)
     else if option = OPT_P then map_option (Pair False) (printDirectory1 sys s)
     else map_option (Pair False) (runOption1 sys option s) }"

section \<open>The loop ends\<close>

lemma fold_put_inp [simp]: "inp (fold (\<lambda>i s. put (f i s) s) xs s) = inp s"
  by (induction xs arbitrary: s) auto

lemma fold_put_more [simp]: "io.more (fold (\<lambda>i s. put (f i s) s) xs s) = io.more s"
  by (induction xs arbitrary: s) auto

lemma mc1_more: "io.more t = io.more s \<Longrightarrow> cmds t = cmds s \<and> chdirs t = chdirs s" for s t :: mc1
  by (cases s; cases t) simp

lemma menu1_simps [simp]: "inp (menu1 s) = inp s" "io.more (menu1 s) = io.more s"
  by (simp_all add: menu1_def Let_def)

lemma addOption1_less: "addOption1 a c s = Some (r, t) \<Longrightarrow> length (inp t) < length (inp s)"
  by (auto simp: addOption1_def bind_eq_Some_conv Let_def dest!: read_line_frame split: if_splits prod.splits)

lemma user_arguments_less:
  "user_arguments st s = Some (st', t) \<Longrightarrow> length (inp t) < length (inp s) \<and> io.more t = io.more s"
  by (auto simp: user_arguments_def bind_eq_Some_conv Let_def dest!: read_line_frame split: if_splits)

lemma path_argument_less:
  "path_argument st s = Some (st', t) \<Longrightarrow> length (inp t) < length (inp s) \<and> io.more t = io.more s"
  by (auto simp: path_argument_def bind_eq_Some_conv Let_def dest!: read_line_frame split: if_splits)

lemma collect_args_le:
  "collect_args sys cmd s = Some (st, t) \<Longrightarrow> length (inp t) \<le> length (inp s) \<and> io.more t = io.more s"
  by (auto simp: collect_args_def bind_eq_Some_conv Let_def dest!: user_arguments_less path_argument_less
      split: if_splits)

lemma statistics1_inp [simp]: "inp (statistics1 a b c d s) = inp s"
  by (simp add: statistics1_def Let_def)

lemma executeCommand1_inp: "executeCommand1 sys args argc s = Some t \<Longrightarrow> inp t = inp s"
  by (auto simp: executeCommand1_def bind_eq_Some_conv Let_def split: outcome.splits if_splits)

lemma runOption1_le: "runOption1 sys v s = Some t \<Longrightarrow> length (inp t) \<le> length (inp s)"
  by (auto simp: runOption1_def bind_eq_Some_conv dest!: collect_args_le executeCommand1_inp)

lemma changeDirectory1_le: "changeDirectory1 s = Some t \<Longrightarrow> length (inp t) \<le> length (inp s)"
  by (auto simp: changeDirectory1_def bind_eq_Some_conv dest!: read_line_frame)

lemma printDirectory1_le: "printDirectory1 sys s = Some t \<Longrightarrow> length (inp t) \<le> length (inp s)"
  by (auto simp: printDirectory1_def bind_eq_Some_conv)

lemma addCommand1_le: "addCommand1 sys s = Some t \<Longrightarrow> length (inp t) \<le> length (inp s)"
  by (auto simp: addCommand1_def bind_eq_Some_conv Let_def dest!: addOption1_less)

lemmas commands1_le = runOption1_le changeDirectory1_le printDirectory1_le addCommand1_le

lemma mc1_round_less:
  assumes "mc1_round sys s = Some (False, t)"
  shows "length (inp t) < length (inp s)"
proof -
  from assms obtain v u where v: "selectOption1 (int (length (cmds s))) (menu1 s) = Some (v, u)"
    by (auto simp: mc1_round_def bind_eq_Some_conv)
  with assms have "v \<noteq> OPT_E" and "length (inp t) \<le> length (inp u)"
    by (auto simp: mc1_round_def split: if_splits dest!: commands1_le)
  with selectOption1_cases(4) [OF v] show ?thesis by simp
qed

text \<open>The loop: it is over at the latest when the input is, because \<open>selectOption\<close> asks for the
  end of the input first.\<close>

function mc1_loop :: "sys1 \<Rightarrow> mc1 \<Rightarrow> mc1 option" where
  "mc1_loop sys s = do {
     (finished, t) \<leftarrow> mc1_round sys s;
     if finished then Some (put (line ''Exiting...'') t) else mc1_loop sys t }"
  by pat_completeness auto
termination
  by (relation "measure (\<lambda>(sys, s). length (inp s))") (auto dest: mc1_round_less)

declare mc1_loop.simps [simp del]

text \<open>The three commands the menu starts with; the program exits if one cannot be added.\<close>

definition default_commands1 :: "'x sys_scheme \<Rightarrow> (option1 list \<times> int) option" where
  "default_commands1 sys = do {
     (cs, r) \<leftarrow> appendOption1 (sys_alloc sys 0) [] ''whoami'' ''whoami''
        ''Prints out the result of the 'whoami' command.'' ''-- Who am I? --'' No_args 0 0;
     if r < 0 then Some (cs, -1) else do {
       (cs, r) \<leftarrow> appendOption1 (sys_alloc sys 1) cs ''last'' ''last''
          ''Prints out the result of the 'last' command.'' ''-- Last logins --'' No_args 0 0;
       if r < 0 then Some (cs, -1) else do {
         (cs, r) \<leftarrow> appendOption1 (sys_alloc sys 2) cs ''ls'' ''ls''
            ''Prints out the result of the 'ls' command.'' ''-- Directory listing --'' No_args 1 1;
         if r < 0 then Some (cs, -1) else Some (cs, 0) } } }"

definition mc1_main :: "sys1 \<Rightarrow> string \<Rightarrow> mc1 option" where
  "mc1_main sys input = do {
     (cs, r) \<leftarrow> default_commands1 sys;
     let s = \<lparr>inp = input, out = [], forks = 0, execs = [], cmds = cs, chdirs = []\<rparr>;
     if r < 0 then Some (put (line ''Failed to add default commands.'') s)
     else mc1_loop sys (put (line ''===== Mid-Day Commander, v1 ====='') s) }"

section \<open>The argument array\<close>

lemma unpack_args_eq:
  assumes "\<forall>d\<in>set ds. length d < MAX_IN_LENGTH" "i + n \<le> length args"
  shows "unpack_args n (args, i) ds = Some (put_args args i (take n ds), i + min n (length ds))"
  using assms
proof (induction n "(args, i)" ds arbitrary: args i rule: unpack_args.induct)
  case (3 n args i d ds)
  then have i: "i < length args" by simp
  with 3 put_args_Cons [OF i, of d "take n ds"] show ?case by simp
qed auto

text \<open>All the arguments of a command: its path, at most nineteen default arguments, words of the
  line as long as there is room, the path argument.\<close>

definition command_line :: "string \<Rightarrow> string list \<Rightarrow> string list \<Rightarrow> string \<Rightarrow> string list" where
  "command_line path ds ws p =
     (let us = path # take (MAX_DEF_ARGS - 1) ds
      in us @ take (MAX_ARGS - 1 - length us) ws @ (if p = [] then [] else [p]))"

lemma put_args_Unset:
  assumes "length us + length ws \<le> N"
  shows "put_args (map Arg us @ replicate (N - length us) Unset) (length us) ws =
    map Arg (us @ ws) @ replicate (N - length (us @ ws)) Unset"
  using assms by (simp add: put_args_map)

definition filled :: "string list \<Rightarrow> arg list \<times> nat" where
  "filled us = (map Arg us @ replicate (MAX_ARGS + 1 - length us) Unset, length us)"

lemma snd_filled [simp]: "snd (filled us) = length us"
  by (simp add: filled_def)

lemma length_filled [simp]: "length us \<le> MAX_ARGS + 1 \<Longrightarrow> length (fst (filled us)) = MAX_ARGS + 1"
  by (simp add: filled_def)

lemma filled_pair: "filled us = (fst (filled us), length us)"
  by (simp add: filled_def)

lemma filled_more:
  assumes "length us + length ws \<le> MAX_ARGS + 1"
  shows "(put_args (fst (filled us)) (length us) ws, length us + length ws) = filled (us @ ws)"
  using put_args_Unset [OF assms] by (simp add: filled_def)

lemma arr_set_filled:
  assumes "length us \<le> MAX_ARGS"
  shows "arr_set (fst (filled us)) (int (length us)) x =
    Some (map Arg us @ x # replicate (MAX_ARGS - length us) Unset)"
proof -
  have "MAX_ARGS + 1 - length us = Suc (MAX_ARGS - length us)" using assms by simp
  then have "(fst (filled us))[length us := x] = map Arg us @ x # replicate (MAX_ARGS - length us) Unset"
    by (simp add: filled_def list_update_append)
  moreover have "length us < length (fst (filled us))" using assms by simp
  ultimately show ?thesis using arr_set_int [of "length us" "fst (filled us)" x] by simp
qed

lemma default_arguments_eq:
  assumes "defArgs = No_args \<and> ds = [] \<or> (\<exists>ds'. defArgs = Frame ds' \<and> sys_frame sys ds' = Some ds)"
    and "\<forall>d\<in>set ds. length d < MAX_IN_LENGTH"
  shows "default_arguments sys defArgs (filled [path]) = Some (filled (path # take (MAX_DEF_ARGS - 1) ds))"
proof -
  have "unpack_args (MAX_DEF_ARGS - 1) (filled [path]) ds =
      Some (put_args (fst (filled [path])) 1 (take (MAX_DEF_ARGS - 1) ds), 1 + length (take (MAX_DEF_ARGS - 1) ds))"
    using unpack_args_eq [OF assms(2), of 1 "MAX_DEF_ARGS - 1" "fst (filled [path])"]
    by (subst filled_pair) (simp add: min.commute)
  also have "\<dots> = Some (filled ([path] @ take (MAX_DEF_ARGS - 1) ds))"
    using filled_more [of "[path]" "take (MAX_DEF_ARGS - 1) ds"] by simp
  finally show ?thesis using assms(1) by (auto simp: default_arguments_def)
qed

lemma user_arguments_eq:
  assumes "inp s = a @ newline # rest" "newline \<notin> set a" "nul \<notin> set a" "Suc (length a) < MAX_IN_LENGTH"
    and "length us < MAX_ARGS"
  shows "user_arguments (filled us) s =
    Some (filled (us @ take (MAX_ARGS - 1 - length us) (words a)), (put ''Arguments?: '' s)\<lparr>inp := rest\<rparr>)"
proof -
  let ?ws = "take (MAX_ARGS - 1 - length us) (words a)"
  have r: "read_line MAX_IN_LENGTH MAX_IN_LENGTH (put ''Arguments?: '' s) =
      Some (a @ [newline], (put ''Arguments?: '' s)\<lparr>inp := rest\<rparr>)"
    by (rule read_line_line) (use assms in auto)
  have "fill_args MAX_IN_LENGTH (MAX_ARGS - 1 - length us) (filled us) (strtok blank a) =
      Some (put_args (fst (filled us)) (length us) ?ws, length us + length ?ws)"
    using fill_args_words [of a MAX_IN_LENGTH "length us" "MAX_ARGS - 1 - length us" "fst (filled us)"] assms(4,5)
    by (subst filled_pair) (simp add: min.commute)
  then have f: "fill_args MAX_IN_LENGTH (MAX_ARGS - 1 - length us) (filled us) (strtok blank a) = Some (filled (us @ ?ws))"
    using filled_more [of us ?ws] assms(5) by simp
  show ?thesis
  proof (cases "a = []")
    case True
    then have "words a = []" by (simp add: words_def)
    with r True show ?thesis by (simp add: user_arguments_def)
  next
    case False
    with r f assms(2) show ?thesis by (simp add: user_arguments_def)
  qed
qed

lemma path_argument_eq:
  assumes "inp s = p @ newline # rest" "newline \<notin> set p" "nul \<notin> set p" "Suc (length p) < MAX_IN_LENGTH"
    and "length us \<le> MAX_ARGS"
  shows "path_argument (filled us) s =
    Some (filled (us @ (if p = [] then [] else [p])), (put ''Path?: '' s)\<lparr>inp := rest\<rparr>)"
proof -
  have r: "read_line MAX_IN_LENGTH MAX_IN_LENGTH (put ''Path?: '' s) =
      Some (p @ [newline], (put ''Path?: '' s)\<lparr>inp := rest\<rparr>)"
    by (rule read_line_line) (use assms in auto)
  have "map Arg us @ Arg p # replicate (MAX_ARGS - length us) Unset = fst (filled (us @ [p]))" by (simp add: filled_def)
  then have "(map Arg us @ Arg p # replicate (MAX_ARGS - length us) Unset, Suc (length us)) = filled (us @ [p])"
    by (simp add: filled_def)
  with arr_set_filled [OF assms(5), of "Arg p"] r assms(2,4) show ?thesis
    by (simp add: path_argument_def)
qed

text \<open>The lines the two prompts read.\<close>

definition prompted :: "'o option1_scheme \<Rightarrow> string \<Rightarrow> string \<Rightarrow> string \<Rightarrow> string" where
  "prompted cmd a p rest = (if o_args cmd \<noteq> 0 then a @ [newline] else []) @
     (if o_argPath cmd \<noteq> 0 then p @ [newline] else []) @ rest"

definition good_text :: "string \<Rightarrow> bool" where
  "good_text l \<longleftrightarrow> newline \<notin> set l \<and> nul \<notin> set l \<and> Suc (length l) < MAX_IN_LENGTH"

lemma collect_args_eq:
  assumes "o_defArgs cmd = No_args \<and> ds = [] \<or> (\<exists>ds'. o_defArgs cmd = Frame ds' \<and> sys_frame sys ds' = Some ds)"
    and "\<forall>d\<in>set ds. length d < MAX_IN_LENGTH"
    and "inp s = prompted cmd a p rest" "good_text a" "good_text p"
    and "o_args cmd = 0 \<Longrightarrow> a = []" "o_argPath cmd = 0 \<Longrightarrow> p = []"
  shows "\<exists>t. collect_args sys cmd s =
      Some ((map Arg (command_line (o_path cmd) ds (words a) p) @
        NullPtr # replicate (MAX_ARGS - length (command_line (o_path cmd) ds (words a) p)) Unset,
        Suc (length (command_line (o_path cmd) ds (words a) p))), t) \<and> inp t = rest \<and> io.more t = io.more s"
proof -
  let ?us = "o_path cmd # take (MAX_DEF_ARGS - 1) ds"
  let ?vs = "?us @ take (MAX_ARGS - 1 - length ?us) (words a)"
  let ?s = "put (line (o_head cmd)) (put [newline] s)"
  have us: "length ?us < MAX_ARGS" by simp
  have vs: "length ?vs \<le> MAX_ARGS - 1" by auto
  have init: "arr_set (replicate (MAX_ARGS + 1) Unset) 0 (Arg (o_path cmd)) = Some (fst (filled [o_path cmd]))"
    by (simp add: arr_set_def in_range_def filled_def numeral_eq_Suc)
  have w0: "words [] = []" by (simp add: words_def)
  obtain t where t: "(if o_args cmd \<noteq> 0 then user_arguments (filled ?us) ?s else Some (filled ?us, ?s)) = Some (filled ?vs, t)"
    "inp t = (if o_argPath cmd \<noteq> 0 then p @ [newline] else []) @ rest" "io.more t = io.more s"
    using user_arguments_eq [of ?s a "(if o_argPath cmd \<noteq> 0 then p @ [newline] else []) @ rest" ?us] assms(3,4,6) us w0
    by (cases "o_args cmd = 0") (auto simp: prompted_def good_text_def)
  obtain u where u: "(if o_argPath cmd \<noteq> 0 then path_argument (filled ?vs) t else Some (filled ?vs, t)) =
      Some (filled (command_line (o_path cmd) ds (words a) p), u)" "inp u = rest" "io.more u = io.more s"
    using path_argument_eq [of t p rest ?vs] assms(5,7) t(2,3) vs
    by (cases "o_argPath cmd = 0") (auto simp: good_text_def command_line_def Let_def)
  have "length (command_line (o_path cmd) ds (words a) p) \<le> MAX_ARGS" using vs by (auto simp: command_line_def Let_def)
  note nl = arr_set_filled [OF this, of NullPtr]
  have def': "default_arguments sys (o_defArgs cmd) (fst (filled [o_path cmd]), 1) = Some (filled ?us)"
    using default_arguments_eq [OF assms(1,2), of "o_path cmd"] by (simp add: filled_def)
  show ?thesis
    using init def' t(1) u nl
    by (cases "o_args cmd = 0"; cases "o_argPath cmd = 0") (simp_all add: collect_args_def Let_def)
qed

section \<open>Properties\<close>

lemma command_line_not_Unset:
  "Unset \<notin> set (take (n - 1) (drop 1 (map Arg ws @ [NullPtr])))"
  by (auto dest!: in_set_takeD in_set_dropD)

lemma executeCommand1_line:
  assumes "sys_fork sys (forks s) \<noteq> Fork_failed" "length ws \<le> MAX_ARGS"
  shows "\<exists>t. executeCommand1 sys (map Arg ws @ NullPtr # replicate (MAX_ARGS - length ws) Unset) (Suc (length ws)) s = Some t \<and>
    execs t = execs s @ [ws] \<and> inp t = inp s"
proof -
  let ?args = "map Arg ws @ NullPtr # replicate (MAX_ARGS - length ws) Unset"
  have "take (Suc (length ws) - 1) (drop 1 ?args) = take (Suc (length ws) - 1) (drop 1 (map Arg ws @ [NullPtr]))"
    by (cases ws) auto
  then have "freeable ?args 1 (Suc (length ws))"
    using command_line_not_Unset [of "Suc (length ws)" ws] assms(2) by (simp only: freeable_def) simp
  with assms(1) show ?thesis
    by (cases "sys_fork sys (forks s)") (auto simp: executeCommand1_def statistics1_def Let_def put_def)
qed


text \<open>A system in which nothing fails and dead stack frames stay as they were.\<close>

definition calm :: sys1 where
  "calm = \<lparr>sys_alloc = (\<lambda>k. True), sys_cwd = (\<lambda>ds. ''/''), sys_frame = Some, sys_fork = (\<lambda>k. Waited (0, 0) (1, 0) 0 0)\<rparr>"

definition ls_option :: option1 where
  "ls_option = \<lparr>o_path = ''ls'', o_name = ''ls'', o_desc = ''Prints out the result of the 'ls' command.'',
     o_head = ''-- Directory listing --'', o_defArgs = No_args, o_args = 1, o_argPath = 1\<rparr>"


text \<open>The option one past the last is let through. \<open>selectOption\<close> compares the number typed
  with the number of options by \<open><=\<close>, so typing the number of options selects an option that does
  not exist, and the round reads beyond the array, with what is not an option there, whatever the
  system does.\<close>

theorem mc1_past_the_end:
  assumes "inp s = dec (int (length (cmds s))) @ newline # rest" "length (cmds s) < 100000"
  shows "mc1_round sys s = None"
proof -
  have "inp (menu1 s) = dec_nat (length (cmds s)) @ newline # rest"
    using assms(1) by (simp add: dec_def)
  from select_number(1) [OF this assms(2), of "int (length (cmds s))"] mc1_more [OF menu1_simps(2), of s] show ?thesis
    by (simp add: mc1_round_def runOption1_def arr_get_def)
qed

theorem mc1_past_the_end_witness:
  "mc1_round calm \<lparr>inp = ''1'' @ newline # ''e'', out = [], forks = 0, execs = [], cmds = [ls_option], chdirs = []\<rparr> = None"
  by (rule mc1_past_the_end [of _ "''e''"]) (simp_all, code_simp)

end
