(* ===== verification/Jobs.thy ===== *)
theory Jobs
  imports MidDay0 MidDay1
begin

text \<open>
  Project1/v2/cprocess.c: the table of background processes and the numbering of jobs. The array
  comes with its length, which is the \<open>size\<close> every caller passes (\<open>MAX_BGPROCESSES\<close>); a
  pointer to a tracker is its index, and NULL is \<open>None\<close>. The global \<open>jobCounter\<close> is an
  argument and a result. The time, the result of \<open>fork\<close> and the resource usage are parameters.
\<close>

section \<open>The operations\<close>

abbreviation MAX_BGPROCESSES :: nat where "MAX_BGPROCESSES \<equiv> 100"

record cprocess =
  cp_start :: time
  cp_stop :: time
  cp_pid :: int
  cp_jobnum :: int

definition decrementJobs :: "cprocess list \<Rightarrow> int \<Rightarrow> int \<Rightarrow> cprocess list \<times> int" where
  "decrementJobs array jobCounter n =
     (map (\<lambda>p. if cp_jobnum p > n then p\<lparr>cp_jobnum := cp_jobnum p - 1\<rparr> else p) array, jobCounter - 1)"

definition findProcess :: "cprocess list \<Rightarrow> int \<Rightarrow> nat option" where
  "findProcess array pid = first_index (\<lambda>i. cp_pid (array ! i) = pid) (length array)"

definition findJobnum :: "cprocess list \<Rightarrow> int \<Rightarrow> nat option" where
  "findJobnum array n = first_index (\<lambda>i. cp_jobnum (array ! i) = n) (length array)"

text \<open>What \<open>executeCommand\<close> does with the given result of \<open>fork\<close>. The result 0 is the child;
  it goes on after \<open>execvp\<close> only if that fails. The command a child is asked to execute is
  recorded in \<open>execs\<close> on both sides.\<close>

definition executeCommand2 :: "time \<Rightarrow> int \<Rightarrow> arg list \<Rightarrow> nat \<Rightarrow> cprocess \<Rightarrow> 'a shell_scheme \<Rightarrow>
    (cprocess \<times> 'a shell_scheme) option" where
  "executeCommand2 now fork args argc tracker s = do {
     let tracker = tracker\<lparr>cp_start := now, cp_pid := fork\<rparr>;
     let s = s\<lparr>forks := Suc (forks s)\<rparr>;
     if cp_pid tracker = -1 then Some (tracker, put (line ''Fork failed; aborting...'') s)
     else if cp_pid tracker = 0 then do {
       av \<leftarrow> argv args;
       Some (tracker, s\<lparr>execs := execs s @ [av]\<rparr>) }
     else do {
       av \<leftarrow> argv args;
       if freeable args 1 argc then Some (tracker, s\<lparr>execs := execs s @ [av]\<rparr>) else None } }"

definition elapsed2 :: "cprocess \<Rightarrow> int" where
  "elapsed2 tracker =
     (let seconds = fst (cp_stop tracker) - fst (cp_start tracker);
          microseconds = snd (cp_stop tracker) - snd (cp_start tracker);
          milliseconds = seconds * 1000
      in milliseconds + microseconds sdiv 1000)"

definition cleanCommand :: "time \<Rightarrow> int \<Rightarrow> int \<Rightarrow> cprocess \<Rightarrow> 'a io_scheme \<Rightarrow> cprocess \<times> 'a io_scheme" where
  "cleanCommand now majflt minflt tracker s =
     (let tracker = tracker\<lparr>cp_stop := now\<rparr>;
          milliseconds = elapsed2 tracker;
          s = put (newline # line ''--- Statistics ---'') s;
          s = (if milliseconds < 1 then put (line ''Elapsed time: <1 millisecond'') s
               else put (line (''Elapsed time: '' @ dec milliseconds @ '' milliseconds'')) s);
          s = put (line (''Page faults: '' @ dec majflt)) s;
          s = put (line (''Page faults (reclaimed): '' @ dec minflt)) s
      in (tracker\<lparr>cp_pid := 0\<rparr>, s))"

section \<open>The numbering\<close>

text \<open>The jobs in the places \<open>L\<close> have the numbers from 1 to below the counter, each number once.\<close>

definition jobs_ok :: "nat set \<Rightarrow> cprocess list \<Rightarrow> int \<Rightarrow> bool" where
  "jobs_ok L ps c \<longleftrightarrow> L \<subseteq> {..<length ps} \<and> 1 \<le> c \<and> bij_betw (\<lambda>i. cp_jobnum (ps ! i)) L {1..<c}"

lemma jobs_ok_cong:
  assumes "jobs_ok L ps c" "length qs = length ps" "\<And>i. i \<in> L \<Longrightarrow> cp_jobnum (qs ! i) = cp_jobnum (ps ! i)"
  shows "jobs_ok L qs c"
  using assms bij_betw_cong [of L "\<lambda>i. cp_jobnum (qs ! i)" "\<lambda>i. cp_jobnum (ps ! i)" "{1..<c}"]
  by (simp add: jobs_ok_def)

lemma jobs_ok_reserve:
  assumes "jobs_ok L ps c" "i < length ps" "i \<notin> L" "cp_jobnum p = c"
  shows "jobs_ok (insert i L) (ps[i := p]) (c + 1)"
proof -
  let ?f = "\<lambda>k. cp_jobnum (ps[i := p] ! k)"
  have "bij_betw ?f L {1..<c}"
    using assms(1,3) bij_betw_cong [of L ?f "\<lambda>i. cp_jobnum (ps ! i)" "{1..<c}"]
    by (metis (no_types, lifting) jobs_ok_def nth_list_update_neq)
  moreover have "?f i = c" using assms(2,4) by simp
  ultimately have "bij_betw ?f (insert i L) (insert c {1..<c})"
    using notIn_Un_bij_betw [of i L ?f "{1..<c}"] assms(3) by simp
  moreover have "insert c {1..<c} = {1..<c + 1}" using assms(1) by (auto simp: jobs_ok_def)
  ultimately show ?thesis using assms(1,2) by (simp add: jobs_ok_def)
qed

lemma decrementJobs_simps [simp]:
  "length (fst (decrementJobs ps c n)) = length ps"
  "snd (decrementJobs ps c n) = c - 1"
  "i < length ps \<Longrightarrow> cp_pid (fst (decrementJobs ps c n) ! i) = cp_pid (ps ! i)"
  "i < length ps \<Longrightarrow> cp_jobnum (fst (decrementJobs ps c n) ! i) =
     (if cp_jobnum (ps ! i) > n then cp_jobnum (ps ! i) - 1 else cp_jobnum (ps ! i))"
  by (simp_all add: decrementJobs_def)

text \<open>When a job is finished the ones after it move up.\<close>

lemma jobs_ok_finish:
  assumes "jobs_ok L ps c" "i \<in> L" "n = cp_jobnum (ps ! i)" "decrementJobs ps c n = (qs, d)"
  shows "jobs_ok (L - {i}) qs d"
proof -
  let ?f = "\<lambda>k. cp_jobnum (ps ! k)"
  let ?g = "\<lambda>v. if v > n then v - 1 else v :: int"
  have L: "L \<subseteq> {..<length ps}" and b: "bij_betw ?f L {1..<c}" using assms(1) by (auto simp: jobs_ok_def)
  have n: "n \<in> {1..<c}" using b assms(2,3) by (auto dest: bij_betwE)
  have "bij_betw ?f (L - {i}) ({1..<c} - {n})"
    using bij_betw_DiffI [OF b, of "{i}" "{n}"] assms(2,3) n by (simp add: bij_betw_def)
  moreover have "bij_betw ?g ({1..<c} - {n}) {1..<c - 1}"
    by (rule bij_betw_byWitness [where f' = "\<lambda>v. if v \<ge> n then v + 1 else v"]) (use n in auto)
  ultimately have "bij_betw (?g \<circ> ?f) (L - {i}) {1..<c - 1}" by (rule bij_betw_trans)
  moreover have q: "qs = fst (decrementJobs ps c n)" "d = c - 1" using assms(4) decrementJobs_simps(2) [of ps c n] by simp_all
  moreover have "(?g \<circ> ?f) k = cp_jobnum (qs ! k)" if "k \<in> L - {i}" for k using that L q by auto
  ultimately have "bij_betw (\<lambda>k. cp_jobnum (qs ! k)) (L - {i}) {1..<d}"
    using bij_betw_cong [of "L - {i}" "?g \<circ> ?f" "\<lambda>k. cp_jobnum (qs ! k)"] by simp
  then show ?thesis using L n q by (auto simp: jobs_ok_def)
qed

lemma findProcess_Some:
  "findProcess ps pid = Some i \<longleftrightarrow> i < length ps \<and> cp_pid (ps ! i) = pid \<and> (\<forall>j<i. cp_pid (ps ! j) \<noteq> pid)"
  by (simp add: findProcess_def first_index_Some_iff)

lemma findProcess_None: "findProcess ps pid = None \<longleftrightarrow> (\<forall>i<length ps. cp_pid (ps ! i) \<noteq> pid)"
  by (simp add: findProcess_def first_index_None_iff)

lemma findJobnum_Some:
  "findJobnum ps n = Some i \<longleftrightarrow> i < length ps \<and> cp_jobnum (ps ! i) = n \<and> (\<forall>j<i. cp_jobnum (ps ! j) \<noteq> n)"
  by (simp add: findJobnum_def first_index_Some_iff)

lemma findJobnum_None: "findJobnum ps n = None \<longleftrightarrow> (\<forall>i<length ps. cp_jobnum (ps ! i) \<noteq> n)"
  by (simp add: findJobnum_def first_index_None_iff)

text \<open>Every number in use is found.\<close>

lemma jobs_ok_found:
  assumes "jobs_ok L ps c" "n \<in> {1..<c}"
  obtains i where "findJobnum ps n = Some i"
proof -
  have "(\<lambda>i. cp_jobnum (ps ! i)) ` L = {1..<c}" using assms(1) by (simp add: jobs_ok_def bij_betw_def)
  with assms(2) have "n \<in> (\<lambda>i. cp_jobnum (ps ! i)) ` L" by simp
  then obtain k where "k \<in> L" "cp_jobnum (ps ! k) = n" by (elim imageE) simp
  moreover from this assms(1) have "k < length ps" by (auto simp: jobs_ok_def)
  ultimately have "findJobnum ps n \<noteq> None" by (auto simp: findJobnum_None)
  with that show thesis by blast
qed

lemma cleanCommand_simps [simp]:
  "cp_pid (fst (cleanCommand now majflt minflt t s)) = 0"
  "cp_jobnum (fst (cleanCommand now majflt minflt t s)) = cp_jobnum t"
  "inp (snd (cleanCommand now majflt minflt t s)) = inp s"
  "io.more (snd (cleanCommand now majflt minflt t s)) = io.more s"
  by (simp_all add: cleanCommand_def Let_def)

section \<open>Properties\<close>

text \<open>C19: when a background job is finished, \<open>decrementJobs\<close> keeps the numbering of the remaining
  jobs without gaps from 1 to the counter, and it keeps their order.\<close>

theorem decrementJobs_correct:
  assumes "jobs_ok L ps c" "i \<in> L" "decrementJobs ps c (cp_jobnum (ps ! i)) = (qs, d)"
  shows "jobs_ok (L - {i}) qs d \<and> d = c - 1 \<and> (\<forall>j\<in>L - {i}. \<forall>k\<in>L - {i}.
    cp_jobnum (ps ! j) < cp_jobnum (ps ! k) \<longleftrightarrow> cp_jobnum (qs ! j) < cp_jobnum (qs ! k))"
proof -
  have q: "qs = fst (decrementJobs ps c (cp_jobnum (ps ! i)))" "d = c - 1"
    using assms(3) decrementJobs_simps(2) [of ps c "cp_jobnum (ps ! i)"] by simp_all
  have L: "k < length ps" if "k \<in> L" for k using that assms(1) by (auto simp: jobs_ok_def)
  have inj: "cp_jobnum (ps ! k) \<noteq> cp_jobnum (ps ! i)" if "k \<in> L - {i}" for k
    using that assms(2) inj_onD [of "\<lambda>i. cp_jobnum (ps ! i)" L k i] assms(1) by (auto simp: jobs_ok_def bij_betw_def)
  have "cp_jobnum (ps ! j) < cp_jobnum (ps ! k) \<longleftrightarrow> cp_jobnum (qs ! j) < cp_jobnum (qs ! k)"
    if "j \<in> L - {i}" "k \<in> L - {i}" for j k
    using inj [OF that(1)] inj [OF that(2)] L [of j] L [of k] that q(1) by auto
  with jobs_ok_finish [OF assms(1,2) refl assms(3)] q(2) show ?thesis by blast
qed

text \<open>A table with two jobs and a free place behind them.\<close>

definition job :: "int \<Rightarrow> int \<Rightarrow> cprocess" where
  "job pid n = \<lparr>cp_start = (0, 0), cp_stop = (0, 0), cp_pid = pid, cp_jobnum = n\<rparr>"

theorem decrementJobs_correct_witness:
  "jobs_ok ({0, 1} - {0}) [job 7 1, job 8 1, job 0 0] 2"
proof -
  have "jobs_ok {0, 1} [job 7 1, job 8 2, job 0 0] 3"
    by (auto simp: jobs_ok_def job_def bij_betw_def inj_on_def)
  from decrementJobs_correct [OF this, of 0] show ?thesis by (simp add: job_def decrementJobs_def)
qed

text \<open>A finished job hides its successor. \<open>cleanCommand\<close> frees the place of a job but leaves
  its job number there. If the finished job is the first in the table with its number and the job
  with the next number is in a later place, then that job inherits the number, but \<open>findJobnum\<close>
  finds the freed place with the process id 0.\<close>

theorem finished_job_hides_successor:
  assumes "i < j" "j < length ps" "cp_jobnum (ps ! j) = cp_jobnum (ps ! i) + 1"
    and "\<forall>k<i. cp_jobnum (ps ! k) \<notin> {cp_jobnum (ps ! i), cp_jobnum (ps ! i) + 1}"
    and "decrementJobs ps c (cp_jobnum (ps ! i)) = (qs, d)"
    and "rs = qs[i := fst (cleanCommand now majflt minflt (qs ! i) s)]"
  shows "cp_jobnum (rs ! j) = cp_jobnum (ps ! i) \<and> cp_pid (rs ! j) = cp_pid (ps ! j) \<and>
    findJobnum rs (cp_jobnum (ps ! i)) = Some i \<and> cp_pid (rs ! i) = 0"
proof -
  have q: "qs = fst (decrementJobs ps c (cp_jobnum (ps ! i)))" using assms(5) by simp
  have len: "length rs = length ps" using assms(6) q by simp
  have i: "i < length ps" using assms(1,2) by simp
  have ri: "cp_jobnum (rs ! i) = cp_jobnum (ps ! i)" "cp_pid (rs ! i) = 0" using assms(6) i q by simp_all
  have "cp_jobnum (rs ! k) \<noteq> cp_jobnum (ps ! i)" if "k < i" for k
    using that assms(4,6) i q by auto
  with ri len i have "findJobnum rs (cp_jobnum (ps ! i)) = Some i" by (simp add: findJobnum_Some)
  moreover have "cp_jobnum (rs ! j) = cp_jobnum (ps ! i)" "cp_pid (rs ! j) = cp_pid (ps ! j)"
    using assms(1,2,3,6) q by simp_all
  ultimately show ?thesis using ri by simp
qed

theorem finished_job_hides_successor_witness:
  "findJobnum [(job 0 1)\<lparr>cp_stop := (5, 0)\<rparr>, job 8 1] 1 = Some 0"
  using finished_job_hides_successor [of 0 1 "[job 7 1, job 8 2]" 3 "[job 7 1, job 8 1]" 2
      "[(job 0 1)\<lparr>cp_stop := (5, 0)\<rparr>, job 8 1]" "(5, 0)" 0 0 "\<lparr>inp = [], out = []\<rparr>"]
  by (simp add: job_def decrementJobs_def cleanCommand_def Let_def)

text \<open>The elapsed time of all three versions. Whatever the two points in time are, the milliseconds
  that are printed are the true ones rounded down, or one more. One more is possible: a microsecond
  across the boundary of a second is printed as a millisecond.\<close>

theorem elapsed_time_accuracy:
  "(let T = (fst stop - fst start) * 1000000000 + (snd stop - snd start) in
      T div 1000000 \<le> elapsed0 start stop \<and> elapsed0 start stop \<le> T div 1000000 + 1) \<and>
   (let T = (fst stop - fst start) * 1000000 + (snd stop - snd start) in
      T div 1000 \<le> elapsed1 start stop \<and> elapsed1 start stop \<le> T div 1000 + 1 \<and>
      elapsed2 (t\<lparr>cp_start := start, cp_stop := stop\<rparr>) = elapsed1 start stop) \<and>
   elapsed1 (0, 999999) (1, 0) = 1"
  using elapsed_bounds [of 1000000, OF _ refl, of "fst stop" "fst start" "snd stop" "snd start"]
    elapsed_bounds [of 1000, OF _ refl, of "fst stop" "fst start" "snd stop" "snd start"]
  by (simp add: elapsed0_def elapsed1_def elapsed2_def Let_def)

end
