(* ===== verification/MidDay2.thy ===== *)
theory MidDay2
  imports Jobs
begin

text \<open>
  Project1/v2/mc2.c and Project1/v2/waitthread.c: the menu with background jobs. The program has two
  threads that share the table of processes and the job counter, the menu (\<open>main\<close>) and the thread
  that waits (\<open>waitThread\<close>), and both call \<open>wait3\<close>. A run is a sequence of steps of the two
  threads and of the operating system, in which a child exits. A step of a thread goes from one
  access of shared state to the next; what a thread does with its own data is part of the step.
  The sequential handlers are functions. The result \<open>None\<close> of a step is undefined behaviour, in
  most cases the NULL of \<open>findProcess\<close> or \<open>findJobnum\<close> that is dereferenced. The time, the
  process ids \<open>fork\<close> returns and the page faults \<open>wait3\<close> reports are chosen by the operating
  system. The child that \<open>fork\<close> returns to is another process and not part of the run.
\<close>

section \<open>The menu\<close>

record mc2 = shell +
  cmds2 :: "option2 list"
  chdirs2 :: "string list"
  processes :: "cprocess list"
  jobCounter :: int

definition menu2 :: "mc2 \<Rightarrow> mc2" where
  "menu2 s = (let s = put (line ''Taimi speaking. What command would you like to run?'') s;
       s = fold (\<lambda>i s. put (line (''   '' @ dec (int i) @ ''. '' @ o_name (cmds2 s ! i) @ [tab] @ '': '' @ o_desc (cmds2 s ! i))) s)
             [0..<length (cmds2 s)] s;
       s = put (line ''   a. add command : Adds a new command to the menu.'') s;
       s = put (line ''   c. change directory : Changes the process working directory.'') s;
       s = put (line ''   e. exit : Leave Mid-Day Commander.'') s;
       s = put (line ''   p. pwd : Prints the working directory.'') s;
       s = put (line ''   r. running processes : Print list of running processes.'') s
     in put ''Option?: '' s)"

definition changeDirectory2 :: "mc2 \<Rightarrow> mc2 option" where
  "changeDirectory2 s = do {
     (path, s) \<leftarrow> read_line MAX_IN_LENGTH MAX_IN_LENGTH (put ''Path?: '' s);
     Some (put [newline] (s\<lparr>chdirs2 := chdirs2 s @ [cleanNewline path]\<rparr>)) }"

definition printDirectory2 :: "sys \<Rightarrow> mc2 \<Rightarrow> mc2 option" where
  "printDirectory2 sys s = do {
     path \<leftarrow> strcpy MAX_DIR_LENGTH (sys_cwd sys (chdirs2 s));
     Some (put [newline] (put (line (''cwd: '' @ path)) s)) }"

definition addCommand2 :: "sys \<Rightarrow> mc2 \<Rightarrow> mc2 option" where
  "addCommand2 sys s = do {
     ((cs, id), s) \<leftarrow> addOption2 (sys_alloc sys (length (cmds2 s))) (cmds2 s) s;
     let s = s\<lparr>cmds2 := cs\<rparr>;
     Some (put [newline] (if id < 0 then put (line ''Failed to add option.'') s
                          else put (line (''Added with ID '' @ dec id)) s)) }"

text \<open>The list of running processes: a search of the table for every job number.\<close>

fun list_jobs :: "int list \<Rightarrow> mc2 \<Rightarrow> mc2 option" where
  "list_jobs [] s = Some s"
| "list_jobs (i # is) s = do {
     k \<leftarrow> findJobnum (processes s) i;
     let job = processes s ! k;
     list_jobs is (put (line (''['' @ dec (cp_jobnum job) @ ''] Process ID: '' @ dec (cp_pid job))) s) }"

definition list_running :: "mc2 \<Rightarrow> mc2 option" where
  "list_running s = list_jobs [1..jobCounter s - 1] s"

section \<open>Threads\<close>

text \<open>Where \<open>main\<close> is: before the menu is printed; before and after the mutex is locked to list the
  jobs; with the arguments of a command before \<open>fork\<close>; before and in the loop that waits for a
  foreground process; with a reserved place of the table before \<open>fork\<close> and before the process id is
  stored there; in the loop at the end; returned.\<close>

datatype main_pc = Menu | List_lock | List_print
  | Fg_fork "arg list" nat | Fg_lock cprocess | Fg_wait cprocess
  | Bg_find "arg list" nat | Bg_fork "arg list" nat nat | Bg_store "arg list" nat nat time int
  | Exit_wait | Exited

text \<open>Where \<open>waitThread\<close> is: before the mutex is locked; before \<open>wait3\<close>; with its result before the
  mutex is unlocked; with the id of a finished process before \<open>findProcess\<close>, and with the place
  found before \<open>decrementJobs\<close> and before \<open>cleanCommand\<close>.\<close>

datatype wait_pc = W_lock | W_wait | W_unlock int | W_find int | W_dec nat | W_clean nat

datatype thread = Main | Waiter

record world =
  mc :: mc2
  mpc :: main_pc
  wpc :: wait_pc
  lock :: "thread option"
  running :: "int set"
  zombies :: "int set"

text \<open>From the menu to the next access of shared state.\<close>

definition mc2_round :: "sys \<Rightarrow> mc2 \<Rightarrow> (main_pc \<times> mc2) option" where
  "mc2_round sys s = do {
     (option, s) \<leftarrow> selectOption2 (int (length (cmds2 s))) (menu2 s);
     if option = -1 then Some (Menu, put (line ''Invalid choice.'') s)
     else if option = OPT_A then map_option (Pair Menu) (addCommand2 sys s)
     else if option = OPT_C then map_option (Pair Menu) (changeDirectory2 s)
     else if option = OPT_E then Some (Exit_wait, put (line ''Waiting for background proccesses to die...'') s)
     else if option = OPT_P then map_option (Pair Menu) (printDirectory2 sys s)
     else if option = OPT_R then Some (List_lock, put (line ''-- Running Processes --'') s)
     else do {
       cmd \<leftarrow> arr_get (cmds2 s) option;
       ((args, argsSize), s) \<leftarrow> collect_args sys cmd s;
       Some (if o_blocking cmd \<noteq> 0 then Fg_fork args argsSize else Bg_find args argsSize, s) } }"

text \<open>A background process is finished: the lines both threads have for it, up to the call of
  \<open>decrementJobs\<close>, and from there on.\<close>

definition job_complete :: "int \<Rightarrow> mc2 \<Rightarrow> (nat \<times> mc2) option" where
  "job_complete fin s = do {
     k \<leftarrow> findProcess (processes s) fin;
     let proc = processes s ! k;
     let s = put (newline # line (''-- Job Complete ['' @ dec (cp_jobnum proc) @ ''] --'')) s;
     Some (k, put (line (''Process ID: '' @ dec (cp_pid proc))) s) }"

definition job_decrement :: "nat \<Rightarrow> mc2 \<Rightarrow> mc2" where
  "job_decrement k s = (let (ps, c) = decrementJobs (processes s) (jobCounter s) (cp_jobnum (processes s ! k))
     in s\<lparr>processes := ps, jobCounter := c\<rparr>)"

definition job_clean :: "time \<Rightarrow> int \<Rightarrow> int \<Rightarrow> nat \<Rightarrow> mc2 \<Rightarrow> mc2" where
  "job_clean now majflt minflt k s = (let (t, s) = cleanCommand now majflt minflt (processes s ! k) s
     in s\<lparr>processes := (processes s)[k := t]\<rparr>)"

text \<open>One iteration of the loop that waits for the foreground process: \<open>fin\<close> is what \<open>wait3\<close>
  returned. The \<open>fin\<close> the loop condition compares is another variable and stays 0.\<close>

definition foreground_wait :: "int \<Rightarrow> time \<Rightarrow> int \<Rightarrow> int \<Rightarrow> cprocess \<Rightarrow> mc2 \<Rightarrow> (cprocess \<times> mc2) option" where
  "foreground_wait fin now majflt minflt fg s =
     (if fin = cp_pid fg then Some (cleanCommand now majflt minflt fg s)
      else do {
        (k, s) \<leftarrow> job_complete fin s;
        Some (fg, job_clean now majflt minflt k (job_decrement k s)) })"

text \<open>The operating system: \<open>fork\<close> fails or gives the id of a new child; \<open>wait3\<close> takes a child that
  has exited, and reports an error if there is no child at all.\<close>

definition forked :: "int \<Rightarrow> world \<Rightarrow> world \<Rightarrow> bool" where
  "forked pid w w' \<longleftrightarrow> pid = -1 \<and> w' = w \<or>
     0 < pid \<and> pid \<notin> running w \<union> zombies w \<and> w' = w\<lparr>running := insert pid (running w)\<rparr>"

definition reaped :: "int \<Rightarrow> world \<Rightarrow> world \<Rightarrow> bool" where
  "reaped pid w w' \<longleftrightarrow> pid = -1 \<and> running w \<union> zombies w = {} \<and> w' = w \<or>
     pid \<in> zombies w \<and> w' = w\<lparr>zombies := zombies w - {pid}\<rparr>"

inductive main_step :: "sys \<Rightarrow> world \<Rightarrow> world option \<Rightarrow> bool" for sys where
  menu: "mpc w = Menu \<Longrightarrow>
    main_step sys w (map_option (\<lambda>(pc, s). w\<lparr>mc := s, mpc := pc\<rparr>) (mc2_round sys (mc w)))"
| list_lock: "mpc w = List_lock \<Longrightarrow> lock w = None \<Longrightarrow>
    main_step sys w (Some (w\<lparr>lock := Some Main, mpc := List_print\<rparr>))"
| list_print: "mpc w = List_print \<Longrightarrow>
    main_step sys w (map_option (\<lambda>s. w\<lparr>mc := s, lock := None, mpc := Menu\<rparr>) (list_running (mc w)))"
| fg_fork: "mpc w = Fg_fork args n \<Longrightarrow> forked pid w w' \<Longrightarrow>
    main_step sys w (map_option (\<lambda>(fg, s). w'\<lparr>mc := s, mpc := Fg_lock fg\<rparr>)
      (executeCommand2 now pid args n fgProcess (mc w)))"
| fg_lock: "mpc w = Fg_lock fg \<Longrightarrow> lock w = None \<Longrightarrow>
    main_step sys w (Some (w\<lparr>lock := Some Main, mpc := Fg_wait fg\<rparr>))"
| fg_wait: "mpc w = Fg_wait fg \<Longrightarrow> cp_pid fg \<noteq> 0 \<Longrightarrow> reaped fin w w' \<Longrightarrow>
    main_step sys w (map_option (\<lambda>(fg, s). w'\<lparr>mc := s, mpc := Fg_wait fg\<rparr>)
      (foreground_wait fin now majflt minflt fg (mc w)))"
| fg_done: "mpc w = Fg_wait fg \<Longrightarrow> cp_pid fg = 0 \<Longrightarrow>
    main_step sys w (Some (w\<lparr>mc := put [newline] (mc w), lock := None, mpc := Menu\<rparr>))"
| bg_find: "mpc w = Bg_find args n \<Longrightarrow>
    main_step sys w (map_option (\<lambda>i. w\<lparr>mc := (mc w)
        \<lparr>processes := (processes (mc w))[i := (processes (mc w) ! i)\<lparr>cp_jobnum := jobCounter (mc w)\<rparr>],
         jobCounter := jobCounter (mc w) + 1\<rparr>, mpc := Bg_fork args n i\<rparr>)
      (findProcess (processes (mc w)) 0))"
| bg_fork: "mpc w = Bg_fork args n i \<Longrightarrow> forked pid w w' \<Longrightarrow>
    main_step sys w (Some (w'\<lparr>mpc := Bg_store args n i now pid\<rparr>))"
| bg_store: "mpc w = Bg_store args n i now pid \<Longrightarrow>
    main_step sys w (map_option (\<lambda>(p, s). w\<lparr>mc := put [newline] (s\<lparr>processes := (processes s)[i := p]\<rparr>), mpc := Menu\<rparr>)
      (executeCommand2 now pid args n (processes (mc w) ! i) (mc w)))"
| exit: "mpc w = Exit_wait \<Longrightarrow> \<forall>p\<in>set (processes (mc w)). cp_pid p = 0 \<Longrightarrow>
    main_step sys w (Some (w\<lparr>mc := put (line ''Exiting...'') (mc w), mpc := Exited\<rparr>))"

inductive wait_step :: "world \<Rightarrow> world option \<Rightarrow> bool" where
  w_lock: "wpc w = W_lock \<Longrightarrow> lock w = None \<Longrightarrow>
    wait_step w (Some (w\<lparr>lock := Some Waiter, wpc := W_wait\<rparr>))"
| w_wait: "wpc w = W_wait \<Longrightarrow> reaped pid w w' \<Longrightarrow> wait_step w (Some (w'\<lparr>wpc := W_unlock pid\<rparr>))"
| w_none: "wpc w = W_wait \<Longrightarrow> zombies w = {} \<Longrightarrow> running w \<noteq> {} \<Longrightarrow> wait_step w (Some (w\<lparr>wpc := W_unlock 0\<rparr>))"
| w_unlock: "wpc w = W_unlock pid \<Longrightarrow>
    wait_step w (Some (w\<lparr>lock := None, wpc := if pid > 0 then W_find pid else W_lock\<rparr>))"
| w_find: "wpc w = W_find pid \<Longrightarrow>
    wait_step w (map_option (\<lambda>(k, s). w\<lparr>mc := s, wpc := W_dec k\<rparr>) (job_complete pid (mc w)))"
| w_dec: "wpc w = W_dec k \<Longrightarrow> wait_step w (Some (w\<lparr>mc := job_decrement k (mc w), wpc := W_clean k\<rparr>))"
| w_clean: "wpc w = W_clean k \<Longrightarrow>
    wait_step w (Some (w\<lparr>mc := job_clean now majflt minflt k (mc w), wpc := W_lock\<rparr>))"

text \<open>A child exits.\<close>

inductive os_step :: "int \<Rightarrow> world \<Rightarrow> world \<Rightarrow> bool" where
  child_exit: "pid \<in> running w \<Longrightarrow>
    os_step pid w (w\<lparr>running := running w - {pid}, zombies := insert pid (zombies w)\<rparr>)"

inductive step :: "sys \<Rightarrow> world \<Rightarrow> world option \<Rightarrow> bool" for sys where
  by_main: "main_step sys w r \<Longrightarrow> step sys w r"
| by_waiter: "mpc w \<noteq> Exited \<Longrightarrow> wait_step w r \<Longrightarrow> step sys w r"
| by_child: "os_step pid w w' \<Longrightarrow> step sys w (Some w')"

text \<open>The start: the three commands the menu begins with; the program exits if one cannot be added.\<close>

definition default_commands2 :: "sys \<Rightarrow> (option2 list \<times> int) option" where
  "default_commands2 sys = do {
     (cs, r) \<leftarrow> appendOption2 (sys_alloc sys 0) [] ''whoami'' ''whoami''
        ''Prints out the result of the 'whoami' command.'' ''-- Who am I? --'' No_args 0 0 1;
     if r < 0 then Some (cs, -1) else do {
       (cs, r) \<leftarrow> appendOption2 (sys_alloc sys 1) cs ''last'' ''last''
          ''Prints out the result of the 'last' command.'' ''-- Last logins --'' No_args 0 0 1;
       if r < 0 then Some (cs, -1) else do {
         (cs, r) \<leftarrow> appendOption2 (sys_alloc sys 2) cs ''ls'' ''ls''
            ''Prints out the result of the 'ls' command.'' ''-- Directory listing --'' No_args 1 1 1;
         if r < 0 then Some (cs, -1) else Some (cs, 0) } } }"

definition initial_process :: cprocess where
  "initial_process = \<lparr>cp_start = (0, 0), cp_stop = (0, 0), cp_pid = 0, cp_jobnum = 0\<rparr>"

definition mc2_start :: "sys \<Rightarrow> string \<Rightarrow> world option" where
  "mc2_start sys input = do {
     (cs, r) \<leftarrow> default_commands2 sys;
     let s = \<lparr>inp = input, out = [], forks = 0, execs = [], cmds2 = cs, chdirs2 = [],
       processes = replicate MAX_BGPROCESSES initial_process, jobCounter = 1\<rparr>;
     Some \<lparr>mc = put (line (if r < 0 then ''Failed to add default commands.'' else ''===== Mid-Day Commander, v2 ====='')) s,
       mpc = (if r < 0 then Exited else Menu), wpc = W_lock, lock = None, running = {}, zombies = {}\<rparr> }"

section \<open>Well-formed argument arrays\<close>

definition args_ok :: "arg list \<Rightarrow> nat \<Rightarrow> bool" where
  "args_ok args n \<longleftrightarrow> argv args \<noteq> None \<and> freeable args 1 n"

lemma arr_set_filled_Some:
  assumes "arr_set (fst (filled us)) (int (length us)) (Arg w) = Some args"
  shows "(args, Suc (length us)) = filled (us @ [w])"
proof -
  from assms have "length us < length (fst (filled us))" by (auto simp: arr_set_def split: if_splits)
  then have l: "length us \<le> MAX_ARGS" by (auto simp: filled_def)
  with arr_set_filled [of us "Arg w"] assms show ?thesis by (simp add: filled_def)
qed

lemma unpack_args_filled: "unpack_args n (filled us) ds = Some st \<Longrightarrow> \<exists>us'. st = filled us'"
proof (induction n arbitrary: us ds)
  case (Suc n)
  show ?case
  proof (cases ds)
    case (Cons d ds')
    with Suc.prems obtain args where a: "arr_set (fst (filled us)) (int (length us)) (Arg d) = Some args"
      "unpack_args n (args, Suc (length us)) ds' = Some st"
      by (subst (asm) filled_pair) (auto simp: bind_eq_Some_conv)
    from Suc.IH a(2) arr_set_filled_Some [OF a(1)] show ?thesis by simp
  qed (use Suc.prems in auto)
qed auto

lemma fill_args_filled: "fill_args cap n (filled us) p = Some st \<Longrightarrow> \<exists>us'. st = filled us'"
proof (induction n arbitrary: us p)
  case (Suc n)
  show ?case
  proof (cases "fst p")
    case None
    with Suc.prems show ?thesis by (cases p) auto
  next
    case (Some t)
    with Suc.prems obtain args where a: "arr_set (fst (filled us)) (int (length us)) (Arg t) = Some args"
      "fill_args cap n (args, Suc (length us)) (strtok blank (snd p)) = Some st"
      by (cases p, subst (asm) filled_pair) (auto simp: bind_eq_Some_conv)
    from Suc.IH a(2) arr_set_filled_Some [OF a(1)] show ?thesis by simp
  qed
qed auto

lemma default_arguments_filled: "default_arguments sys d (filled us) = Some st \<Longrightarrow> \<exists>us'. st = filled us'"
  by (auto simp: default_arguments_def bind_eq_Some_conv split: def_args.splits dest: unpack_args_filled)

lemma user_arguments_filled:
  "user_arguments (filled us) s = Some (st, t) \<Longrightarrow> (\<exists>us'. st = filled us') \<and> io.more t = io.more s"
  by (auto simp: user_arguments_def bind_eq_Some_conv Let_def split: if_splits dest!: fill_args_filled read_line_frame
      intro: exI [of _ us])

lemma path_argument_filled:
  assumes "path_argument (filled us) s = Some (st, t)"
  shows "(\<exists>us'. st = filled us') \<and> io.more t = io.more s"
proof -
  have "\<exists>us'. (args, Suc (length us)) = filled us'"
    if "arr_set (fst (filled us)) (int (length us)) (Arg w) = Some args" for args w
    using arr_set_filled_Some [OF that] by blast
  with assms show ?thesis
    by (auto simp: path_argument_def bind_eq_Some_conv Let_def split: if_splits dest!: read_line_frame)
qed

lemma filled_end:
  assumes "arr_set (fst (filled us)) (int (length us)) NullPtr = Some args"
  shows "args_ok args (Suc (length us))"
proof -
  from assms have "length us < length (fst (filled us))" by (auto simp: arr_set_def split: if_splits)
  then have l: "length us \<le> MAX_ARGS" by (auto simp: filled_def)
  with arr_set_filled [of us NullPtr] assms
  have a: "args = map Arg us @ NullPtr # replicate (MAX_ARGS - length us) Unset" by simp
  have "take (length us) (drop 1 args) = take (length us) (drop 1 (map Arg us @ [NullPtr]))"
    using a by (cases us) auto
  with command_line_not_Unset [of "Suc (length us)" us] l a show ?thesis by (simp add: args_ok_def freeable_def)
qed

text \<open>Whatever is typed: if the argument array is built at all it is terminated and its elements can
  be freed.\<close>

lemma collect_args_ok:
  assumes "collect_args sys cmd s = Some ((args, n), t)"
  shows "args_ok args n \<and> io.more t = io.more s"
proof -
  let ?s = "put (line (o_head cmd)) (put [newline] s)"
  have f: "arr_set (replicate (MAX_ARGS + 1) Unset) 0 (Arg (o_path cmd)) = Some (fst (filled [o_path cmd]))"
    using arr_set_filled [of "[]" "Arg (o_path cmd)"] by (simp add: filled_def)
  from assms obtain st1 st2 s2 st3 where
    1: "default_arguments sys (o_defArgs cmd) (filled [o_path cmd]) = Some st1" and
    2: "(if o_args cmd \<noteq> 0 then user_arguments st1 ?s else Some (st1, ?s)) = Some (st2, s2)" and
    3: "(if o_argPath cmd \<noteq> 0 then path_argument st2 s2 else Some (st2, s2)) = Some (st3, t)" and
    4: "arr_set (fst st3) (int (snd st3)) NullPtr = Some args" "n = Suc (snd st3)"
    unfolding collect_args_def f using filled_pair [of "[o_path cmd]"] by (auto simp: bind_eq_Some_conv Let_def)
  from 1 obtain us1 where u1: "st1 = filled us1" using default_arguments_filled by blast
  with 2 have "(\<exists>us2. st2 = filled us2) \<and> io.more s2 = io.more s"
    by (auto split: if_splits dest!: user_arguments_filled)
  then obtain us2 where u2: "st2 = filled us2" "io.more s2 = io.more s" by blast
  with 3 have "(\<exists>us3. st3 = filled us3) \<and> io.more t = io.more s"
    by (auto split: if_splits dest!: path_argument_filled)
  then obtain us3 where u3: "st3 = filled us3" "io.more t = io.more s" by blast
  with 4 filled_end [of us3 args] show ?thesis by simp
qed

section \<open>What the handlers leave alone\<close>

lemma mc2_more: "io.more t = io.more s \<Longrightarrow> processes t = processes s \<and> jobCounter t = jobCounter s \<and>
    cmds2 t = cmds2 s" for s t :: mc2
  by (cases s; cases t) simp

lemma mc2_put [simp]: "processes (put str s) = processes s" "jobCounter (put str s) = jobCounter s"
  "cmds2 (put str s) = cmds2 s" for s :: mc2
  by (simp_all add: put_def)

lemma menu2_simps [simp]: "inp (menu2 s) = inp s" "io.more (menu2 s) = io.more s"
  by (simp_all add: menu2_def Let_def)

lemma changeDirectory2_frame:
  "changeDirectory2 s = Some t \<Longrightarrow> processes t = processes s \<and> jobCounter t = jobCounter s"
  by (auto simp: changeDirectory2_def bind_eq_Some_conv dest!: read_line_frame mc2_more)

lemma printDirectory2_frame:
  "printDirectory2 sys s = Some t \<Longrightarrow> processes t = processes s \<and> jobCounter t = jobCounter s"
  by (auto simp: printDirectory2_def bind_eq_Some_conv)

lemma addOption2_more: "addOption2 a c s = Some (r, t) \<Longrightarrow> io.more t = io.more s"
  by (auto simp: addOption2_def bind_eq_Some_conv Let_def dest!: read_line_frame split: if_splits prod.splits)

lemma addCommand2_frame:
  "addCommand2 sys s = Some t \<Longrightarrow> processes t = processes s \<and> jobCounter t = jobCounter s"
  by (auto simp: addCommand2_def bind_eq_Some_conv Let_def dest!: addOption2_more mc2_more)

text \<open>Where a round of the menu can lead.\<close>

fun menu_exit :: "main_pc \<Rightarrow> bool" where
  "menu_exit (Fg_fork args n) = args_ok args n"
| "menu_exit (Bg_find args n) = args_ok args n"
| "menu_exit pc = (pc \<in> {Menu, List_lock, Exit_wait})"

lemma mc2_round_frame:
  assumes "mc2_round sys s = Some (pc, t)"
  shows "processes t = processes s \<and> jobCounter t = jobCounter s \<and> menu_exit pc"
proof -
  from assms obtain v u where v: "selectOption2 (int (length (cmds2 s))) (menu2 s) = Some (v, u)"
    by (auto simp: mc2_round_def bind_eq_Some_conv)
  then have u: "processes u = processes s \<and> jobCounter u = jobCounter s"
    using selectOption2_cases(3) [OF v] mc2_more [of u s] by simp
  have c: "processes t = processes u \<and> jobCounter t = jobCounter u \<and> args_ok args n"
    if "collect_args sys cmd u = Some ((args, n), t)" for cmd :: option2 and args n
    using collect_args_ok [OF that] mc2_more [of t u] by simp
  show ?thesis using assms v u
    by (auto simp: mc2_round_def bind_eq_Some_conv split: if_splits
        dest!: addCommand2_frame changeDirectory2_frame printDirectory2_frame c)
qed

lemma executeCommand2_frame:
  "executeCommand2 now pid args n p s = Some (q, t) \<Longrightarrow>
   q = p\<lparr>cp_start := now, cp_pid := pid\<rparr> \<and> processes t = processes s \<and> jobCounter t = jobCounter s" for s t :: mc2
  by (auto simp: executeCommand2_def Let_def bind_eq_Some_conv split: if_splits)

lemma executeCommand2_ok: "args_ok args n \<Longrightarrow> executeCommand2 now pid args n p s \<noteq> None"
  by (auto simp: executeCommand2_def args_ok_def Let_def)

lemma list_jobs_frame: "list_jobs js s = Some t \<Longrightarrow> processes t = processes s \<and> jobCounter t = jobCounter s"
  by (induction js arbitrary: s) (auto simp: bind_eq_Some_conv Let_def)

lemma list_jobs_ok: "jobs_ok L (processes s) (jobCounter s) \<Longrightarrow> set js \<subseteq> {1..<jobCounter s} \<Longrightarrow> list_jobs js s \<noteq> None"
proof (induction js arbitrary: s)
  case (Cons i js)
  then obtain k where "findJobnum (processes s) i = Some k" using jobs_ok_found [of L "processes s" "jobCounter s" i] by auto
  then show ?case using Cons by (simp add: Let_def)
qed simp

lemma list_running_frame: "list_running s = Some t \<Longrightarrow> processes t = processes s \<and> jobCounter t = jobCounter s"
  by (simp add: list_running_def list_jobs_frame)

lemma list_running_ok: "jobs_ok L (processes s) (jobCounter s) \<Longrightarrow> list_running s \<noteq> None"
  unfolding list_running_def by (rule list_jobs_ok) auto

text \<open>The process ids in the table.\<close>

definition pids :: "cprocess list \<Rightarrow> int set" where
  "pids ps = cp_pid ` set ps"

lemma pids_iff: "x \<in> pids ps \<longleftrightarrow> (\<exists>i<length ps. cp_pid (ps ! i) = x)"
  by (force simp: pids_def in_set_conv_nth image_iff)

lemma pids_nth [simp]: "i < length ps \<Longrightarrow> cp_pid (ps ! i) \<in> pids ps"
  by (auto simp: pids_iff)

lemma pids_update_self: "i < length ps \<Longrightarrow> cp_pid p \<in> pids (ps[i := p])"
  by (auto simp: pids_iff)

lemma pids_update_other: "x \<in> pids ps \<Longrightarrow> x \<noteq> cp_pid (ps ! i) \<Longrightarrow> x \<in> pids (ps[i := p])"
  unfolding pids_iff by (metis length_list_update nth_list_update_neq)

lemma pids_same: "length qs = length ps \<Longrightarrow> (\<And>i. i < length ps \<Longrightarrow> cp_pid (qs ! i) = cp_pid (ps ! i)) \<Longrightarrow> pids qs = pids ps"
  unfolding set_eq_iff pids_iff by auto

lemma update_field: "f p = f (ps ! i) \<Longrightarrow> f (ps[i := p] ! k) = f (ps ! k)"
  by (cases "i < length ps"; cases "k = i") (auto simp: not_less list_update_beyond)

lemma pids_update_jobnum [simp]: "pids (ps[i := (ps ! i)\<lparr>cp_jobnum := n\<rparr>]) = pids ps"
  by (rule pids_same) (simp_all add: update_field)

lemma findProcess_pids: "findProcess ps x = None \<longleftrightarrow> x \<notin> pids ps"
  by (auto simp: findProcess_None pids_iff)

text \<open>The steps that finish a job, on the table.\<close>

lemma job_complete_Some:
  "job_complete fin s = Some (k, t) \<Longrightarrow> findProcess (processes s) fin = Some k \<and>
   processes t = processes s \<and> jobCounter t = jobCounter s"
  by (auto simp: job_complete_def Let_def bind_eq_Some_conv)

lemma job_complete_None: "job_complete fin s = None \<longleftrightarrow> fin \<notin> pids (processes s)"
  by (auto simp: job_complete_def Let_def bind_eq_None_conv findProcess_pids)

lemma job_decrement_simps [simp]:
  "length (processes (job_decrement k s)) = length (processes s)"
  "i < length (processes s) \<Longrightarrow> cp_pid (processes (job_decrement k s) ! i) = cp_pid (processes s ! i)"
  "pids (processes (job_decrement k s)) = pids (processes s)"
proof -
  show l: "length (processes (job_decrement k s)) = length (processes s)"
    "\<And>i. i < length (processes s) \<Longrightarrow> cp_pid (processes (job_decrement k s) ! i) = cp_pid (processes s ! i)"
    by (simp_all add: job_decrement_def decrementJobs_def)
  show "pids (processes (job_decrement k s)) = pids (processes s)" by (rule pids_same [OF l])
qed

lemma job_decrement_ok:
  "jobs_ok L (processes s) (jobCounter s) \<Longrightarrow> k \<in> L \<Longrightarrow>
   jobs_ok (L - {k}) (processes (job_decrement k s)) (jobCounter (job_decrement k s))"
  using jobs_ok_finish [of L "processes s" "jobCounter s" k, OF _ _ refl]
  by (auto simp: job_decrement_def split: prod.split)

lemma job_clean_eq:
  "\<exists>t. cp_pid t = 0 \<and> cp_jobnum t = cp_jobnum (processes s ! k) \<and>
     processes (job_clean now majflt minflt k s) = (processes s)[k := t] \<and>
     jobCounter (job_clean now majflt minflt k s) = jobCounter s"
proof -
  obtain t u where c: "cleanCommand now majflt minflt (processes s ! k) s = (t, u)" by force
  from cleanCommand_simps [of now majflt minflt "processes s ! k" s] c mc2_more [of u s] show ?thesis
    by (auto simp: job_clean_def)
qed

lemma job_clean_ok:
  assumes "jobs_ok L (processes s) (jobCounter s)"
  shows "jobs_ok L (processes (job_clean now majflt minflt k s)) (jobCounter (job_clean now majflt minflt k s))"
proof -
  obtain t where t: "cp_jobnum t = cp_jobnum (processes s ! k)" "processes (job_clean now majflt minflt k s) = (processes s)[k := t]"
     "jobCounter (job_clean now majflt minflt k s) = jobCounter s" using job_clean_eq by blast
  show ?thesis unfolding t(2,3) by (rule jobs_ok_cong [OF assms]) (simp_all add: update_field t(1))
qed

lemma job_clean_simps [simp]:
  "length (processes (job_clean now majflt minflt k s)) = length (processes s)"
  "i < length (processes s) \<Longrightarrow>
     cp_pid (processes (job_clean now majflt minflt k s) ! i) = (if i = k then 0 else cp_pid (processes s ! i))"
  using job_clean_eq [of s k now majflt minflt] by (auto simp: nth_list_update)

lemma job_clean_pids:
  "x \<in> pids (processes s) \<Longrightarrow> x \<noteq> cp_pid (processes s ! k) \<Longrightarrow> x \<in> pids (processes (job_clean now majflt minflt k s))"
  using job_clean_eq [of s k now majflt minflt] by (auto intro: pids_update_other)

end
