(* ===== verification/Threads.thy ===== *)
theory Threads
  imports MidDay2
begin

text \<open>
  The two threads of the Mid-Day Commander v2 together. The mutex is used correctly: the two never call
  \<open>wait3\<close> at the same time. But between \<open>fork\<close> and the moment the process id is in the table (or
  \<open>main\<close> holds the mutex) nothing stops the other thread from taking the child away, and it then
  dereferences NULL. In the calm runs, in which no child exits within that time and no process id
  comes back while it is still in the table, the table and the job numbers are consistent and the
  only undefined behaviour left is a full table (and what a user can type).
\<close>

section \<open>Mutual exclusion\<close>

fun main_holds :: "main_pc \<Rightarrow> bool" where
  "main_holds List_print = True"
| "main_holds (Fg_wait fg) = True"
| "main_holds pc = False"

fun waiter_holds :: "wait_pc \<Rightarrow> bool" where
  "waiter_holds W_wait = True"
| "waiter_holds (W_unlock pid) = True"
| "waiter_holds pc = False"

definition mutex_ok :: "world \<Rightarrow> bool" where
  "mutex_ok w \<longleftrightarrow> (lock w = Some Main \<longleftrightarrow> main_holds (mpc w)) \<and> (lock w = Some Waiter \<longleftrightarrow> waiter_holds (wpc w))"

definition at_start :: "sys \<Rightarrow> string \<Rightarrow> world \<Rightarrow> bool" where
  "at_start sys input w \<longleftrightarrow> mc2_start sys input = Some w"

definition steps_to :: "sys \<Rightarrow> world \<Rightarrow> world \<Rightarrow> bool" where
  "steps_to sys w w' \<longleftrightarrow> step sys w (Some w')"

lemma menu_exit_not_holds: "menu_exit pc \<Longrightarrow> \<not> main_holds pc"
  by (cases pc) auto

lemma at_start_simps:
  assumes "at_start sys input w"
  shows "mpc w \<in> {Menu, Exited}" "wpc w = W_lock" "lock w = None" "running w = {}" "zombies w = {}"
    "processes (mc w) = replicate MAX_BGPROCESSES initial_process" "jobCounter (mc w) = 1"
  using assms by (auto simp: at_start_def mc2_start_def bind_eq_Some_conv Let_def)

lemma forked_simps: "forked pid w w' \<Longrightarrow>
    mc w' = mc w \<and> lock w' = lock w \<and> wpc w' = wpc w \<and> zombies w' = zombies w \<and>
    running w' = (if pid = -1 then running w else insert pid (running w)) \<and>
    (pid = -1 \<or> 0 < pid \<and> pid \<notin> running w \<union> zombies w)"
  by (auto simp: forked_def)

lemma reaped_simps: "reaped pid w w' \<Longrightarrow>
    mc w' = mc w \<and> lock w' = lock w \<and> wpc w' = wpc w \<and> mpc w' = mpc w \<and> running w' = running w \<and>
    zombies w' = zombies w - {pid} \<and> (pid \<in> zombies w \<or> pid = -1 \<and> running w \<union> zombies w = {})"
  by (auto simp: reaped_def)

lemma Some_map_option: "Some y = map_option f x \<longleftrightarrow> (\<exists>z. x = Some z \<and> y = f z)"
  by (cases x) auto

inductive_cases main_stepE: "main_step sys w (Some w')"
inductive_cases wait_stepE: "wait_step w (Some w')"

lemma mutex_main:
  assumes "mutex_ok w" "main_step sys w (Some w')"
  shows "mutex_ok w'"
  using assms(2,1)
  by (elim main_stepE) (auto simp: Some_map_option mutex_ok_def dest!: mc2_round_frame menu_exit_not_holds forked_simps reaped_simps)

lemma mutex_waiter:
  assumes "mutex_ok w" "wait_step w (Some w')"
  shows "mutex_ok w'"
  using assms(2,1) by (elim wait_stepE) (auto simp: Some_map_option mutex_ok_def dest!: reaped_simps)

lemma mutex_step: "mutex_ok w \<Longrightarrow> steps_to sys w w' \<Longrightarrow> mutex_ok w'"
  by (auto simp: steps_to_def elim!: step.cases os_step.cases dest: mutex_main mutex_waiter) (simp add: mutex_ok_def)

interpretation mutex: invariant_system "at_start sys input" "steps_to sys" mutex_ok for sys input
proof
  show "mutex_ok w" if "at_start sys input w" for w
    using at_start_simps [OF that] by (auto simp: mutex_ok_def)
qed (rule mutex_step)

section \<open>Calm runs\<close>

text \<open>Children that are not in the table: a new one that \<open>main\<close> has not yet recorded, and the
  foreground process.\<close>

fun pending :: "main_pc \<Rightarrow> int set" where
  "pending (Fg_lock fg) = {cp_pid fg}"
| "pending (Bg_store args n i now pid) = {pid}"
| "pending pc = {}"

fun awaited :: "main_pc \<Rightarrow> int set" where
  "awaited (Fg_wait fg) = {cp_pid fg}"
| "awaited pc = {}"

text \<open>The place \<open>main\<close> has given a number and not yet a process id, and the process id and the place
  the other thread is working on.\<close>

fun reserved :: "main_pc \<Rightarrow> nat set" where
  "reserved (Bg_fork args n i) = {i}"
| "reserved (Bg_store args n i now pid) = {i}"
| "reserved pc = {}"

fun handled :: "wait_pc \<Rightarrow> int set" where
  "handled (W_unlock pid) = {pid}"
| "handled (W_find pid) = {pid}"
| "handled pc = {}"

fun resolving :: "wait_pc \<Rightarrow> nat set" where
  "resolving (W_dec k) = {k}"
| "resolving (W_clean k) = {k}"
| "resolving pc = {}"

fun pc_args_ok :: "main_pc \<Rightarrow> bool" where
  "pc_args_ok (Fg_fork args n) = args_ok args n"
| "pc_args_ok (Bg_find args n) = args_ok args n"
| "pc_args_ok (Bg_fork args n i) = args_ok args n"
| "pc_args_ok (Bg_store args n i now pid) = args_ok args n"
| "pc_args_ok pc = True"

text \<open>The jobs that have a number: the places with a process id, except one that is about to be
  cleaned, and the reserved place.\<close>

definition counted :: "world \<Rightarrow> nat set" where
  "counted w = {i. i < length (processes (mc w)) \<and> cp_pid (processes (mc w) ! i) \<noteq> 0 \<and> wpc w \<noteq> W_clean i} \<union> reserved (mpc w)"

definition children :: "world \<Rightarrow> int set" where
  "children w = running w \<union> zombies w"

definition children_ok :: "world \<Rightarrow> bool" where
  "children_ok w \<longleftrightarrow> (\<forall>p\<in>children w. 0 < p) \<and> running w \<inter> zombies w = {} \<and>
     children w \<subseteq> pids (processes (mc w)) \<union> pending (mpc w) \<union> awaited (mpc w) \<and>
     pending (mpc w) \<subseteq> insert (-1) (running w) \<and> awaited (mpc w) \<subseteq> children w \<union> {-1, 0}"

definition waiter_ok :: "world \<Rightarrow> bool" where
  "waiter_ok w \<longleftrightarrow> (\<forall>p\<in>handled (wpc w). 0 < p \<longrightarrow> p \<in> pids (processes (mc w)) \<and> p \<notin> children w) \<and>
     (\<forall>k\<in>resolving (wpc w). k < length (processes (mc w)) \<and> 0 < cp_pid (processes (mc w) ! k) \<and>
        cp_pid (processes (mc w) ! k) \<notin> children w) \<and> (\<forall>p. wpc w = W_find p \<longrightarrow> 0 < p)"

definition table_ok :: "world \<Rightarrow> bool" where
  "table_ok w \<longleftrightarrow> length (processes (mc w)) = MAX_BGPROCESSES \<and>
     (\<forall>i\<in>reserved (mpc w). i < length (processes (mc w)) \<and> cp_pid (processes (mc w) ! i) = 0) \<and>
     jobs_ok (counted w) (processes (mc w)) (jobCounter (mc w)) \<and> pc_args_ok (mpc w)"

definition calm_ok :: "world \<Rightarrow> bool" where
  "calm_ok w \<longleftrightarrow> mutex_ok w \<and> children_ok w \<and> waiter_ok w \<and> table_ok w"

inductive calm_step :: "sys \<Rightarrow> world \<Rightarrow> world \<Rightarrow> bool" for sys where
  calm_main: "main_step sys w (Some w') \<Longrightarrow>
    running w' - running w \<subseteq> - (pids (processes (mc w)) \<union> handled (wpc w)) \<Longrightarrow> calm_step sys w w'"
| calm_waiter: "mpc w \<noteq> Exited \<Longrightarrow> wait_step w (Some w') \<Longrightarrow> calm_step sys w w'"
| calm_child: "os_step pid w w' \<Longrightarrow> pid \<notin> pending (mpc w) \<Longrightarrow> calm_step sys w w'"

lemma calm_step_step: "calm_step sys w w' \<Longrightarrow> steps_to sys w w'"
  by (auto simp: steps_to_def elim!: calm_step.cases intro: step.intros)

lemma menu_exit_simps [simp]:
  assumes "menu_exit pc"
  shows "pending pc = {}" "awaited pc = {}" "reserved pc = {}" "pc_args_ok pc"
  using assms by (cases pc; simp)+

text \<open>The steps of \<open>main\<close> that leave the table and the children as they are.\<close>

lemma calm_frame:
  assumes "calm_ok w" "processes (mc w') = processes (mc w)" "jobCounter (mc w') = jobCounter (mc w)"
    "running w' = running w" "zombies w' = zombies w" "wpc w' = wpc w" "mutex_ok w'"
    "pending (mpc w') \<subseteq> insert (-1) (running w)" "awaited (mpc w') \<subseteq> children w \<union> {-1, 0}" "reserved (mpc w') = reserved (mpc w)"
    "children w \<inter> (pending (mpc w) \<union> awaited (mpc w)) \<subseteq> pending (mpc w') \<union> awaited (mpc w')" "pc_args_ok (mpc w')"
  shows "calm_ok w'"
proof -
  have c: "counted w' = counted w" "children w' = children w" using assms by (simp_all add: counted_def children_def)
  have "waiter_ok w'" using assms(1,2,6) by (simp add: calm_ok_def waiter_ok_def c)
  moreover have "table_ok w'" using assms(1-3,10,12) by (auto simp: calm_ok_def table_ok_def c)
  moreover have "children_ok w'" using assms(1,2,4,5,8,9,11) by (auto simp: calm_ok_def children_ok_def c)
  ultimately show ?thesis using assms(7) by (simp add: calm_ok_def)
qed

lemma calm_fork:
  assumes "calm_ok w" "mutex_ok w'" "pid = -1 \<or> 0 < pid \<and> pid \<notin> children w"
    "processes (mc w') = processes (mc w)" "jobCounter (mc w') = jobCounter (mc w)" "zombies w' = zombies w" "wpc w' = wpc w"
    "running w' = (if pid = -1 then running w else insert pid (running w))"
    "running w' - running w \<subseteq> - (pids (processes (mc w)) \<union> handled (wpc w))"
    "pending (mpc w) = {}" "awaited (mpc w) = {}" "pending (mpc w') = {pid}" "awaited (mpc w') = {}"
    "reserved (mpc w') = reserved (mpc w)" "pc_args_ok (mpc w')"
  shows "calm_ok w'"
proof (cases "pid = -1")
  case True
  with assms show ?thesis by (intro calm_frame [OF assms(1)]) simp_all
next
  case False
  with assms(3,8,9) have pid: "0 < pid" "pid \<notin> children w" "pid \<notin> pids (processes (mc w))" "pid \<notin> handled (wpc w)"
    by (auto simp: children_def)
  have r: "running w' = insert pid (running w)" using assms(8) False by simp
  then have c: "children w' = insert pid (children w)" using assms(6) by (simp add: children_def)
  have "children_ok w'" using assms(1,4,6,10-13) pid(1,2) r c
    by (auto simp: calm_ok_def children_ok_def children_def)
  moreover have "waiter_ok w'" unfolding waiter_ok_def
  proof (intro conjI ballI impI)
    fix k assume k: "k \<in> resolving (wpc w')"
    then have k': "k < length (processes (mc w))" "0 < cp_pid (processes (mc w) ! k)" "cp_pid (processes (mc w) ! k) \<notin> children w"
      using assms(1,7) by (auto simp: calm_ok_def waiter_ok_def)
    then show "k < length (processes (mc w'))" "0 < cp_pid (processes (mc w') ! k)" using assms(4) by simp_all
    have "cp_pid (processes (mc w) ! k) \<noteq> pid" using pids_nth [OF k'(1)] pid(3) by metis
    then show "cp_pid (processes (mc w') ! k) \<notin> children w'" using k'(3) assms(4) c by simp
  qed (use assms(1,4,7) pid(4) c in \<open>auto simp: calm_ok_def waiter_ok_def\<close>)
  moreover have "counted w' = counted w" using assms by (simp add: counted_def)
  then have "table_ok w'" using assms(1,4,5,14,15) unfolding calm_ok_def table_ok_def by auto
  ultimately show ?thesis using assms(2) by (simp add: calm_ok_def)
qed

text \<open>A place in the table is free to be reserved.\<close>

lemma calm_reserve:
  assumes "calm_ok w" "mpc w = Bg_find args n" "findProcess (processes (mc w)) 0 = Some i"
    and "w' = w\<lparr>mc := (mc w)
        \<lparr>processes := (processes (mc w))[i := (processes (mc w) ! i)\<lparr>cp_jobnum := jobCounter (mc w)\<rparr>],
         jobCounter := jobCounter (mc w) + 1\<rparr>, mpc := Bg_fork args n i\<rparr>"
  shows "calm_ok w'"
proof -
  let ?ps = "processes (mc w)" and ?qs = "processes (mc w')"
  from assms(3) have i: "i < length ?ps" "cp_pid (?ps ! i) = 0" by (simp_all add: findProcess_Some)
  have pid: "cp_pid (?qs ! k) = cp_pid (?ps ! k)" for k using assms(4) by (simp add: update_field)
  have len: "length ?qs = length ?ps" using assms(4) by simp
  have q: "?qs = ?ps[i := (?ps ! i)\<lparr>cp_jobnum := jobCounter (mc w)\<rparr>]" using assms(4) by simp
  have p: "pids ?qs = pids ?ps" unfolding q by (rule pids_update_jobnum)
  have same: "mpc w' = Bg_fork args n i" "wpc w' = wpc w" "lock w' = lock w" "running w' = running w" "zombies w' = zombies w"
    "jobCounter (mc w') = jobCounter (mc w) + 1" using assms(4) by simp_all
  have c: "counted w' = insert i (counted w)" "i \<notin> counted w"
    using i pid len assms(2) by (auto simp: counted_def same)
  have "jobs_ok (counted w') ?qs (jobCounter (mc w'))" unfolding c(1) q same(6)
    by (rule jobs_ok_reserve) (use assms(1) i c in \<open>auto simp: calm_ok_def table_ok_def\<close>)
  then have "table_ok w'" using assms(1,2) i by (simp add: calm_ok_def table_ok_def same(1) len pid)
  moreover have ch: "children w' = children w" by (simp add: children_def same)
  have "children_ok w'" using assms(1,2) by (simp add: calm_ok_def children_ok_def same(1,4,5) ch p)
  moreover have "waiter_ok w'" using assms(1) by (simp add: calm_ok_def waiter_ok_def same(2) ch p pid len)
  moreover have "mutex_ok w'" using assms(1,2) by (auto simp: calm_ok_def mutex_ok_def same)
  ultimately show ?thesis by (simp add: calm_ok_def)
qed

text \<open>The process id is stored.\<close>

lemma calm_store:
  assumes "calm_ok w" "mpc w = Bg_store args n i now pid"
    and "processes (mc w') = (processes (mc w))[i := (processes (mc w) ! i)\<lparr>cp_start := now, cp_pid := pid\<rparr>]"
    and "jobCounter (mc w') = jobCounter (mc w)" "mpc w' = Menu" "wpc w' = wpc w" "lock w' = lock w"
    "running w' = running w" "zombies w' = zombies w"
  shows "calm_ok w'"
proof -
  let ?ps = "processes (mc w)" and ?qs = "processes (mc w')"
  have i: "i < length ?ps" "cp_pid (?ps ! i) = 0" and pid: "pid = -1 \<or> pid \<in> running w"
    using assms(1,2) by (auto simp: calm_ok_def table_ok_def children_ok_def)
  have pid0: "pid \<noteq> 0" using pid assms(1) by (auto simp: calm_ok_def children_ok_def children_def)
  have len: "length ?qs = length ?ps" using assms(3) by simp
  have ki: "i \<notin> resolving (wpc w)" using assms(1) i(2) by (auto simp: calm_ok_def waiter_ok_def)
  have other: "x \<in> pids ?qs" if "x \<in> pids ?ps" "x \<noteq> 0" for x
    unfolding assms(3) by (rule pids_update_other) (use that i in auto)
  have self: "pid \<in> pids ?qs" unfolding assms(3) using pids_update_self [OF i(1), of "(?ps ! i)\<lparr>cp_start := now, cp_pid := pid\<rparr>"] by simp
  have c: "counted w' = counted w" using i pid0 ki assms(2,3) len
    by (auto simp: counted_def assms(5,6) nth_list_update split: if_splits)
  have ch: "children w' = children w" by (simp add: children_def assms(8,9))
  have pos: "0 < x" if "x \<in> children w" for x using that assms(1) by (auto simp: calm_ok_def children_ok_def)
  have "children w \<subseteq> pids ?ps \<union> {pid}" using assms(1,2) by (auto simp: calm_ok_def children_ok_def)
  then have "children w \<subseteq> pids ?qs" using other self pos by fastforce
  then have "children_ok w'" using assms(1) by (auto simp: calm_ok_def children_ok_def ch assms(5,8,9))
  moreover have "?qs ! k = ?ps ! k" if "k \<in> resolving (wpc w)" for k
    using that ki assms(3) by (cases "k = i") simp_all
  then have "waiter_ok w'" using assms(1) other by (auto simp: calm_ok_def waiter_ok_def ch assms(6) len)
  moreover have "jobs_ok (counted w') ?qs (jobCounter (mc w'))" unfolding c assms(4)
    by (rule jobs_ok_cong [of _ ?ps]) (use assms(1,3) in \<open>auto simp: calm_ok_def table_ok_def update_field\<close>)
  ultimately show ?thesis using assms(1,2) len
    by (auto simp: calm_ok_def table_ok_def mutex_ok_def assms(5-7))
qed

text \<open>The other thread's steps.\<close>

lemma calm_waiter_frame:
  assumes "calm_ok w" "processes (mc w') = processes (mc w)" "jobCounter (mc w') = jobCounter (mc w)" "mpc w' = mpc w"
    "mutex_ok w'" "running w' = running w" "zombies w' = zombies w" "waiter_ok w'"
    "\<forall>k. wpc w \<noteq> W_clean k" "\<forall>k. wpc w' \<noteq> W_clean k"
  shows "calm_ok w'"
proof -
  have "counted w' = counted w" "children w' = children w" using assms by (simp_all add: counted_def children_def)
  then show ?thesis using assms(1-8) unfolding calm_ok_def children_ok_def table_ok_def by auto
qed

lemma calm_w_wait:
  assumes "calm_ok w" "wpc w = W_wait" "reaped pid w w1" "w' = w1\<lparr>wpc := W_unlock pid\<rparr>"
  shows "calm_ok w'"
proof -
  note r = reaped_simps [OF assms(3)]
  have same: "mc w' = mc w" "mpc w' = mpc w" "lock w' = lock w" "running w' = running w" "zombies w' = zombies w - {pid}"
    "wpc w' = W_unlock pid" using r assms(4) by simp_all
  have m: "mutex_ok w'" using assms(1,2) by (auto simp: calm_ok_def mutex_ok_def same)
  have aw: "awaited (mpc w) = {}" using assms(1,2) by (cases "mpc w") (auto simp: calm_ok_def mutex_ok_def)
  have ch: "children w' = children w - {pid}"
    using r assms(1) by (auto simp: children_def same calm_ok_def children_ok_def)
  have "children_ok w'" using assms(1) aw by (auto simp: calm_ok_def children_ok_def ch same)
  moreover have "pid \<in> pids (processes (mc w))" if "0 < pid"
  proof -
    from that r have z: "pid \<in> zombies w" by auto
    then have "pid \<notin> pending (mpc w)" using that assms(1) by (auto simp: calm_ok_def children_ok_def)
    with z assms(1) aw show ?thesis by (auto simp: calm_ok_def children_ok_def children_def)
  qed
  then have "waiter_ok w'" by (simp add: waiter_ok_def same ch)
  moreover have "counted w' = counted w" using assms(2) by (simp add: counted_def same)
  then have "table_ok w'" using assms(1) by (auto simp: calm_ok_def table_ok_def same)
  ultimately show ?thesis using m by (simp add: calm_ok_def)
qed

lemma calm_w_dec:
  assumes "calm_ok w" "wpc w = W_dec k" "w' = w\<lparr>mc := job_decrement k (mc w), wpc := W_clean k\<rparr>"
  shows "calm_ok w'"
proof -
  let ?ps = "processes (mc w)"
  have k: "k < length ?ps" "0 < cp_pid (?ps ! k)" "cp_pid (?ps ! k) \<notin> children w" "k \<notin> reserved (mpc w)"
    using assms(1,2) by (auto simp: calm_ok_def waiter_ok_def table_ok_def)
  have same: "mc w' = job_decrement k (mc w)" "mpc w' = mpc w" "lock w' = lock w" "running w' = running w"
    "zombies w' = zombies w" "wpc w' = W_clean k" using assms(3) by simp_all
  have ch: "children w' = children w" by (simp add: children_def same)
  have c: "counted w' = counted w - {k}" "k \<in> counted w"
    using assms(2) k by (auto simp: counted_def same)
  have "jobs_ok (counted w') (processes (mc w')) (jobCounter (mc w'))" unfolding c(1) same(1)
    by (rule job_decrement_ok [OF _ c(2)]) (use assms(1) in \<open>simp add: calm_ok_def table_ok_def\<close>)
  then have "table_ok w'" using assms(1) by (auto simp: calm_ok_def table_ok_def same)
  moreover have "children_ok w'" using assms(1) by (simp add: calm_ok_def children_ok_def same ch)
  moreover have "waiter_ok w'" using k by (simp add: waiter_ok_def same ch)
  moreover have "mutex_ok w'" using assms(1,2) by (auto simp: calm_ok_def mutex_ok_def same)
  ultimately show ?thesis by (simp add: calm_ok_def)
qed

lemma calm_w_clean:
  assumes "calm_ok w" "wpc w = W_clean k" "w' = w\<lparr>mc := job_clean now majflt minflt k (mc w), wpc := W_lock\<rparr>"
  shows "calm_ok w'"
proof -
  let ?ps = "processes (mc w)"
  have k: "k < length ?ps" "0 < cp_pid (?ps ! k)" "cp_pid (?ps ! k) \<notin> children w" "k \<notin> reserved (mpc w)"
    using assms(1,2) by (auto simp: calm_ok_def waiter_ok_def table_ok_def)
  have same: "mc w' = job_clean now majflt minflt k (mc w)" "mpc w' = mpc w" "lock w' = lock w" "running w' = running w"
    "zombies w' = zombies w" "wpc w' = W_lock" using assms(3) by simp_all
  have ch: "children w' = children w" by (simp add: children_def same)
  have c: "counted w' = counted w" using assms(2) k by (auto simp: counted_def same split: if_splits)
  have "jobs_ok (counted w') (processes (mc w')) (jobCounter (mc w'))" unfolding c same(1)
    by (rule job_clean_ok) (use assms(1) in \<open>simp add: calm_ok_def table_ok_def\<close>)
  then have "table_ok w'" using assms(1) by (auto simp: calm_ok_def table_ok_def same)
  moreover have "x \<in> pids (processes (mc w'))" if "x \<in> children w" "x \<in> pids ?ps" for x
    unfolding same(1) by (rule job_clean_pids) (use that k(3) in auto)
  then have "children_ok w'" using assms(1) by (auto simp: calm_ok_def children_ok_def same(2,4,5) ch)
  moreover have "waiter_ok w'" by (simp add: waiter_ok_def same)
  moreover have "mutex_ok w'" using assms(1,2) by (auto simp: calm_ok_def mutex_ok_def same)
  ultimately show ?thesis by (simp add: calm_ok_def)
qed

text \<open>\<open>main\<close> takes a background job while it waits for its foreground process.\<close>

lemma calm_fg_job:
  assumes "calm_ok w" "mpc w = Fg_wait fg" "fin \<in> zombies w" "fin \<noteq> cp_pid fg"
    and "findProcess (processes (mc w)) fin = Some k" "processes s = processes (mc w)" "jobCounter s = jobCounter (mc w)"
    and "w' = w\<lparr>zombies := zombies w - {fin}, mc := job_clean now majflt minflt k (job_decrement k s)\<rparr>"
  shows "calm_ok w'"
proof -
  let ?ps = "processes (mc w)"
  have k: "k < length ?ps" "cp_pid (?ps ! k) = fin" using assms(5) by (simp_all add: findProcess_Some)
  have fin: "0 < fin" "fin \<in> children w" "fin \<notin> running w"
    using assms(1,3) by (auto simp: calm_ok_def children_ok_def children_def)
  have same: "mc w' = job_clean now majflt minflt k (job_decrement k s)" "mpc w' = Fg_wait fg" "lock w' = lock w"
    "running w' = running w" "zombies w' = zombies w - {fin}" "wpc w' = wpc w" using assms(2,8) by simp_all
  have ch: "children w' = children w - {fin}" using fin(3) by (auto simp: children_def same)
  have kw: "k \<notin> resolving (wpc w)" "wpc w \<noteq> W_clean k" using assms(1) fin(2) k(2) by (auto simp: calm_ok_def waiter_ok_def)
  have c: "counted w' = counted w - {k}" "k \<in> counted w"
    using assms(2,6) k fin(1) kw by (auto simp: counted_def same split: if_splits)
  have "jobs_ok (counted w') (processes (mc w')) (jobCounter (mc w'))" unfolding c(1) same(1)
    by (rule job_clean_ok, rule job_decrement_ok [OF _ c(2)]) (use assms(1,6,7) in \<open>simp add: calm_ok_def table_ok_def\<close>)
  then have "table_ok w'" using assms(1,6) by (auto simp: calm_ok_def table_ok_def same)
  moreover have other: "x \<in> pids (processes (mc w'))" if "x \<noteq> fin" "x \<in> pids ?ps" for x
    unfolding same(1) by (rule job_clean_pids) (use that k assms(6) in auto)
  then have "children_ok w'" using assms(1,2,4) by (auto simp: calm_ok_def children_ok_def same(2,4,5) ch)
  moreover have "waiter_ok w'" unfolding waiter_ok_def
  proof (intro conjI ballI impI)
    fix p assume p: "p \<in> handled (wpc w')" "0 < p"
    then have "p \<in> pids ?ps" "p \<notin> children w" using assms(1) by (auto simp: calm_ok_def waiter_ok_def same)
    then show "p \<in> pids (processes (mc w'))" "p \<notin> children w'" using other [of p] fin(2) ch by auto
  next
    fix j assume "j \<in> resolving (wpc w')"
    then have j: "j \<noteq> k" "j < length ?ps" "0 < cp_pid (?ps ! j)" "cp_pid (?ps ! j) \<notin> children w"
      using assms(1) kw by (auto simp: calm_ok_def waiter_ok_def same)
    then show "j < length (processes (mc w'))" "0 < cp_pid (processes (mc w') ! j)" "cp_pid (processes (mc w') ! j) \<notin> children w'"
      using assms(6) by (simp_all add: same ch)
  qed (use assms(1) in \<open>auto simp: calm_ok_def waiter_ok_def same\<close>)
  moreover have "mutex_ok w'" using assms(1,2) by (auto simp: calm_ok_def mutex_ok_def same)
  ultimately show ?thesis by (simp add: calm_ok_def)
qed

lemma calm_fg_wait:
  assumes "calm_ok w" "mpc w = Fg_wait fg" "cp_pid fg \<noteq> 0" "reaped fin w w1"
    and "foreground_wait fin now majflt minflt fg (mc w) = Some (fg', s)" "w' = w1\<lparr>mc := s, mpc := Fg_wait fg'\<rparr>"
  shows "calm_ok w'"
proof (cases "fin = cp_pid fg")
  case True
  note r = reaped_simps [OF assms(4)]
  from assms(5) True have c: "cleanCommand now majflt minflt fg (mc w) = (fg', s)" by (simp add: foreground_wait_def)
  from cleanCommand_simps [of now majflt minflt fg "mc w"] c mc2_more [of s "mc w"]
  have s: "processes s = processes (mc w)" "jobCounter s = jobCounter (mc w)" "cp_pid fg' = 0" by simp_all
  have same: "processes (mc w') = processes (mc w)" "jobCounter (mc w') = jobCounter (mc w)" "mpc w' = Fg_wait fg'"
    "lock w' = lock w" "wpc w' = wpc w" "running w' = running w" "zombies w' = zombies w - {fin}"
    using r assms(6) s by simp_all
  have ch: "children w' = children w - {fin}"
    using r assms(1) by (auto simp: children_def same calm_ok_def children_ok_def)
  have "children_ok w'" using assms(1,2) True s(3)
    by (auto simp: calm_ok_def children_ok_def same ch)
  moreover have "waiter_ok w'" using assms(1) by (auto simp: calm_ok_def waiter_ok_def same ch)
  moreover have "counted w' = counted w" using assms(2) by (simp add: counted_def same)
  then have "table_ok w'" using assms(1,2) by (simp add: calm_ok_def table_ok_def same)
  moreover have "mutex_ok w'" using assms(1,2) by (auto simp: calm_ok_def mutex_ok_def same)
  ultimately show ?thesis by (simp add: calm_ok_def)
next
  case False
  have "fin \<in> zombies w"
    using reaped_simps [OF assms(4)] False assms(1,2,3) by (auto simp: calm_ok_def children_ok_def children_def)
  moreover from this have "w1 = w\<lparr>zombies := zombies w - {fin}\<rparr>"
    using assms(4) by (auto simp: reaped_def)
  moreover from assms(5) False obtain k t where "job_complete fin (mc w) = Some (k, t)" "fg' = fg"
    "s = job_clean now majflt minflt k (job_decrement k t)"
    by (auto simp: foreground_wait_def bind_eq_Some_conv)
  ultimately show ?thesis using assms(2,6) False job_complete_Some [of fin "mc w" k t]
    by (intro calm_fg_job [OF assms(1,2), of fin k t]) (cases w; simp)+
qed

lemma calm_main_step:
  assumes "calm_ok w" "main_step sys w (Some w')"
    and "running w' - running w \<subseteq> - (pids (processes (mc w)) \<union> handled (wpc w))"
  shows "calm_ok w'"
proof -
  have m: "mutex_ok w'" using mutex_main [OF _ assms(2)] assms(1) by (simp add: calm_ok_def)
  note ok = assms(1)
  have pend: "pending (mpc w) \<subseteq> insert (-1) (running w)" "\<forall>p\<in>children w. 0 < p" "pc_args_ok (mpc w)"
    using ok by (auto simp: calm_ok_def children_ok_def table_ok_def)
  show ?thesis using assms(2)
  proof cases
    case menu
    then obtain pc s where "mc2_round sys (mc w) = Some (pc, s)" "w' = w\<lparr>mc := s, mpc := pc\<rparr>"
      by (auto simp: Some_map_option)
    with mc2_round_frame [of sys "mc w" pc s] menu m show ?thesis by (intro calm_frame [OF ok]) simp_all
  next
    case list_lock
    with m show ?thesis by (intro calm_frame [OF ok]) simp_all
  next
    case list_print
    with m show ?thesis by (intro calm_frame [OF ok]) (auto simp: Some_map_option dest!: list_running_frame)
  next
    case (fg_fork args n pid w1 now p)
    then obtain fg s where x: "executeCommand2 now pid args n p (mc w) = Some (fg, s)" "w' = w1\<lparr>mc := s, mpc := Fg_lock fg\<rparr>"
      by (auto simp: Some_map_option)
    with executeCommand2_frame [OF x(1)] forked_simps [OF fg_fork(3)] fg_fork(2) m assms(3) show ?thesis
      by (intro calm_fork [OF ok m, of pid]) (auto simp: children_def)
  next
    case (fg_lock fg)
    with m pend show ?thesis by (intro calm_frame [OF ok]) (auto simp: children_def)
  next
    case (fg_wait fg fin w1 now majflt minflt)
    then show ?thesis by (auto simp: Some_map_option intro: calm_fg_wait [OF ok])
  next
    case (fg_done fg)
    with m pend show ?thesis by (intro calm_frame [OF ok]) auto
  next
    case (bg_find args n)
    then show ?thesis by (auto simp: Some_map_option intro: calm_reserve [OF ok])
  next
    case (bg_fork args n i pid w1 now)
    with forked_simps [OF bg_fork(3)] m assms(3) pend show ?thesis
      by (intro calm_fork [OF ok m, of pid]) (auto simp: children_def)
  next
    case (bg_store args n i now pid)
    then show ?thesis by (auto simp: Some_map_option dest!: executeCommand2_frame intro!: calm_store [OF ok])
  next
    case exit
    with m show ?thesis by (intro calm_frame [OF ok]) simp_all
  qed
qed

lemma calm_wait_step:
  assumes "calm_ok w" "wait_step w (Some w')"
  shows "calm_ok w'"
proof -
  have m: "mutex_ok w'" using mutex_waiter [OF _ assms(2)] assms(1) by (simp add: calm_ok_def)
  note ok = assms(1)
  show ?thesis using assms(2)
  proof cases
    case w_lock
    with m show ?thesis by (intro calm_waiter_frame [OF ok]) (simp_all add: waiter_ok_def)
  next
    case (w_wait pid w1)
    then show ?thesis by (intro calm_w_wait [OF ok]) simp_all
  next
    case w_none
    with m show ?thesis by (intro calm_waiter_frame [OF ok]) (simp_all add: waiter_ok_def)
  next
    case (w_unlock pid)
    with m ok show ?thesis
      by (intro calm_waiter_frame [OF ok]) (simp_all add: waiter_ok_def calm_ok_def children_def)
  next
    case (w_find pid)
    then obtain k s where k: "job_complete pid (mc w) = Some (k, s)" "w' = w\<lparr>mc := s, wpc := W_dec k\<rparr>"
      by (auto simp: Some_map_option)
    have "0 < pid \<longrightarrow> pid \<notin> children w" using ok w_find by (simp add: calm_ok_def waiter_ok_def)
    with job_complete_Some [OF k(1)] k(2) w_find m ok show ?thesis
      by (intro calm_waiter_frame [OF ok]) (auto simp: waiter_ok_def calm_ok_def children_def findProcess_Some)
  next
    case (w_dec k)
    then show ?thesis by (intro calm_w_dec [OF ok]) simp_all
  next
    case (w_clean k now majflt minflt)
    then show ?thesis by (intro calm_w_clean [OF ok]) simp_all
  qed
qed

lemma calm_child_step:
  assumes "calm_ok w" "os_step pid w w'" "pid \<notin> pending (mpc w)"
  shows "calm_ok w'"
  using assms(2)
proof cases
  case child_exit
  have ch: "children w' = children w" using child_exit by (auto simp: children_def)
  have same: "mc w' = mc w" "mpc w' = mpc w" "wpc w' = wpc w" "lock w' = lock w"
    "running w' = running w - {pid}" "zombies w' = insert pid (zombies w)" using child_exit(1) by simp_all
  have "counted w' = counted w" by (simp add: counted_def same)
  then have "table_ok w' = table_ok w" "waiter_ok w' = waiter_ok w" "mutex_ok w' = mutex_ok w"
    by (simp_all only: table_ok_def waiter_ok_def mutex_ok_def same ch)
  moreover have "children_ok w'" using assms(1,3) child_exit(2)
    by (auto simp: calm_ok_def children_ok_def ch same)
  ultimately show ?thesis using assms(1) by (simp add: calm_ok_def)
qed

lemma calm_step_ok: "calm_ok w \<Longrightarrow> calm_step sys w w' \<Longrightarrow> calm_ok w'"
  by (auto elim!: calm_step.cases intro: calm_main_step calm_wait_step calm_child_step)

lemma calm_start: "at_start sys input w \<Longrightarrow> calm_ok w"
proof -
  assume start: "at_start sys input w"
  note s = at_start_simps [OF start]
  have pc: "pending (mpc w) = {}" "awaited (mpc w) = {}" "reserved (mpc w) = {}" "pc_args_ok (mpc w)" "\<not> main_holds (mpc w)"
    using s(1) by auto
  have "counted w = {}" by (auto simp: counted_def s pc initial_process_def)
  then have "table_ok w" by (simp add: table_ok_def s pc jobs_ok_def bij_betw_def)
  then show "calm_ok w"
    by (simp add: calm_ok_def mutex_ok_def children_ok_def waiter_ok_def children_def s pc)
qed

interpretation calm_run: invariant_system "at_start sys input" "calm_step sys" calm_ok for sys input
  by unfold_locales (auto intro: calm_start calm_step_ok)

text \<open>In a consistent state neither thread runs into a NULL pointer.\<close>

lemma calm_waiter_safe:
  assumes "calm_ok w"
  shows "\<not> wait_step w None"
proof
  assume "wait_step w None"
  then obtain pid where "wpc w = W_find pid" "job_complete pid (mc w) = None" by cases auto
  with assms show False by (auto simp: job_complete_None calm_ok_def waiter_ok_def)
qed

lemma calm_fg_safe:
  assumes "calm_ok w" "mpc w = Fg_wait fg" "cp_pid fg \<noteq> 0" "reaped fin w w1"
  shows "foreground_wait fin now majflt minflt fg (mc w) \<noteq> None"
proof (cases "fin = cp_pid fg")
  case False
  have z: "fin \<in> zombies w"
    using reaped_simps [OF assms(4)] False assms(1,2,3) by (auto simp: calm_ok_def children_ok_def children_def)
  then have "fin \<in> pids (processes (mc w))"
    using assms(1,2) False by (auto simp: calm_ok_def children_ok_def children_def)
  then have "job_complete fin (mc w) \<noteq> None" by (simp add: job_complete_None)
  then obtain k t where "job_complete fin (mc w) = Some (k, t)" by auto
  with False show ?thesis by (simp add: foreground_wait_def)
qed (simp add: foreground_wait_def)

lemma calm_main_safe:
  assumes "calm_ok w" "main_step sys w None"
  shows "mpc w = Menu \<or> (\<exists>args n. mpc w = Bg_find args n) \<and> 0 \<notin> pids (processes (mc w))"
  using assms(2)
proof cases
  case list_print
  with assms(1) list_running_ok [of "counted w" "mc w"] show ?thesis by (simp add: calm_ok_def table_ok_def)
next
  case (fg_fork args n pid w1 now p)
  with assms(1) executeCommand2_ok [of args n now pid p "mc w"] show ?thesis by (simp add: calm_ok_def table_ok_def)
next
  case (fg_wait fg fin w1 now majflt minflt)
  with calm_fg_safe [OF assms(1) fg_wait(2-4), of now majflt minflt] show ?thesis by simp
next
  case (bg_find args n)
  then show ?thesis by (simp add: findProcess_pids)
next
  case (bg_store args n i now pid)
  with assms(1) executeCommand2_ok [of args n now pid "processes (mc w) ! i" "mc w"] show ?thesis
    by (simp add: calm_ok_def table_ok_def)
qed simp

text \<open>A process id that is not positive never leaves the table.\<close>

lemma calm_step_stuck:
  assumes "calm_ok w" "calm_step sys w w'" "-1 \<in> pids (processes (mc w))" "mpc w \<noteq> Exited"
  shows "-1 \<in> pids (processes (mc w')) \<and> mpc w' \<noteq> Exited"
  using assms(2)
proof cases
  case calm_main
  show ?thesis using calm_main(1)
  proof cases
    case menu
    then obtain pc s where "mc2_round sys (mc w) = Some (pc, s)" "w' = w\<lparr>mc := s, mpc := pc\<rparr>"
      by (auto simp: Some_map_option)
    with mc2_round_frame [of sys "mc w" pc s] assms(3) show ?thesis by auto
  next
    case list_print
    with assms(3) show ?thesis by (auto simp: Some_map_option dest!: list_running_frame)
  next
    case (fg_fork args n pid w1 now p)
    with assms(3) show ?thesis by (auto simp: Some_map_option dest!: executeCommand2_frame forked_simps)
  next
    case (fg_wait fg fin w1 now majflt minflt)
    then obtain fg' s where f: "foreground_wait fin now majflt minflt fg (mc w) = Some (fg', s)" "w' = w1\<lparr>mc := s, mpc := Fg_wait fg'\<rparr>"
      by (auto simp: Some_map_option)
    have "-1 \<in> pids (processes s)"
    proof (cases "fin = cp_pid fg")
      case True
      with f cleanCommand_simps [of now majflt minflt fg "mc w"] mc2_more [of s "mc w"] assms(3) show ?thesis
        by (simp add: foreground_wait_def)
    next
      case False
      then obtain k t where k: "job_complete fin (mc w) = Some (k, t)" "s = job_clean now majflt minflt k (job_decrement k t)"
        using f by (auto simp: foreground_wait_def bind_eq_Some_conv)
      have z: "fin \<in> zombies w"
        using reaped_simps [OF fg_wait(4)] False assms(1) fg_wait(2,3) by (auto simp: calm_ok_def children_ok_def children_def)
      with assms(1) have "0 < fin" by (auto simp: calm_ok_def children_ok_def children_def)
      with job_complete_Some [OF k(1)] assms(3) show ?thesis unfolding k(2)
        by (intro job_clean_pids) (auto simp: findProcess_Some)
    qed
    with f show ?thesis by simp
  next
    case (bg_store args n i now pid)
    then have "cp_pid (processes (mc w) ! i) = 0" using assms(1) by (auto simp: calm_ok_def table_ok_def)
    with bg_store assms(3) show ?thesis
      by (auto simp: Some_map_option dest!: executeCommand2_frame intro!: pids_update_other)
  next
    case exit
    with assms(3) show ?thesis by (auto simp: pids_def)
  qed (use assms(3) in \<open>auto simp: Some_map_option dest!: forked_simps\<close>)
next
  case calm_waiter
  show ?thesis using calm_waiter(2)
  proof cases
    case (w_find pid)
    with assms(3,4) show ?thesis by (auto simp: Some_map_option dest!: job_complete_Some)
  next
    case (w_clean k now majflt minflt)
    then have "0 < cp_pid (processes (mc w) ! k)" using assms(1) by (auto simp: calm_ok_def waiter_ok_def)
    with w_clean assms(3,4) show ?thesis by (auto intro!: job_clean_pids)
  qed (use assms(3,4) in \<open>auto dest!: reaped_simps\<close>)
next
  case (calm_child pid)
  with assms(3,4) show ?thesis by (auto elim!: os_step.cases)
qed

section \<open>Properties\<close>

text \<open>C17: the mutex does its work. In every run of the two threads, in every interleaving, the thread
  that waits is never in \<open>wait3\<close> while \<open>main\<close> waits for a foreground process or lists the jobs.\<close>

theorem wait3_exclusive:
  assumes "reach (at_start sys input) (steps_to sys) w" "main_holds (mpc w)"
  shows "wpc w \<noteq> W_wait \<and> lock w = Some Main"
  using mutex.reach_inv [OF assms(1)] assms(2) by (auto simp: mutex_ok_def)

definition ready :: sys where
  "ready = \<lparr>sys_alloc = (\<lambda>k. True), sys_cwd = (\<lambda>ds. ''/''), sys_frame = Some\<rparr>"

lemma ready_start: "\<exists>w. at_start ready input w \<and> mpc w = Menu \<and> inp (mc w) = input"
  by (simp add: at_start_def mc2_start_def default_commands2_def appendOption2_def ready_def put_def)

text \<open>A user lists the jobs.\<close>

lemma ready_listing: "\<exists>w. reach (at_start ready ''r\<newline>'') (steps_to ready) w \<and> mpc w = List_print"
proof -
  obtain w where w: "at_start ready ''r\<newline>'' w" "mpc w = Menu" "inp (mc w) = ''r\<newline>''" using ready_start by blast
  have "read_line MAX_IN_LENGTH MAX_IN_LENGTH (menu2 (mc w)) = Some (''r'' @ [newline], (menu2 (mc w))\<lparr>inp := []\<rparr>)"
    by (rule read_line_line) (simp_all add: w(3))
  moreover have "\<not> met_eof MAX_IN_LENGTH ''r\<newline>''"
    using fgets_line [of "''r''" MAX_IN_LENGTH "[]"] by (simp add: met_eof_def)
  ultimately have "\<exists>s. mc2_round ready (mc w) = Some (List_lock, s)"
    using w(3) by (simp add: mc2_round_def selectOption2_def)
  then obtain s where "mc2_round ready (mc w) = Some (List_lock, s)" by blast
  with main_step.menu [of w ready] w(2) have "steps_to ready w (w\<lparr>mc := s, mpc := List_lock\<rparr>)"
    by (auto simp: steps_to_def intro: by_main)
  moreover have "steps_to ready (w\<lparr>mc := s, mpc := List_lock\<rparr>) (w\<lparr>mc := s, lock := Some Main, mpc := List_print\<rparr>)"
    using main_step.list_lock [of "w\<lparr>mc := s, mpc := List_lock\<rparr>" ready] at_start_simps(3) [OF w(1)]
    by (auto simp: steps_to_def intro: by_main)
  ultimately have "reach (at_start ready ''r\<newline>'') (steps_to ready) (w\<lparr>mc := s, lock := Some Main, mpc := List_print\<rparr>)"
    using reach_init [of "at_start ready ''r\<newline>''" w] w(1) by (meson reach_step)
  then show ?thesis by fastforce
qed

theorem wait3_exclusive_witness:
  "\<exists>w. reach (at_start ready ''r\<newline>'') (steps_to ready) w \<and> mpc w = List_print \<and> wpc w \<noteq> W_wait \<and> lock w = Some Main"
  using ready_listing wait3_exclusive [of ready "''r\<newline>''"] by fastforce



text \<open>C18: a race. \<open>main\<close> has called \<open>fork\<close> for a command, in the foreground or in the
  background; if the child exits at once and the thread that waits runs before \<open>main\<close> does, it
  takes the child, does not find it in the table and dereferences NULL.\<close>

theorem quick_child_race:
  assumes "mpc w = Fg_fork args n \<or> mpc w = Bg_fork args n i" "args_ok args n"
    and "wpc w = W_lock" "lock w = None" "0 < pid" "pid \<notin> running w \<union> zombies w" "pid \<notin> pids (processes (mc w))"
  shows "\<exists>w'. (steps_to sys)\<^sup>*\<^sup>* w w' \<and> step sys w' None"
proof -
  have f: "forked pid w (w\<lparr>running := insert pid (running w)\<rparr>)" using assms(5,6) by (simp add: forked_def)
  have "\<exists>w1. steps_to sys w w1 \<and> mpc w1 \<noteq> Exited \<and> wpc w1 = W_lock \<and> lock w1 = None \<and>
      running w1 = insert pid (running w) \<and> zombies w1 = zombies w \<and> processes (mc w1) = processes (mc w)"
    using assms(1)
  proof
    assume m: "mpc w = Fg_fork args n"
    obtain fg s where x: "executeCommand2 (0, 0) pid args n initial_process (mc w) = Some (fg, s)"
      using executeCommand2_ok [OF assms(2), of "(0, 0)" pid initial_process "mc w"] by auto
    from main_step.fg_fork [OF m f, of sys "(0, 0)" initial_process] x executeCommand2_frame [OF x] assms(3,4) show ?thesis
      by (intro exI [of _ "w\<lparr>running := insert pid (running w), mc := s, mpc := Fg_lock fg\<rparr>"])
        (simp add: steps_to_def by_main)
  next
    assume m: "mpc w = Bg_fork args n i"
    from main_step.bg_fork [OF m f, of sys "(0, 0)"] assms(3,4) show ?thesis
      by (intro exI [of _ "w\<lparr>running := insert pid (running w), mpc := Bg_store args n i (0, 0) pid\<rparr>"])
        (simp add: steps_to_def by_main)
  qed
  then obtain w1 where w1: "steps_to sys w w1" "mpc w1 \<noteq> Exited" "wpc w1 = W_lock" "lock w1 = None"
    "running w1 = insert pid (running w)" "zombies w1 = zombies w" "processes (mc w1) = processes (mc w)" by blast
  let ?w2 = "w1\<lparr>running := running w1 - {pid}, zombies := insert pid (zombies w1)\<rparr>"
  let ?w3 = "?w2\<lparr>lock := Some Waiter, wpc := W_wait\<rparr>"
  let ?w4 = "?w3\<lparr>zombies := zombies ?w3 - {pid}, wpc := W_unlock pid\<rparr>"
  let ?w5 = "?w4\<lparr>lock := None, wpc := W_find pid\<rparr>"
  have 2: "steps_to sys w1 ?w2" unfolding steps_to_def by (rule by_child, rule child_exit) (simp add: w1)
  have 3: "steps_to sys ?w2 ?w3" unfolding steps_to_def by (rule by_waiter, use w1 in simp, rule w_lock) (simp_all add: w1)
  have r: "reaped pid ?w3 (?w3\<lparr>zombies := zombies ?w3 - {pid}\<rparr>)" by (simp add: reaped_def)
  have 4: "steps_to sys ?w3 ?w4" unfolding steps_to_def
    using w_wait [of ?w3, OF _ r] w1(2) by (intro by_waiter) simp_all
  have 5: "steps_to sys ?w4 ?w5" unfolding steps_to_def
    using w_unlock [of ?w4 pid] w1(2) assms(5) by (intro by_waiter) simp_all
  have "job_complete pid (mc ?w5) = None" using assms(7) w1(7) by (simp add: job_complete_None)
  then have "wait_step ?w5 None" using w_find [of ?w5 pid] by simp
  then have "step sys ?w5 None" using w1(2) by (intro by_waiter) simp_all
  moreover have "(steps_to sys)\<^sup>*\<^sup>* w ?w5" using w1(1) 2 3 4 5 by (meson converse_rtranclp_into_rtranclp rtranclp.rtrancl_refl)
  ultimately show ?thesis by blast
qed

definition world_at :: "main_pc \<Rightarrow> cprocess list \<Rightarrow> int \<Rightarrow> world" where
  "world_at pc ps c = \<lparr>mc = \<lparr>inp = [], out = [], forks = 0, execs = [], cmds2 = [], chdirs2 = [], processes = ps, jobCounter = c\<rparr>,
     mpc = pc, wpc = W_lock, lock = None, running = {}, zombies = {}\<rparr>"

theorem quick_child_race_witness:
  "\<exists>w'. (steps_to ready)\<^sup>*\<^sup>* (world_at (Fg_fork [Arg ''whoami'', NullPtr] 2) (replicate 100 initial_process) 1) w' \<and> step ready w' None"
  by (rule quick_child_race [of _ "[Arg ''whoami'', NullPtr]" 2 0 7])
    (simp_all add: world_at_def args_ok_def freeable_def pids_def initial_process_def)

text \<open>A background command whose \<open>fork\<close> failed is never forgotten. Its place keeps the process id
  -1, no calm run removes it, and the loop at the end, which waits until all places are free, is
  never left: the program cannot be exited.\<close>

theorem failed_fork_blocks_exit:
  assumes "calm_ok w" "-1 \<in> pids (processes (mc w))" "mpc w \<noteq> Exited" "(calm_step sys)\<^sup>*\<^sup>* w w'"
  shows "mpc w' \<noteq> Exited \<and> -1 \<in> pids (processes (mc w'))"
proof -
  have "calm_ok w' \<and> -1 \<in> pids (processes (mc w')) \<and> mpc w' \<noteq> Exited"
    using assms(4,1-3) by (induction rule: rtranclp_induct) (use calm_step_ok calm_step_stuck in blast)+
  then show ?thesis by simp
qed

theorem failed_fork_blocks_exit_witness:
  "\<not> (calm_step ready)\<^sup>*\<^sup>* (world_at Exit_wait ((initial_process\<lparr>cp_pid := -1, cp_jobnum := 1\<rparr>) # replicate 99 initial_process) 2)
     (world_at Exited ((initial_process\<lparr>cp_pid := -1, cp_jobnum := 1\<rparr>) # replicate 99 initial_process) 2)"
proof -
  let ?ps = "(initial_process\<lparr>cp_pid := -1, cp_jobnum := 1\<rparr>) # replicate 99 initial_process"
  let ?w = "world_at Exit_wait ?ps 2"
  have "x = 0" if "x < 100" "cp_pid (?ps ! x) \<noteq> 0" for x using that by (cases x) (auto simp: initial_process_def)
  then have "counted ?w = {0}" by (auto simp: counted_def world_at_def)
  moreover have "{1} = {1..<2 :: int}" by auto
  ultimately have "table_ok ?w" by (simp add: table_ok_def world_at_def jobs_ok_def bij_betw_def)
  then have "calm_ok ?w" by (simp add: calm_ok_def mutex_ok_def children_ok_def waiter_ok_def children_def world_at_def)
  moreover have "-1 \<in> pids (processes (mc ?w))" "mpc ?w \<noteq> Exited" by (simp_all add: world_at_def pids_def)
  ultimately have "mpc w' \<noteq> Exited" if "(calm_step ready)\<^sup>*\<^sup>* ?w w'" for w'
    using failed_fork_blocks_exit [of ?w ready w'] that by blast
  from this [of "world_at Exited ?ps 2"] show ?thesis by (auto simp: world_at_def)
qed

end
