(* ===== verification/CarQueue.thy ===== *)
theory CarQueue
  imports Shell
begin

text \<open>
  Project3/Drivers: the constants (constants.h, constants.c) and the queues of cars of carThread.c.
  A queue is a linked list through the \<open>next\<close> fields of the cars. A car is its number; the
  pointers are \<open>queue[4]\<close>, four heads, and the map \<open>next\<close>, and NULL is \<open>None\<close>. The crawl to the end of
  a queue need not end in a heap with a cycle, hence the partial function. \<open>chain\<close> relates a head
  to the list of cars it stands for; the operations are refined to operations on such lists.
\<close>

section \<open>Constants\<close>

abbreviation NUM_CARS :: nat where "NUM_CARS \<equiv> 20"

abbreviation NO_TURN :: int where "NO_TURN \<equiv> -1"
abbreviation WLEFT :: int where "WLEFT \<equiv> 0"
abbreviation WSTRAIGHT :: int where "WSTRAIGHT \<equiv> 1"
abbreviation WRIGHT :: int where "WRIGHT \<equiv> 2"
abbreviation TLEFT :: int where "TLEFT \<equiv> 3"
abbreviation TSTRAIGHT :: int where "TSTRAIGHT \<equiv> 4"
abbreviation TRIGHT :: int where "TRIGHT \<equiv> 5"

abbreviation NW :: nat where "NW \<equiv> 0"
abbreviation NE :: nat where "NE \<equiv> 1"
abbreviation SW :: nat where "SW \<equiv> 2"
abbreviation SE :: nat where "SE \<equiv> 3"

abbreviation from_N :: nat where "from_N \<equiv> 0"
abbreviation from_S :: nat where "from_S \<equiv> 1"
abbreviation from_E :: nat where "from_E \<equiv> 2"
abbreviation from_W :: nat where "from_W \<equiv> 3"

definition convert_direction :: "nat \<Rightarrow> string" where
  "convert_direction d =
     (if d = from_N then ''North'' else if d = from_S then ''South''
      else if d = from_E then ''East'' else if d = from_W then ''West'' else ''ERROR'')"

definition convert_turn :: "int \<Rightarrow> string" where
  "convert_turn t =
     (if t = TLEFT then ''left'' else if t = TSTRAIGHT then ''straight'' else if t = TRIGHT then ''right''
      else if t = NO_TURN then ''none'' else if t = WLEFT then ''wleft'' else if t = WSTRAIGHT then ''wstright''
      else if t = WRIGHT then ''wright'' else ''ERROR'')"

section \<open>The operations on the pointers\<close>

record cars =
  heads :: "nat option list"
  next_car :: "nat \<Rightarrow> nat option"

partial_function (option) last_car :: "(nat \<Rightarrow> nat option) \<Rightarrow> nat \<Rightarrow> nat option" where
  "last_car nx cur = (case nx cur of None \<Rightarrow> Some cur | Some c \<Rightarrow> last_car nx c)"

definition enqueue :: "nat \<Rightarrow> nat \<Rightarrow> 'a cars_scheme \<Rightarrow> 'a cars_scheme option" where
  "enqueue car qid s = do {
     h \<leftarrow> arr_get (heads s) (int qid);
     case h of
       None \<Rightarrow> Some (s\<lparr>heads := (heads s)[qid := Some car]\<rparr>)
     | Some h \<Rightarrow> do {
         cur \<leftarrow> last_car (next_car s) h;
         Some (s\<lparr>next_car := (next_car s)(cur := Some car)\<rparr>) } }"

definition dequeue :: "nat \<Rightarrow> 'a cars_scheme \<Rightarrow> 'a cars_scheme option" where
  "dequeue qid s = do {
     h \<leftarrow> arr_get (heads s) (int qid);
     tmp \<leftarrow> h;
     Some (s\<lparr>heads := (heads s)[qid := next_car s tmp], next_car := (next_car s)(tmp := None)\<rparr>) }"

section \<open>Chains\<close>

fun chain :: "(nat \<Rightarrow> nat option) \<Rightarrow> nat option \<Rightarrow> nat list \<Rightarrow> bool" where
  "chain nx h [] \<longleftrightarrow> h = None"
| "chain nx h (c # cs) \<longleftrightarrow> h = Some c \<and> chain nx (nx c) cs"

text \<open>The four queues; no car is in two places, and a car that is in no queue points nowhere.\<close>

definition queues :: "'a cars_scheme \<Rightarrow> (nat \<Rightarrow> nat list) \<Rightarrow> bool" where
  "queues s qs \<longleftrightarrow> length (heads s) = 4 \<and>
     (\<forall>i<4. chain (next_car s) (heads s ! i) (qs i) \<and> distinct (qs i)) \<and>
     (\<forall>i<4. \<forall>j<4. i \<noteq> j \<longrightarrow> set (qs i) \<inter> set (qs j) = {}) \<and>
     (\<forall>c. (\<forall>i<4. c \<notin> set (qs i)) \<longrightarrow> next_car s c = None)"

lemma chain_upd: "c \<notin> set cs \<Longrightarrow> chain (nx(c := v)) h cs = chain nx h cs"
  by (induction cs arbitrary: h) auto

lemma chain_head: "chain nx h cs \<Longrightarrow> h = (case cs of [] \<Rightarrow> None | c # cs' \<Rightarrow> Some c)"
  by (cases cs) auto

lemma chain_last: "chain nx (Some h) cs \<Longrightarrow> last_car nx h = Some (last cs) \<and> nx (last cs) = None"
proof (induction cs arbitrary: h)
  case (Cons c cs)
  then have h: "h = c" "chain nx (nx c) cs" by simp_all
  show ?case
  proof (cases cs)
    case Nil
    with h show ?thesis by (simp add: last_car.simps)
  next
    case (Cons d ds)
    with h have "nx c = Some d" by simp
    with Cons.IH [of d] h Cons show ?thesis by (simp add: last_car.simps [of nx c])
  qed
qed simp

lemma chain_snoc:
  "chain nx h cs \<Longrightarrow> distinct cs \<Longrightarrow> cs \<noteq> [] \<Longrightarrow> car \<notin> set cs \<Longrightarrow> nx car = None \<Longrightarrow>
   chain (nx(last cs := Some car)) h (cs @ [car])"
proof (induction cs arbitrary: h)
  case (Cons c cs)
  show ?case
  proof (cases cs)
    case Nil
    with Cons.prems show ?thesis by auto
  next
    case (Cons d ds)
    have "chain (nx(last cs := Some car)) (nx c) (cs @ [car])" by (rule Cons.IH) (use Cons.prems Cons in auto)
    moreover have "(nx(last cs := Some car)) c = nx c" "last (c # cs) = last cs" using Cons.prems Cons by auto
    moreover have "h = Some c" using Cons.prems by simp
    ultimately show ?thesis unfolding append_Cons chain.simps by (simp only: simp_thms)
  qed
qed simp

lemma queues_head:
  assumes "queues s qs" "i < 4"
  shows "heads s ! i = (case qs i of [] \<Rightarrow> None | c # cs \<Rightarrow> Some c)" "arr_get (heads s) (int i) = Some (heads s ! i)"
proof -
  from assms have "chain (next_car s) (heads s ! i) (qs i)" by (simp add: queues_def)
  then show "heads s ! i = (case qs i of [] \<Rightarrow> None | c # cs \<Rightarrow> Some c)" by (rule chain_head)
qed (use assms in \<open>simp add: queues_def\<close>)

lemma queues_once: "queues s qs \<Longrightarrow> i < 4 \<Longrightarrow> j < 4 \<Longrightarrow> c \<in> set (qs i) \<Longrightarrow> c \<in> set (qs j) \<Longrightarrow> i = j"
  unfolding queues_def by blast

lemma queues_frame: "queues s qs \<Longrightarrow> heads t = heads s \<Longrightarrow> next_car t = next_car s \<Longrightarrow> queues t qs"
  by (simp add: queues_def)

lemma queues_change:
  assumes "queues s qs" "q < 4" "length (heads t) = 4" "chain (next_car t) (heads t ! q) cs" "distinct cs"
    and other: "\<And>i. i < 4 \<Longrightarrow> i \<noteq> q \<Longrightarrow> chain (next_car t) (heads t ! i) (qs i) \<and> set cs \<inter> set (qs i) = {}"
    and none: "\<And>c. c \<notin> set cs \<Longrightarrow> (\<And>i. i < 4 \<Longrightarrow> i \<noteq> q \<Longrightarrow> c \<notin> set (qs i)) \<Longrightarrow> next_car t c = None"
  shows "queues t (qs(q := cs))"
  unfolding queues_def
proof (intro conjI allI impI)
  fix i j :: nat assume ij: "i < 4" "j < 4" "i \<noteq> j"
  consider "i = q" | "j = q" | "i \<noteq> q" "j \<noteq> q" by blast
  then show "set ((qs(q := cs)) i) \<inter> set ((qs(q := cs)) j) = {}"
  proof cases
    case 1
    with ij other [of j] show ?thesis by auto
  next
    case 2
    with ij other [of i] show ?thesis by auto
  next
    case 3
    with ij assms(1) show ?thesis by (auto simp: queues_def)
  qed
next
  fix c assume c: "\<forall>i<4. c \<notin> set ((qs(q := cs)) i)"
  show "next_car t c = None"
  proof (rule none)
    show "c \<notin> set cs" using c assms(2) by (auto dest: spec [of _ q])
    show "c \<notin> set (qs i)" if "i < 4" "i \<noteq> q" for i using c that by (auto dest: spec [of _ i])
  qed
qed (use assms in \<open>auto simp: queues_def\<close>)

text \<open>A new car goes to the end of its queue, and nothing else changes.\<close>

lemma enqueue_queues:
  assumes "queues s qs" "q < 4" "\<forall>i<4. car \<notin> set (qs i)"
  shows "\<exists>t. enqueue car q s = Some t \<and> queues t (qs(q := qs q @ [car])) \<and> cars.more t = cars.more s"
proof -
  have c: "chain (next_car s) (heads s ! q) (qs q)" "distinct (qs q)" "length (heads s) = 4" "next_car s car = None"
    using assms by (auto simp: queues_def)
  have o: "chain (next_car s) (heads s ! i) (qs i)" if "i < 4" for i
    using that assms(1) by (auto simp: queues_def)
  have none: "next_car s x = None" if "x \<notin> set (qs q)" "\<And>i. i < 4 \<Longrightarrow> i \<noteq> q \<Longrightarrow> x \<notin> set (qs i)" for x
    using that assms(1) unfolding queues_def by metis
  have d: "set (qs q @ [car]) \<inter> set (qs i) = {}" if "i < 4" "i \<noteq> q" for i
    using that assms queues_once [OF assms(1)] by auto
  note h = queues_head [OF assms(1,2)]
  show ?thesis
  proof (cases "qs q")
    case Nil
    let ?t = "s\<lparr>heads := (heads s)[q := Some car]\<rparr>"
    from Nil h have e: "enqueue car q s = Some ?t" by (simp add: enqueue_def)
    have "queues ?t (qs(q := qs q @ [car]))"
      by (rule queues_change [OF assms(1,2)]) (use Nil c o d none assms(2) in auto)
    with e show ?thesis by simp
  next
    case (Cons a as)
    let ?l = "last (qs q)"
    let ?t = "s\<lparr>next_car := (next_car s)(?l := Some car)\<rparr>"
    have "last_car (next_car s) a = Some ?l" using chain_last [of "next_car s" a "qs q"] c(1) h Cons by simp
    with h Cons have e: "enqueue car q s = Some ?t" by (simp add: enqueue_def)
    have lq: "?l \<in> set (qs q)" using Cons by simp
    have "chain ((next_car s)(?l := Some car)) (heads s ! q) (qs q @ [car])"
      by (rule chain_snoc [OF c(1,2)]) (use Cons c(4) assms(2,3) in auto)
    then have "chain (next_car ?t) (heads ?t ! q) (qs q @ [car])" by simp
    moreover have "chain (next_car ?t) (heads ?t ! i) (qs i)" if "i < 4" "i \<noteq> q" for i
      using chain_upd [of ?l "qs i"] o [OF that(1)] queues_once [OF assms(1) that(1) assms(2), of ?l] lq that(2) by auto
    ultimately have "queues ?t (qs(q := qs q @ [car]))"
      by (intro queues_change [OF assms(1,2)]) (use c d none lq assms(2,3) in auto)
    with e show ?thesis by simp
  qed
qed

text \<open>The car at the front goes, and points nowhere.\<close>

lemma dequeue_queues:
  assumes "queues s qs" "q < 4" "qs q = car # cs"
  shows "\<exists>t. dequeue q s = Some t \<and> queues t (qs(q := cs)) \<and> cars.more t = cars.more s"
proof -
  let ?t = "s\<lparr>heads := (heads s)[q := next_car s car], next_car := (next_car s)(car := None)\<rparr>"
  have c: "heads s ! q = Some car" "chain (next_car s) (next_car s car) cs" "distinct (car # cs)" "length (heads s) = 4"
    using assms by (auto simp: queues_def)
  have o: "chain (next_car s) (heads s ! i) (qs i)" if "i < 4" for i
    using that assms(1) by (auto simp: queues_def)
  have e: "dequeue q s = Some ?t" using queues_head(2) [OF assms(1,2)] c(1) by (simp add: dequeue_def)
  have d: "set (qs q) \<inter> set (qs i) = {}" if "i < 4" "i \<noteq> q" for i
    using that assms(2) queues_once [OF assms(1)] by auto
  have "chain (next_car ?t) (heads ?t ! i) (qs i)" if "i < 4" "i \<noteq> q" for i
    using chain_upd [of car "qs i"] o [OF that(1)] d [OF that] assms(3) that(2) by auto
  moreover have "chain (next_car ?t) (heads ?t ! q) cs" using chain_upd [of car cs] c assms(2) by simp
  moreover have "next_car ?t x = None" if "x \<notin> set cs" "\<And>i. i < 4 \<Longrightarrow> i \<noteq> q \<Longrightarrow> x \<notin> set (qs i)" for x
  proof (cases "x = car")
    case False
    then have "x \<notin> set (qs i)" if "i < 4" for i
      using that \<open>x \<notin> set cs\<close> \<open>\<And>i. i < 4 \<Longrightarrow> i \<noteq> q \<Longrightarrow> x \<notin> set (qs i)\<close> assms(3) by (cases "i = q") auto
    then show ?thesis using assms(1) False by (simp add: queues_def)
  qed simp
  ultimately have "queues ?t (qs(q := cs))"
    by (intro queues_change [OF assms(1,2)]) (use c d assms(3) in auto)
  with e show ?thesis by simp
qed

section \<open>Properties\<close>

text \<open>C28: the linked lists are queues. On well-formed pointers, adding a car that is in no queue appends
  it to the list of cars of its queue, and removing the front of a queue that is not empty removes
  the head of that list; both end, keep the pointers well-formed and change no other queue.\<close>

theorem car_queues_refine:
  assumes "queues s qs" "q < 4"
  shows "((\<forall>i<4. car \<notin> set (qs i)) \<longrightarrow>
      (\<exists>t. enqueue car q s = Some t \<and> queues t (qs(q := qs q @ [car])) \<and> cars.more t = cars.more s)) \<and>
    (qs q \<noteq> [] \<longrightarrow> (\<exists>t. dequeue q s = Some t \<and> queues t (qs(q := tl (qs q))) \<and> cars.more t = cars.more s))"
  using enqueue_queues [OF assms] dequeue_queues [OF assms] by (cases "qs q") auto

theorem car_queues_refine_witness:
  "\<exists>t. dequeue 0 \<lparr>heads = [Some 5, None, None, None], next_car = [5 \<mapsto> 7]\<rparr> = Some t \<and> queues t ((\<lambda>i. [])(0 := [7]))"
proof -
  have "queues \<lparr>heads = [Some 5, None, None, None], next_car = [5 \<mapsto> 7]\<rparr> ((\<lambda>i. [])(0 := [5, 7]))"
    by (auto simp: queues_def nth_Cons split: nat.splits)
  from car_queues_refine [OF this, of 0] show ?thesis by auto
qed

end
