(* ===== verification/Intersection.thy ===== *)
theory Intersection
  imports CarQueue
begin

text \<open>
  Project3/Drivers/carThread.c and intersection.c: cars that cross an intersection of four quadrants.
  The sequential part, what a car does while it holds the intersection lock. Quadrants and queues
  are numbered as in constants.h. \<open>enter_intersection\<close> signals the condition variable of the car
  exactly if it returns 1.
\<close>

section \<open>The state\<close>

record xing = cars +
  quadrant :: "int list"
  turn :: "nat \<Rightarrow> int"
  said :: "string list"

definition say :: "string \<Rightarrow> 'a xing_scheme \<Rightarrow> 'a xing_scheme" where
  "say str s = s\<lparr>said := said s @ [line str]\<rparr>"

definition wants_turn :: "int \<Rightarrow> bool" where
  "wants_turn t \<longleftrightarrow> t = WLEFT \<or> t = WSTRAIGHT \<or> t = WRIGHT"

section \<open>Entering\<close>

definition attempt_quadrant :: "nat \<Rightarrow> nat \<Rightarrow> int list \<Rightarrow> bool \<times> int list" where
  "attempt_quadrant cid quad qd = (if qd ! quad = -1 then (True, qd[quad := int cid]) else (False, qd))"

text \<open>The quadrants of a turn are attempted from left to right until one is occupied.\<close>

fun attempt_all :: "nat \<Rightarrow> nat list \<Rightarrow> int list \<Rightarrow> bool \<times> int list" where
  "attempt_all cid [] qd = (True, qd)"
| "attempt_all cid (k # ks) qd =
     (case attempt_quadrant cid k qd of (True, qd) \<Rightarrow> attempt_all cid ks qd | (False, qd) \<Rightarrow> (False, qd))"

text \<open>The two nested switches: the quadrants attempted for a turn from a queue, and the turn that is
  taken if all of them are free. A queue that does not exist attempts nothing.\<close>

definition route :: "int \<Rightarrow> nat \<Rightarrow> nat list" where
  "route t qid =
     (if t = WLEFT then
        (if qid = from_N then [NW, SW, SE] else if qid = from_S then [SE, NE, NW]
         else if qid = from_E then [NE, NW, SW] else if qid = from_W then [SW, SE, NE] else [])
      else if t = WSTRAIGHT then
        (if qid = from_N then [NW, SW] else if qid = from_S then [SE, NE]
         else if qid = from_E then [NE, NW] else if qid = from_W then [SW, SE] else [])
      else if t = WRIGHT then
        (if qid = from_N then [NW] else if qid = from_S then [SE]
         else if qid = from_E then [NE] else if qid = from_W then [SW] else [])
      else [])"

definition turning :: "int \<Rightarrow> int" where
  "turning t = (if t = WLEFT then TLEFT else if t = WSTRAIGHT then TSTRAIGHT else if t = WRIGHT then TRIGHT else t)"

definition release :: "nat \<Rightarrow> int list \<Rightarrow> int list" where
  "release cid qd = map (\<lambda>v. if v = int cid then -1 else v) qd"

definition enter_intersection :: "nat \<Rightarrow> nat \<Rightarrow> 'a xing_scheme \<Rightarrow> int \<times> 'a xing_scheme" where
  "enter_intersection car qid s =
     (if turn s car = NO_TURN then (0, s)
      else
        let s = (if route (turn s car) qid \<noteq> [] then
                   let (ok, qd) = attempt_all car (route (turn s car) qid) (quadrant s);
                       s = s\<lparr>quadrant := qd\<rparr>
                   in if ok then s\<lparr>turn := (turn s)(car := turning (turn s car))\<rparr> else s
                 else s)
        in if wants_turn (turn s car) then (0, s\<lparr>quadrant := release car (quadrant s)\<rparr>)
           else (1, say (''Car '' @ dec (int car) @ '' has entered the intersection from the '' @ convert_direction qid @
                     '' going '' @ convert_turn (turn s car) @ ''.'') s))"

text \<open>\<open>leave_intersection\<close> up to its loop over the queues.\<close>

definition free_quadrants :: "nat \<Rightarrow> 'a xing_scheme \<Rightarrow> 'a xing_scheme" where
  "free_quadrants car s = (let s = say (''Car '' @ dec (int car) @ '' has left the intersection.'') s
     in s\<lparr>quadrant := release car (quadrant s), turn := (turn s)(car := NO_TURN)\<rparr>)"

definition num_quadrants :: "int \<Rightarrow> int" where
  "num_quadrants t =
     (if t = TLEFT \<or> t = WLEFT then 3 else if t = TSTRAIGHT \<or> t = WSTRAIGHT then 2
      else if t = TRIGHT \<or> t = WRIGHT then 1 else -1)"

text \<open>\<open>queue_car\<close> and \<open>dequeue_car\<close>; the latter also gives the car to signal.\<close>

definition queue_car :: "nat \<Rightarrow> nat \<Rightarrow> 'a xing_scheme \<Rightarrow> 'a xing_scheme option" where
  "queue_car car qid s = do {
     s \<leftarrow> enqueue car qid s;
     Some (say (''Car '' @ dec (int car) @ '' is approaching from the '' @ convert_direction qid @ ''.'') s) }"

definition dequeue_car :: "nat \<Rightarrow> 'a xing_scheme \<Rightarrow> (nat option \<times> 'a xing_scheme) option" where
  "dequeue_car qid s = do {
     s \<leftarrow> dequeue qid s;
     Some (heads s ! qid, s) }"

definition qstate :: "'a xing_scheme \<Rightarrow> string" where
  "qstate s = dec (quadrant s ! 0) @ '','' @ dec (quadrant s ! 1) @ '','' @ dec (quadrant s ! 2) @ '','' @ dec (quadrant s ! 3)"

text \<open>\<open>queuestate\<close> of intersection.c, a function for debugging: \<open>True\<close> is a queue lock that is held.
  \<open>pthread_mutex_trylock\<close> returns 0 if it takes the lock; a lock that is free is therefore reported
  as 1 and stays taken, and a lock another thread holds would be unlocked here, which is undefined.\<close>

fun queuestate :: "bool list \<Rightarrow> (int list \<times> bool list) option" where
  "queuestate [] = Some ([], [])"
| "queuestate (True # locks) = None"
| "queuestate (False # locks) = do { (states, locks) \<leftarrow> queuestate locks; Some (1 # states, True # locks) }"

section \<open>Lemmas\<close>

lemma route_ok: "wants_turn t \<Longrightarrow> q < 4 \<Longrightarrow> route t q \<noteq> [] \<and> distinct (route t q) \<and> set (route t q) \<subseteq> {..<4}"
  by (auto simp: wants_turn_def route_def)

lemma turning_simps: "wants_turn t \<Longrightarrow> turning t \<in> {TLEFT, TSTRAIGHT, TRIGHT} \<and> \<not> wants_turn (turning t) \<and> turning t - 3 = t"
  by (auto simp: wants_turn_def turning_def)

lemma not_wants_route: "\<not> wants_turn t \<Longrightarrow> route t q = []"
  by (auto simp: wants_turn_def route_def)

lemma say_simps [simp]:
  "quadrant (say str s) = quadrant s" "turn (say str s) = turn s" "heads (say str s) = heads s"
  "next_car (say str s) = next_car s" "said (say str s) = said s @ [line str]"
  by (simp_all add: say_def)

text \<open>An attempt on quadrants none of which is the car's: it takes all of them, or a release
  afterwards restores what was there.\<close>

lemma attempt_all_free:
  assumes "\<forall>k\<in>set ks. k < length qd \<and> qd ! k = -1" "distinct ks"
  shows "\<exists>qd'. attempt_all c ks qd = (True, qd') \<and> length qd' = length qd \<and>
    (\<forall>k<length qd. qd' ! k = (if k \<in> set ks then int c else qd ! k))"
  using assms
proof (induction ks arbitrary: qd)
  case (Cons k ks)
  from Cons.prems have k: "attempt_quadrant c k qd = (True, qd[k := int c])" by (simp add: attempt_quadrant_def)
  have "qd[k := int c] ! i = qd ! i" if "i \<in> set ks" for i using that Cons.prems(2) by (cases "i = k") auto
  then obtain qd' where q: "attempt_all c ks (qd[k := int c]) = (True, qd')" "length qd' = length qd"
    "\<forall>i<length qd. qd' ! i = (if i \<in> set ks then int c else qd[k := int c] ! i)"
    using Cons.IH [of "qd[k := int c]"] Cons.prems by auto
  then show ?case using k by (auto simp: nth_list_update)
qed simp

lemma attempt_all_fails:
  assumes "k \<in> set ks" "qd ! k \<noteq> -1" "\<forall>k\<in>set ks. k < length qd"
  shows "\<exists>qd'. attempt_all c ks qd = (False, qd') \<and> release c qd' = release c qd"
  using assms
proof (induction ks arbitrary: qd)
  case (Cons j ks)
  show ?case
  proof (cases "qd ! j = -1")
    case False
    then show ?thesis by (simp add: attempt_quadrant_def)
  next
    case True
    have r: "release c (qd[j := int c]) = release c qd"
      using True Cons.prems(3) by (auto simp: release_def list_eq_iff_nth_eq nth_list_update)
    have "k \<noteq> j" using True Cons.prems(2) by auto
    then have "k \<in> set ks" "qd[j := int c] ! k \<noteq> -1" using Cons.prems by auto
    with Cons.IH [of "qd[j := int c]"] Cons.prems(3) True r show ?thesis by (simp add: attempt_quadrant_def)
  qed
qed simp

lemma release_id: "int c \<notin> set qd \<Longrightarrow> release c qd = qd"
  by (auto simp: release_def intro: map_idI)

lemma release_simps [simp]:
  "length (release c qd) = length qd"
  "k < length qd \<Longrightarrow> release c qd ! k = (if qd ! k = int c then -1 else qd ! k)"
  by (simp_all add: release_def)

text \<open>The three cases of \<open>enter_intersection\<close>.\<close>

lemma enter_free:
  assumes "wants_turn (turn s car)" "q < 4" "length (quadrant s) = 4"
    and "\<forall>k\<in>set (route (turn s car) q). quadrant s ! k = -1"
  shows "\<exists>t. enter_intersection car q s = (1, t) \<and> turn t = (turn s)(car := turning (turn s car)) \<and>
    length (quadrant t) = 4 \<and>
    (\<forall>k<4. quadrant t ! k = (if k \<in> set (route (turn s car) q) then int car else quadrant s ! k)) \<and>
    heads t = heads s \<and> next_car t = next_car s"
proof -
  note r = route_ok [OF assms(1,2)]
  from r assms(3,4) have "\<forall>k\<in>set (route (turn s car) q). k < length (quadrant s) \<and> quadrant s ! k = -1" by auto
  from attempt_all_free [OF this, of car] r assms(3) obtain qd where
    "attempt_all car (route (turn s car) q) (quadrant s) = (True, qd)" "length qd = 4"
    "\<forall>k<4. qd ! k = (if k \<in> set (route (turn s car) q) then int car else quadrant s ! k)" by auto
  moreover have "turn s car \<noteq> NO_TURN" using assms(1) by (auto simp: wants_turn_def)
  ultimately show ?thesis using r turning_simps [OF assms(1)]
    by (simp add: enter_intersection_def Let_def)
qed

lemma enter_blocked:
  assumes "wants_turn (turn s car)" "q < 4" "length (quadrant s) = 4" "int car \<notin> set (quadrant s)"
    and "k \<in> set (route (turn s car) q)" "quadrant s ! k \<noteq> -1"
  shows "enter_intersection car q s = (0, s)"
proof -
  note r = route_ok [OF assms(1,2)]
  from r assms(3) have "\<forall>k\<in>set (route (turn s car) q). k < length (quadrant s)" by auto
  from attempt_all_fails [OF assms(5,6) this, of car] obtain qd where
    "attempt_all car (route (turn s car) q) (quadrant s) = (False, qd)" "release car qd = quadrant s"
    using release_id [OF assms(4)] by auto
  moreover have "turn s car \<noteq> NO_TURN" using assms(1) by (auto simp: wants_turn_def)
  ultimately show ?thesis using r assms(1) by (simp add: enter_intersection_def Let_def)
qed

lemma enter_other:
  assumes "\<not> wants_turn (turn s car)"
  shows "enter_intersection car q s = (if turn s car = NO_TURN then (0, s)
    else (1, say (''Car '' @ dec (int car) @ '' has entered the intersection from the '' @ convert_direction q @
                     '' going '' @ convert_turn (turn s car) @ ''.'') s))"
  using assms not_wants_route [OF assms] by (simp add: enter_intersection_def)

section \<open>Properties\<close>

text \<open>C27: \<open>enter_intersection\<close> is all or nothing. A car that wants to turn and has no quadrant gets
  every quadrant of its turn if they are all free, and then it is turning; if one of them is
  occupied, by whatever car, nothing has changed when the function returns, although it takes
  quadrants one after the other.\<close>

theorem enter_intersection_correct:
  assumes "wants_turn (turn s car)" "q < 4" "length (quadrant s) = 4" "int car \<notin> set (quadrant s)"
  shows "if \<forall>k\<in>set (route (turn s car) q). quadrant s ! k = -1
    then \<exists>t. enter_intersection car q s = (1, t) \<and> turn t = (turn s)(car := turning (turn s car)) \<and>
      (\<forall>k<4. quadrant t ! k = (if k \<in> set (route (turn s car) q) then int car else quadrant s ! k)) \<and>
      heads t = heads s \<and> next_car t = next_car s
    else enter_intersection car q s = (0, s)"
  using enter_free [OF assms(1-3)] enter_blocked [OF assms] by auto

definition xing_demo :: "int list \<Rightarrow> xing" where
  "xing_demo qd = \<lparr>heads = [Some 3, None, None, None], next_car = Map.empty, quadrant = qd, turn = (\<lambda>c. WLEFT), said = []\<rparr>"

theorem enter_intersection_correct_witness:
  "enter_intersection 3 from_N (xing_demo [-1, -1, -1, 5]) = (0, xing_demo [-1, -1, -1, 5]) \<and>
   (\<exists>t. enter_intersection 3 from_N (xing_demo [-1, 5, -1, -1]) = (1, t) \<and> (\<forall>k<4. quadrant t ! k = [3, 5, 3, 3] ! k))"
proof
  show "enter_intersection 3 from_N (xing_demo [-1, -1, -1, 5]) = (0, xing_demo [-1, -1, -1, 5])"
    using enter_intersection_correct [of "xing_demo [-1, -1, -1, 5]" 3 from_N] by (simp add: xing_demo_def wants_turn_def route_def)
  have "\<exists>t. enter_intersection 3 from_N (xing_demo [-1, 5, -1, -1]) = (1, t) \<and>
      (\<forall>k<4. quadrant t ! k = (if k \<in> {0, 2, 3} then 3 else [-1, 5, -1, -1] ! k))"
    using enter_intersection_correct [of "xing_demo [-1, 5, -1, -1]" 3 from_N] by (auto simp: xing_demo_def wants_turn_def route_def)
  moreover have "(if k \<in> {0, 2, 3} then 3 else [-1, 5, -1, -1 :: int] ! k) = [3, 5, 3, 3] ! k" if "k < 4" for k :: nat
  proof -
    from that have "k = 0 \<or> k = 1 \<or> k = 2 \<or> k = 3" by auto
    then show ?thesis by auto
  qed
  ultimately show "\<exists>t. enter_intersection 3 from_N (xing_demo [-1, 5, -1, -1]) = (1, t) \<and> (\<forall>k<4. quadrant t ! k = [3, 5, 3, 3] ! k)"
    by auto
qed

text \<open>A car enters more than once. A car stays at the head of its queue until it has left the
  intersection; if another car leaves in the meantime and tries the heads of all queues, the car that
  is already crossing is reported as entering the intersection again, and the call counts as a
  success.\<close>

theorem crossing_car_enters_again:
  assumes "turn s car \<in> {TLEFT, TSTRAIGHT, TRIGHT}"
  shows "enter_intersection car q s = (1, say (''Car '' @ dec (int car) @ '' has entered the intersection from the '' @
    convert_direction q @ '' going '' @ convert_turn (turn s car) @ ''.'') s)"
  using enter_other [of s car q] assms by (auto simp: wants_turn_def)

theorem crossing_car_enters_again_witness:
  "fst (enter_intersection 3 from_N ((xing_demo [3, -1, -1, -1])\<lparr>turn := (\<lambda>c. TRIGHT)\<rparr>)) = 1"
  using crossing_car_enters_again [of "(xing_demo [3, -1, -1, -1])\<lparr>turn := (\<lambda>c. TRIGHT)\<rparr>" 3 from_N] by simp

end
