(* ===== verification/CarThreads.thy ===== *)
theory CarThreads
  imports Intersection
begin

text \<open>
  Project3/Drivers/carThread.c, the threads: every car runs \<open>car_main\<close>. A step of a car goes from one
  blocking call to the next. The critical sections of a queue lock contain no blocking call and are
  one step each; the intersection lock is held over several steps and is part of the state, as are
  the four quadrant locks. A car that waits on its condition variable goes on when it is signalled;
  a wake-up without a signal, which POSIX allows, is a separate step. The random choices of
  \<open>car_main\<close> are free. The invariant says which cars are in which queue, which own which quadrants and
  which can be asleep; it gives the safety of the crossing and that the cars never all block.
\<close>

section \<open>Steps\<close>

datatype car_pc = Drive | To_queue nat | Check_queue nat | Wait_queue nat | At_front nat | Try nat | Sleep nat
  | Crossing nat | Leaving nat nat | Dequeue nat

record road =
  xs :: xing
  pc :: "nat \<Rightarrow> car_pc"
  ilock :: "nat option"
  qlock :: "nat option list"
  signalled :: "nat set"

text \<open>\<open>pthread_cond_signal\<close> has an effect only on a car that waits.\<close>

definition signal :: "nat \<Rightarrow> road \<Rightarrow> road" where
  "signal c w = (case pc w c of
      Wait_queue q \<Rightarrow> w\<lparr>signalled := insert c (signalled w)\<rparr>
    | Sleep q \<Rightarrow> w\<lparr>signalled := insert c (signalled w)\<rparr>
    | _ \<Rightarrow> w)"

definition goto :: "nat \<Rightarrow> car_pc \<Rightarrow> road \<Rightarrow> road" where
  "goto c p w = w\<lparr>pc := (pc w)(c := p)\<rparr>"

text \<open>\<open>enter_intersection\<close> with its signal.\<close>

definition enter :: "nat \<Rightarrow> nat \<Rightarrow> road \<Rightarrow> int \<times> road" where
  "enter h q w = (let (r, s) = enter_intersection h q (xs w); w = w\<lparr>xs := s\<rparr>
     in (r, if r \<noteq> 0 then signal h w else w))"

text \<open>\<open>aquire_locks\<close> can go on if the locks of all quadrants of the car are free.\<close>

definition locks_free :: "nat \<Rightarrow> road \<Rightarrow> bool" where
  "locks_free c w \<longleftrightarrow> (\<forall>k<4. quadrant (xs w) ! k = int c \<longrightarrow> qlock w ! k = None)"

definition aquire_locks :: "nat \<Rightarrow> road \<Rightarrow> road" where
  "aquire_locks c w = w\<lparr>qlock := map (\<lambda>k. if quadrant (xs w) ! k = int c then Some c else qlock w ! k) [0..<4]\<rparr>"

definition unlock_quadrants :: "nat \<Rightarrow> road \<Rightarrow> road" where
  "unlock_quadrants c w = w\<lparr>qlock := map (\<lambda>k. if quadrant (xs w) ! k = int c then None else qlock w ! k) [0..<4]\<rparr>"

inductive car_step :: "nat \<Rightarrow> road \<Rightarrow> road \<Rightarrow> bool" for c where
  choose: "pc w c = Drive \<Longrightarrow> q < 4 \<Longrightarrow> wants_turn t \<Longrightarrow>
    car_step c w (goto c (To_queue q) (w\<lparr>xs := (xs w)\<lparr>turn := (turn (xs w))(c := t)\<rparr>\<rparr>))"
| queue: "pc w c = To_queue q \<Longrightarrow> queue_car c q (xs w) = Some s \<Longrightarrow>
    car_step c w (goto c (Check_queue q) (w\<lparr>xs := s\<rparr>))"
| front: "pc w c = Check_queue q \<Longrightarrow> heads (xs w) ! q = Some c \<Longrightarrow>
    car_step c w (goto c (At_front q) (w\<lparr>xs := say (''Car '' @ dec (int c) @ '' arrived at the '' @
      convert_direction q @ '' side of the intersection.'') (xs w)\<rparr>))"
| not_front: "pc w c = Check_queue q \<Longrightarrow> heads (xs w) ! q \<noteq> Some c \<Longrightarrow> car_step c w (goto c (Wait_queue q) w)"
| woken: "pc w c = Wait_queue q \<Longrightarrow> c \<in> signalled w \<Longrightarrow>
    car_step c w (goto c (Check_queue q) (w\<lparr>signalled := signalled w - {c}\<rparr>))"
| lock: "pc w c = At_front q \<Longrightarrow> ilock w = None \<Longrightarrow> car_step c w (goto c (Try q) (w\<lparr>ilock := Some c\<rparr>))"
| entered: "pc w c = Try q \<Longrightarrow> wants_turn (turn (xs w) c) \<Longrightarrow> enter c q w = (r, w') \<Longrightarrow> r \<noteq> 0 \<Longrightarrow> car_step c w w'"
| blocked: "pc w c = Try q \<Longrightarrow> wants_turn (turn (xs w) c) \<Longrightarrow> enter c q w = (0, w') \<Longrightarrow>
    car_step c w (goto c (Sleep q) (w'\<lparr>ilock := None\<rparr>))"
| relock: "pc w c = Sleep q \<Longrightarrow> c \<in> signalled w \<Longrightarrow> ilock w = None \<Longrightarrow>
    car_step c w (goto c (Try q) (w\<lparr>signalled := signalled w - {c}, ilock := Some c\<rparr>))"
| cross: "pc w c = Try q \<Longrightarrow> \<not> wants_turn (turn (xs w) c) \<Longrightarrow> locks_free c w \<Longrightarrow>
    car_step c w (goto c (Crossing q) ((aquire_locks c w)\<lparr>ilock := None\<rparr>))"
| leave: "pc w c = Crossing q \<Longrightarrow> ilock w = None \<Longrightarrow>
    car_step c w (goto c (Leaving q 0) ((unlock_quadrants c w)\<lparr>ilock := Some c, xs := free_quadrants c (xs w)\<rparr>))"
| push: "pc w c = Leaving q i \<Longrightarrow> i < 4 \<Longrightarrow> heads (xs w) ! i = Some h \<Longrightarrow> enter h i w = (r, w') \<Longrightarrow>
    car_step c w (goto c (Leaving q (Suc i)) w')"
| no_push: "pc w c = Leaving q i \<Longrightarrow> i < 4 \<Longrightarrow> heads (xs w) ! i = None \<Longrightarrow> car_step c w (goto c (Leaving q (Suc i)) w)"
| unlock: "pc w c = Leaving q 4 \<Longrightarrow> car_step c w (goto c (Dequeue q) (w\<lparr>ilock := None\<rparr>))"
| dequeue: "pc w c = Dequeue q \<Longrightarrow> dequeue_car q (xs w) = Some (h, s) \<Longrightarrow>
    car_step c w (goto c Drive (case h of None \<Rightarrow> w\<lparr>xs := s\<rparr> | Some h \<Rightarrow> signal h (w\<lparr>xs := s\<rparr>)))"

text \<open>A wake-up without a signal.\<close>

inductive spurious :: "nat \<Rightarrow> road \<Rightarrow> road \<Rightarrow> bool" for c where
  "pc w c = Wait_queue q \<or> pc w c = Sleep q \<Longrightarrow> spurious c w (w\<lparr>signalled := insert c (signalled w)\<rparr>)"

text \<open>The start of intersection.c: empty queues and quadrants, all cars about to begin.\<close>

definition create_cars :: road where
  "create_cars = \<lparr>xs = \<lparr>heads = replicate 4 None, next_car = Map.empty, quadrant = replicate 4 (-1),
       turn = (\<lambda>c. NO_TURN), said = []\<rparr>,
     pc = (\<lambda>c. Drive), ilock = None, qlock = replicate 4 None, signalled = {}\<rparr>"

definition road_start :: "road \<Rightarrow> bool" where
  "road_start w \<longleftrightarrow> w = create_cars"

definition road_step :: "road \<Rightarrow> road \<Rightarrow> bool" where
  "road_step w w' \<longleftrightarrow> (\<exists>c<NUM_CARS. car_step c w w' \<or> spurious c w w')"

section \<open>The invariant\<close>

definition is_turning :: "int \<Rightarrow> bool" where
  "is_turning t \<longleftrightarrow> t = TLEFT \<or> t = TSTRAIGHT \<or> t = TRIGHT"

text \<open>The queue a car is in.\<close>

fun place :: "car_pc \<Rightarrow> nat option" where
  "place Drive = None"
| "place (To_queue q) = None"
| "place (Check_queue q) = Some q"
| "place (Wait_queue q) = Some q"
| "place (At_front q) = Some q"
| "place (Try q) = Some q"
| "place (Sleep q) = Some q"
| "place (Crossing q) = Some q"
| "place (Leaving q i) = Some q"
| "place (Dequeue q) = Some q"

fun is_front :: "car_pc \<Rightarrow> bool" where
  "is_front (At_front q) = True"
| "is_front (Try q) = True"
| "is_front (Sleep q) = True"
| "is_front (Crossing q) = True"
| "is_front (Leaving q i) = True"
| "is_front (Dequeue q) = True"
| "is_front p = False"

fun holds_lock :: "car_pc \<Rightarrow> bool" where
  "holds_lock (Try q) = True"
| "holds_lock (Leaving q i) = True"
| "holds_lock p = False"

fun is_crossing :: "car_pc \<Rightarrow> bool" where
  "is_crossing (Crossing q) = True"
| "is_crossing p = False"

fun pc_ok :: "car_pc \<Rightarrow> bool" where
  "pc_ok (To_queue q) = (q < 4)"
| "pc_ok (Leaving q i) = (q < 4 \<and> i \<le> 4)"
| "pc_ok p = (case place p of None \<Rightarrow> True | Some q \<Rightarrow> q < 4)"

text \<open>What the turn of a car can be.\<close>

fun turn_ok :: "car_pc \<Rightarrow> int \<Rightarrow> bool" where
  "turn_ok Drive t = (t = NO_TURN)"
| "turn_ok (To_queue q) t = wants_turn t"
| "turn_ok (Crossing q) t = is_turning t"
| "turn_ok (Leaving q i) t = (t = NO_TURN)"
| "turn_ok (Dequeue q) t = (t = NO_TURN)"
| "turn_ok p t = (wants_turn t \<or> is_turning t)"

definition at_head :: "(nat \<Rightarrow> nat list) \<Rightarrow> nat \<Rightarrow> nat \<Rightarrow> bool" where
  "at_head qs q c \<longleftrightarrow> qs q \<noteq> [] \<and> hd (qs q) = c"

definition queue_inv :: "(nat \<Rightarrow> nat list) \<Rightarrow> road \<Rightarrow> bool" where
  "queue_inv qs w \<longleftrightarrow> queues (xs w) qs \<and> (\<forall>c<NUM_CARS. pc_ok (pc w c)) \<and>
     (\<forall>q<4. \<forall>c. c \<in> set (qs q) \<longleftrightarrow> c < NUM_CARS \<and> place (pc w c) = Some q)"

definition front_inv :: "(nat \<Rightarrow> nat list) \<Rightarrow> road \<Rightarrow> bool" where
  "front_inv qs w \<longleftrightarrow> (\<forall>c<NUM_CARS. turn_ok (pc w c) (turn (xs w) c) \<and>
     (\<forall>q. place (pc w c) = Some q \<and> (is_front (pc w c) \<or> is_turning (turn (xs w) c)) \<longrightarrow> at_head qs q c))"

text \<open>A car that is turning owns the quadrants of its turn, and no other car owns any.\<close>

definition owns :: "road \<Rightarrow> nat \<Rightarrow> nat \<Rightarrow> bool" where
  "owns w c k \<longleftrightarrow> is_turning (turn (xs w) c) \<and>
     (\<exists>q. place (pc w c) = Some q \<and> k \<in> set (route (turn (xs w) c - 3) q))"

definition own_inv :: "road \<Rightarrow> bool" where
  "own_inv w \<longleftrightarrow> length (quadrant (xs w)) = 4 \<and>
     (\<forall>k<4. quadrant (xs w) ! k = -1 \<or> (\<exists>c<NUM_CARS. quadrant (xs w) ! k = int c)) \<and>
     (\<forall>c<NUM_CARS. \<forall>k<4. quadrant (xs w) ! k = int c \<longleftrightarrow> owns w c k)"

definition lock_inv :: "road \<Rightarrow> bool" where
  "lock_inv w \<longleftrightarrow> (\<forall>c. ilock w = Some c \<longleftrightarrow> c < NUM_CARS \<and> holds_lock (pc w c)) \<and> length (qlock w) = 4 \<and>
     (\<forall>k<4. \<forall>c. qlock w ! k = Some c \<longleftrightarrow> c < NUM_CARS \<and> is_crossing (pc w c) \<and> quadrant (xs w) ! k = int c)"

definition occupied :: "road \<Rightarrow> bool" where
  "occupied w \<longleftrightarrow> (\<exists>k<4. quadrant (xs w) ! k \<noteq> -1)"

definition sleep_inv :: "(nat \<Rightarrow> nat list) \<Rightarrow> road \<Rightarrow> bool" where
  "sleep_inv qs w \<longleftrightarrow> (\<forall>c<NUM_CARS. c \<notin> signalled w \<longrightarrow>
     (\<forall>q. pc w c = Wait_queue q \<longrightarrow> \<not> at_head qs q c) \<and>
     (\<forall>q. pc w c = Sleep q \<longrightarrow> wants_turn (turn (xs w) c) \<and>
        (occupied w \<or> (\<exists>d<NUM_CARS. \<exists>q' i. pc w d = Leaving q' i \<and> i \<le> q))))"

definition road_inv :: "(nat \<Rightarrow> nat list) \<Rightarrow> road \<Rightarrow> bool" where
  "road_inv qs w \<longleftrightarrow> queue_inv qs w \<and> front_inv qs w \<and> own_inv w \<and> lock_inv w \<and> sleep_inv qs w"

definition road_ok :: "road \<Rightarrow> bool" where
  "road_ok w \<longleftrightarrow> (\<exists>qs. road_inv qs w)"

lemma goto_simps [simp]:
  "xs (goto c p w) = xs w" "pc (goto c p w) = (pc w)(c := p)" "ilock (goto c p w) = ilock w"
  "qlock (goto c p w) = qlock w" "signalled (goto c p w) = signalled w"
  by (simp_all add: goto_def)

lemma signal_simps [simp]:
  "xs (signal c w) = xs w" "pc (signal c w) = pc w" "ilock (signal c w) = ilock w" "qlock (signal c w) = qlock w"
  by (simp_all add: signal_def split: car_pc.splits)

lemma signal_signalled:
  "signalled w \<subseteq> signalled (signal c w)" "signalled (signal c w) \<subseteq> insert c (signalled w)"
  "pc w c = Wait_queue q \<or> pc w c = Sleep q \<Longrightarrow> c \<in> signalled (signal c w)"
  by (auto simp: signal_def split: car_pc.splits)

lemma turning_wants: "is_turning t \<Longrightarrow> \<not> wants_turn t \<and> t \<noteq> NO_TURN \<and> wants_turn (t - 3)"
  by (auto simp: is_turning_def wants_turn_def)

lemma owns_one: "own_inv w \<Longrightarrow> c < NUM_CARS \<Longrightarrow> d < NUM_CARS \<Longrightarrow> k < 4 \<Longrightarrow> owns w c k \<Longrightarrow> owns w d k \<Longrightarrow> c = d"
  unfolding own_inv_def by (metis of_nat_eq_iff)

lemma own_inv_not_in:
  assumes "own_inv w" "c < NUM_CARS" "\<not> is_turning (turn (xs w) c)"
  shows "int c \<notin> set (quadrant (xs w))"
proof
  assume "int c \<in> set (quadrant (xs w))"
  then obtain k where "k < 4" "quadrant (xs w) ! k = int c" using assms(1) by (auto simp: own_inv_def in_set_conv_nth)
  with assms show False by (auto simp: own_inv_def owns_def)
qed

section \<open>Steps that move one car\<close>

lemma road_move:
  assumes "road_inv qs w" "c < NUM_CARS" "pc w' = (pc w)(c := p)" "place p = place (pc w c)" "pc_ok p"
    "turn_ok p (turn (xs w) c)" "is_front p \<Longrightarrow> is_front (pc w c) \<or> (\<exists>q. place p = Some q \<and> at_head qs q c)"
    "is_crossing p = is_crossing (pc w c)" "heads (xs w') = heads (xs w)" "next_car (xs w') = next_car (xs w)"
    "quadrant (xs w') = quadrant (xs w)" "turn (xs w') = turn (xs w)"
    "qlock w' = qlock w" "\<And>d. ilock w' = Some d \<longleftrightarrow> d < NUM_CARS \<and> holds_lock (pc w' d)" "sleep_inv qs w'"
  shows "road_inv qs w'"
proof -
  have "queues (xs w') qs" using assms(1,9,10) by (auto simp: road_inv_def queue_inv_def intro: queues_frame)
  moreover have "place (pc w' d) = place (pc w d)" for d using assms(3,4) by simp
  ultimately have "queue_inv qs w'" using assms(1,3,5) by (auto simp: road_inv_def queue_inv_def)
  moreover have "owns w' = owns w" using assms(3,4,12) by (intro ext) (simp add: owns_def)
  then have "own_inv w'" using assms(1,11) by (simp add: road_inv_def own_inv_def)
  moreover have "front_inv qs w'" unfolding front_inv_def
  proof (intro allI impI conjI)
    fix d assume d: "d < NUM_CARS"
    then have "turn_ok (pc w d) (turn (xs w) d)" using assms(1) by (simp add: road_inv_def front_inv_def)
    then show "turn_ok (pc w' d) (turn (xs w') d)" using assms(3,6,12) by auto
    fix q assume "place (pc w' d) = Some q \<and> (is_front (pc w' d) \<or> is_turning (turn (xs w') d))"
    then show "at_head qs q d" using d assms(1,3,4,7,12)
      by (cases "d = c") (auto simp: road_inv_def front_inv_def)
  qed
  moreover have "is_crossing (pc w' d) = is_crossing (pc w d)" for d using assms(3,8) by simp
  then have "lock_inv w'" using assms(1,11,13,14) by (auto simp: road_inv_def lock_inv_def)
  ultimately show ?thesis using assms(15) by (simp add: road_inv_def)
qed

text \<open>The sleeping cars are not affected by a car that does not leave and does not go to sleep.\<close>

lemma sleep_move:
  assumes "sleep_inv qs w" "pc w' = (pc w)(c := p)" "signalled w - {c} \<subseteq> signalled w'"
    "quadrant (xs w') = quadrant (xs w)" "turn (xs w') = turn (xs w)" "\<And>q i. pc w c \<noteq> Leaving q i" "\<And>q. p \<noteq> Sleep q"
    "\<And>q. p = Wait_queue q \<Longrightarrow> \<not> at_head qs q c"
  shows "sleep_inv qs w'"
  unfolding sleep_inv_def
proof (intro allI impI conjI)
  fix d assume d: "d < NUM_CARS" "d \<notin> signalled w'"
  { fix q assume q: "pc w' d = Wait_queue q"
    then show "\<not> at_head qs q d" using d assms(1,2,3,8)
      by (cases "d = c") (auto simp: sleep_inv_def) }
  { fix q assume q: "pc w' d = Sleep q"
    then have dc: "d \<noteq> c" using assms(2,7) by auto
    with q d assms(1,2,3) have s: "wants_turn (turn (xs w) d)"
      "occupied w \<or> (\<exists>d<NUM_CARS. \<exists>q' i. pc w d = Leaving q' i \<and> i \<le> q)"
      by (auto simp: sleep_inv_def)
    then show "wants_turn (turn (xs w') d)" using assms(5) by simp
    from s(2) show "occupied w' \<or> (\<exists>d<NUM_CARS. \<exists>q' i. pc w' d = Leaving q' i \<and> i \<le> q)"
    proof
      assume "occupied w"
      then show ?thesis using assms(4) by (simp add: occupied_def)
    next
      assume "\<exists>d<NUM_CARS. \<exists>q' i. pc w d = Leaving q' i \<and> i \<le> q"
      then obtain e q' i where e: "e < NUM_CARS" "pc w e = Leaving q' i" "i \<le> q" by blast
      with assms(6) have "e \<noteq> c" by auto
      with e assms(2) show ?thesis by (intro disjI2 exI [of _ e]) auto
    qed }
qed

lemma road_facts:
  assumes "road_inv qs w" "c < NUM_CARS"
  shows "pc_ok (pc w c)" "turn_ok (pc w c) (turn (xs w) c)" "ilock w = Some c \<longleftrightarrow> holds_lock (pc w c)" "sleep_inv qs w"
    "\<And>d. ilock w = Some d \<longleftrightarrow> d < NUM_CARS \<and> holds_lock (pc w d)"
  using assms by (auto simp: road_inv_def queue_inv_def front_inv_def lock_inv_def)

lemma ilock_same:
  assumes "road_inv qs w" "pc w' = (pc w)(c := p)" "ilock w' = ilock w" "holds_lock p = holds_lock (pc w c)"
  shows "ilock w' = Some d \<longleftrightarrow> d < NUM_CARS \<and> holds_lock (pc w' d)"
  using assms by (auto simp: road_inv_def lock_inv_def)

lemma road_head:
  assumes "road_inv qs w" "q < 4"
  shows "heads (xs w) ! q = Some c \<longleftrightarrow> at_head qs q c" "at_head qs q c \<Longrightarrow> c < NUM_CARS \<and> place (pc w c) = Some q"
proof -
  have "heads (xs w) ! q = (case qs q of [] \<Rightarrow> None | c # cs \<Rightarrow> Some c)"
    using assms queues_head(1) by (auto simp: road_inv_def queue_inv_def)
  then show "heads (xs w) ! q = Some c \<longleftrightarrow> at_head qs q c" by (cases "qs q") (auto simp: at_head_def)
  assume "at_head qs q c"
  then have "c \<in> set (qs q)" by (auto simp: at_head_def)
  then show "c < NUM_CARS \<and> place (pc w c) = Some q" using assms by (simp add: road_inv_def queue_inv_def)
qed

lemma road_front:
  assumes "road_inv qs w" "c < NUM_CARS" "pc w c = Check_queue q" "heads (xs w) ! q = Some c"
  shows "road_inv qs (goto c (At_front q) (w\<lparr>xs := say str (xs w)\<rparr>))"
proof -
  note f = road_facts [OF assms(1,2)]
  from f(1) assms(3) have q: "q < 4" by simp
  have h: "at_head qs q c" using road_head(1) [OF assms(1) q, of c] assms(4) by simp
  have s: "sleep_inv qs (goto c (At_front q) (w\<lparr>xs := say str (xs w)\<rparr>))"
    by (rule sleep_move [OF f(4), where p = "At_front q"]) (use assms(3) h in auto)
  have l: "ilock (goto c (At_front q) (w\<lparr>xs := say str (xs w)\<rparr>)) = Some d \<longleftrightarrow> d < NUM_CARS \<and> holds_lock (pc (goto c (At_front q) (w\<lparr>xs := say str (xs w)\<rparr>)) d)" for d
    by (rule ilock_same [OF assms(1), where p = "At_front q"]) (use assms(3) in auto)
  show ?thesis
    by (rule road_move [OF assms(1,2) _ _ _ _ _ _ _ _ _ _ _ l s, where p = "At_front q"]) (use assms(3) f(2) q h in auto)
qed

lemma road_not_front:
  assumes "road_inv qs w" "c < NUM_CARS" "pc w c = Check_queue q" "heads (xs w) ! q \<noteq> Some c"
  shows "road_inv qs (goto c (Wait_queue q) w)"
proof -
  note f = road_facts [OF assms(1,2)]
  from f(1) assms(3) have q: "q < 4" by simp
  have h: "\<not> at_head qs q c" using road_head(1) [OF assms(1) q, of c] assms(4) by simp
  have s: "sleep_inv qs (goto c (Wait_queue q) w)"
    by (rule sleep_move [OF f(4), where p = "Wait_queue q"]) (use assms(3) h in auto)
  have l: "ilock (goto c (Wait_queue q) w) = Some d \<longleftrightarrow> d < NUM_CARS \<and> holds_lock (pc (goto c (Wait_queue q) w) d)" for d
    by (rule ilock_same [OF assms(1), where p = "Wait_queue q"]) (use assms(3) in auto)
  show ?thesis
    by (rule road_move [OF assms(1,2) _ _ _ _ _ _ _ _ _ _ _ l s, where p = "Wait_queue q"]) (use assms(3) f(2) q h in auto)
qed

lemma road_woken:
  assumes "road_inv qs w" "c < NUM_CARS" "pc w c = Wait_queue q"
  shows "road_inv qs (goto c (Check_queue q) (w\<lparr>signalled := signalled w - {c}\<rparr>))"
proof -
  note f = road_facts [OF assms(1,2)]
  from f(1) assms(3) have q: "q < 4" by simp
  have s: "sleep_inv qs (goto c (Check_queue q) (w\<lparr>signalled := signalled w - {c}\<rparr>))"
    by (rule sleep_move [OF f(4), where p = "Check_queue q"]) (use assms(3)  in auto)
  have l: "ilock (goto c (Check_queue q) (w\<lparr>signalled := signalled w - {c}\<rparr>)) = Some d \<longleftrightarrow> d < NUM_CARS \<and> holds_lock (pc (goto c (Check_queue q) (w\<lparr>signalled := signalled w - {c}\<rparr>)) d)" for d
    by (rule ilock_same [OF assms(1), where p = "Check_queue q"]) (use assms(3) in auto)
  show ?thesis
    by (rule road_move [OF assms(1,2) _ _ _ _ _ _ _ _ _ _ _ l s, where p = "Check_queue q"]) (use assms(3) f(2) q  in auto)
qed

lemma road_lock:
  assumes "road_inv qs w" "c < NUM_CARS" "pc w c = At_front q \<or> pc w c = Sleep q" "ilock w = None"
    "signalled w - {c} \<subseteq> S"
  shows "road_inv qs (goto c (Try q) (w\<lparr>signalled := S, ilock := Some c\<rparr>))"
proof -
  note f = road_facts [OF assms(1,2)]
  from f(1) assms(3) have q: "q < 4" by auto
  have none: "\<not> (d < NUM_CARS \<and> holds_lock (pc w d))" for d using f(5) [of d] assms(4) by simp
  have s: "sleep_inv qs (goto c (Try q) (w\<lparr>signalled := S, ilock := Some c\<rparr>))"
    by (rule sleep_move [OF f(4)]) (use assms(3,5) in auto)
  show ?thesis
    by (rule road_move [OF assms(1,2) _ _ _ _ _ _ _ _ _ _ _ _ s, where p = "Try q"]) (use assms(2,3) f(2) q none in auto)
qed

lemma road_spurious:
  assumes "road_inv qs w"
  shows "road_inv qs (w\<lparr>signalled := insert c (signalled w)\<rparr>)"
proof -
  let ?w = "w\<lparr>signalled := insert c (signalled w)\<rparr>"
  have "queue_inv qs ?w = queue_inv qs w" "front_inv qs ?w = front_inv qs w" "own_inv ?w = own_inv w" "lock_inv ?w = lock_inv w"
    by (simp_all add: queue_inv_def front_inv_def own_inv_def owns_def lock_inv_def)
  moreover have "sleep_inv qs ?w" using assms by (auto simp: road_inv_def sleep_inv_def occupied_def)
  ultimately show ?thesis using assms by (simp add: road_inv_def)
qed

lemma road_signal:
  assumes "road_inv qs w"
  shows "road_inv qs (signal c w)"
proof -
  have "signal c w = w \<or> signal c w = w\<lparr>signalled := insert c (signalled w)\<rparr>"
    by (simp add: signal_def split: car_pc.split)
  then show ?thesis using assms road_spurious [OF assms, of c] by auto
qed

text \<open>A car picks a queue and a turn.\<close>

lemma road_choose:
  assumes "road_inv qs w" "c < NUM_CARS" "pc w c = Drive" "q < 4" "wants_turn t"
  shows "road_inv qs (goto c (To_queue q) (w\<lparr>xs := (xs w)\<lparr>turn := (turn (xs w))(c := t)\<rparr>\<rparr>))" (is "road_inv qs ?w")
proof -
  note f = road_facts [OF assms(1,2)]
  have nt: "\<not> is_turning t" "\<not> is_turning (turn (xs w) c)" using assms(3,5) f(2) turning_wants [of t] by (auto simp: is_turning_def)
  have place: "place (pc ?w d) = place (pc w d)" for d using assms(3) by simp
  have "queues (xs ?w) qs" using assms(1) queues_frame [of "xs w" qs "xs ?w"] by (simp add: road_inv_def queue_inv_def)
  then have "queue_inv qs ?w" using assms(1,4) place by (simp add: road_inv_def queue_inv_def)
  moreover have "owns ?w = owns w" using nt place by (intro ext) (simp add: owns_def)
  then have "own_inv ?w" using assms(1) by (simp add: road_inv_def own_inv_def)
  moreover have "front_inv qs ?w" using assms nt by (auto simp: road_inv_def front_inv_def)
  moreover have "holds_lock (pc ?w d) = holds_lock (pc w d)" "is_crossing (pc ?w d) = is_crossing (pc w d)" for d
    using assms(3) by simp_all
  then have "lock_inv ?w" using assms(1) by (simp add: road_inv_def lock_inv_def)
  moreover have "sleep_inv qs (goto c (To_queue q) w)" by (rule sleep_move [OF f(4)]) (use assms(3) in auto)
  then have "sleep_inv qs ?w" using assms(3) by (auto simp: sleep_inv_def occupied_def)
  ultimately show ?thesis by (simp add: road_inv_def)
qed

section \<open>Queueing\<close>

lemma xing_more: "cars.more t = cars.more s \<Longrightarrow> quadrant t = quadrant s \<and> turn t = turn s" for s t :: xing
  by (cases s; cases t) simp

lemma road_queue:
  assumes "road_inv qs w" "c < NUM_CARS" "pc w c = To_queue q"
  shows "\<exists>s. queue_car c q (xs w) = Some s"
    "queue_car c q (xs w) = Some s \<Longrightarrow> road_inv (qs(q := qs q @ [c])) (goto c (Check_queue q) (w\<lparr>xs := s\<rparr>))"
proof -
  note f = road_facts [OF assms(1,2)]
  from f(1) assms(3) have q: "q < 4" by simp
  have qi: "queues (xs w) qs" "\<forall>q<4. \<forall>c. c \<in> set (qs q) \<longleftrightarrow> c < NUM_CARS \<and> place (pc w c) = Some q"
    using assms(1) by (simp_all add: road_inv_def queue_inv_def)
  then have "\<forall>i<4. c \<notin> set (qs i)" using assms(3) by simp
  from enqueue_queues [OF qi(1) q this] obtain t where
    t: "enqueue c q (xs w) = Some t" "queues t (qs(q := qs q @ [c]))" "cars.more t = cars.more (xs w)" by blast
  then show "\<exists>s. queue_car c q (xs w) = Some s" by (simp add: queue_car_def)
  assume "queue_car c q (xs w) = Some s"
  with t have s: "queues s (qs(q := qs q @ [c]))" "quadrant s = quadrant (xs w)" "turn s = turn (xs w)"
    using xing_more [OF t(3)] by (auto simp: queue_car_def intro: queues_frame)
  let ?w = "goto c (Check_queue q) (w\<lparr>xs := s\<rparr>)" and ?qs = "qs(q := qs q @ [c])"
  have nt: "wants_turn (turn (xs w) c)" "\<not> is_turning (turn (xs w) c)"
    using f(2) assms(3) turning_wants [of "turn (xs w) c"] by auto
  have "queue_inv ?qs ?w" using qi(2) assms s(1) q by (auto simp: road_inv_def queue_inv_def)
  moreover have "owns ?w = owns w" using nt s(3) by (intro ext) (simp add: owns_def)
  then have "own_inv ?w" using assms(1) s(2) by (simp add: road_inv_def own_inv_def)
  moreover have h: "at_head ?qs i d" if "at_head qs i d" for i d using that by (auto simp: at_head_def)
  then have "front_inv ?qs ?w" using assms(1) nt s(3) by (auto simp: road_inv_def front_inv_def)
  moreover have "holds_lock (pc ?w d) = holds_lock (pc w d)" "is_crossing (pc ?w d) = is_crossing (pc w d)" for d
    using assms(3) by simp_all
  then have "lock_inv ?w" using assms(1) s(2) by (simp add: road_inv_def lock_inv_def)
  moreover have sl: "sleep_inv qs (goto c (Check_queue q) w)" by (rule sleep_move [OF f(4)]) (use assms(3) in auto)
  have "at_head qs i d" if "at_head ?qs i d" "d \<noteq> c" for i d
    using that by (cases "i = q"; cases "qs q") (auto simp: at_head_def)
  then have "sleep_inv ?qs ?w" using sl s(2,3) unfolding sleep_inv_def occupied_def goto_simps
    by (auto simp: s(2,3))
  ultimately show "road_inv ?qs ?w" by (simp add: road_inv_def)
qed

text \<open>A car leaves its queue.\<close>

lemma road_dequeue:
  assumes "road_inv qs w" "c < NUM_CARS" "pc w c = Dequeue q"
  shows "\<exists>cs h s. qs q = c # cs \<and> dequeue_car q (xs w) = Some (h, s) \<and> h = (case cs of [] \<Rightarrow> None | d # ds \<Rightarrow> Some d) \<and>
    queues s (qs(q := cs)) \<and> quadrant s = quadrant (xs w) \<and> turn s = turn (xs w)"
proof -
  note f = road_facts [OF assms(1,2)]
  from f(1) assms(3) have q: "q < 4" by simp
  have qi: "queues (xs w) qs" using assms(1) by (simp add: road_inv_def queue_inv_def)
  have "at_head qs q c" using assms by (auto simp: road_inv_def front_inv_def)
  then obtain cs where cs: "qs q = c # cs" by (cases "qs q") (auto simp: at_head_def)
  from dequeue_queues [OF qi q cs] obtain t where
    t: "dequeue q (xs w) = Some t" "queues t (qs(q := cs))" "cars.more t = cars.more (xs w)" by blast
  then show ?thesis using cs xing_more [OF t(3)] queues_head(1) [OF t(2) q] by (simp add: dequeue_car_def)
qed

lemma road_dequeue_inv:
  assumes "road_inv qs w" "c < NUM_CARS" "pc w c = Dequeue q" "dequeue_car q (xs w) = Some (h, s)"
  shows "\<exists>qs'. road_inv qs' (goto c Drive (case h of None \<Rightarrow> w\<lparr>xs := s\<rparr> | Some h \<Rightarrow> signal h (w\<lparr>xs := s\<rparr>)))"
proof -
  from road_dequeue [OF assms(1-3)] assms(4) obtain cs where cs: "qs q = c # cs" "h = (case cs of [] \<Rightarrow> None | d # ds \<Rightarrow> Some d)"
    and s: "queues s (qs(q := cs))" "quadrant s = quadrant (xs w)" "turn s = turn (xs w)" by auto
  let ?qs = "qs(q := cs)"
  define w' where "w' = goto c Drive (case h of None \<Rightarrow> w\<lparr>xs := s\<rparr> | Some h \<Rightarrow> signal h (w\<lparr>xs := s\<rparr>))"
  note f = road_facts [OF assms(1,2)]
  from f(1) assms(3) have q: "q < 4" by simp
  have same: "xs w' = s" "pc w' = (pc w)(c := Drive)" "ilock w' = ilock w" "qlock w' = qlock w" "signalled w \<subseteq> signalled w'"
    using signal_signalled(1) [of "w\<lparr>xs := s\<rparr>"] by (auto simp: w'_def split: option.splits)
  have qi: "queues (xs w) qs" "\<forall>q<4. \<forall>c. c \<in> set (qs q) \<longleftrightarrow> c < NUM_CARS \<and> place (pc w c) = Some q"
    using assms(1) by (simp_all add: road_inv_def queue_inv_def)
  have dc: "c \<notin> set cs" using qi(1) cs(1) q by (auto simp: queues_def dest!: spec [of _ q])
  have in_qs: "d \<in> set (?qs i) \<longleftrightarrow> d < NUM_CARS \<and> place (pc w' d) = Some i" if "i < 4" for i d
    using qi(2) [rule_format, OF that, of d] cs(1) dc assms(2,3) by (cases "d = c"; cases "i = q") (auto simp: same)
  have nt: "turn (xs w) c = NO_TURN" using f(2) assms(3) by simp
  have "queue_inv ?qs w'" using in_qs assms(1) by (auto simp: road_inv_def queue_inv_def same s)
  moreover have "owns w' = owns w" using nt by (intro ext) (auto simp: owns_def same s is_turning_def)
  then have "own_inv w'" using assms(1) by (simp add: road_inv_def own_inv_def same s)
  moreover have h: "at_head ?qs i d" if "at_head qs i d" "d \<noteq> c" for i d using that cs(1) by (auto simp: at_head_def)
  then have "front_inv ?qs w'" using assms(1) nt by (auto simp: road_inv_def front_inv_def same s)
  moreover have "holds_lock (pc w' d) = holds_lock (pc w d)" "is_crossing (pc w' d) = is_crossing (pc w d)" for d
    using assms(3) by (simp_all add: same)
  then have "lock_inv w'" using assms(1) by (simp add: road_inv_def lock_inv_def same s)
  moreover have "sleep_inv qs (goto c Drive w)" by (rule sleep_move [OF f(4)]) (use assms(3) in auto)
  moreover have "\<not> at_head ?qs i d" if "pc w' d = Wait_queue i" "d \<notin> signalled w'" "d < NUM_CARS" "\<not> at_head qs i d" for i d
  proof
    assume a: "at_head ?qs i d"
    then have i: "i = q" using that(4) by (cases "i = q") (auto simp: at_head_def)
    then have "h = Some d" using a cs(2) by (cases cs) (auto simp: at_head_def)
    moreover have "pc w d = Wait_queue i" using that(1) by (auto simp: same split: if_splits)
    ultimately have "d \<in> signalled w'" using signal_signalled(3) [of "w\<lparr>xs := s\<rparr>" d i] by (simp add: w'_def)
    with that(2) show False by simp
  qed
  then have "sleep_inv ?qs w'" if "sleep_inv qs (goto c Drive w)"
    using that same(5) unfolding sleep_inv_def occupied_def same(1,2) s goto_simps by blast
  ultimately have "road_inv ?qs w'" by (simp add: road_inv_def)
  then show ?thesis unfolding w'_def by blast
qed

section \<open>Entering\<close>

text \<open>The head of a queue takes all the quadrants of its turn.\<close>

lemma road_take:
  assumes "road_inv qs w" "q < 4" "at_head qs q h" "wants_turn (turn (xs w) h)" "\<And>k. pc w h \<noteq> To_queue k"
    and "turn s = (turn (xs w))(h := turning (turn (xs w) h))" "length (quadrant s) = 4"
    and "\<forall>k\<in>set (route (turn (xs w) h) q). quadrant (xs w) ! k = -1"
    and "\<forall>k<4. quadrant s ! k = (if k \<in> set (route (turn (xs w) h) q) then int h else quadrant (xs w) ! k)"
    and "heads s = heads (xs w)" "next_car s = next_car (xs w)"
  shows "road_inv qs (signal h (w\<lparr>xs := s\<rparr>))" "occupied (signal h (w\<lparr>xs := s\<rparr>))"
proof -
  let ?t = "turn (xs w) h" and ?R = "set (route (turn (xs w) h) q)"
  define w' where "w' = signal h (w\<lparr>xs := s\<rparr>)"
  have same: "xs w' = s" "pc w' = pc w" "ilock w' = ilock w" "qlock w' = qlock w" "signalled w \<subseteq> signalled w'"
    using signal_signalled(1) [of "w\<lparr>xs := s\<rparr>"] by (auto simp: w'_def)
  have h: "h < NUM_CARS" "place (pc w h) = Some q" using road_head(2) [OF assms(1-3)] by auto
  note t = turning_simps [OF assms(4)]
  note r = route_ok [OF assms(4,2)]
  have nt: "\<not> is_turning ?t" using assms(4) turning_wants by blast
  have tt: "is_turning (turning ?t)" using t by (auto simp: is_turning_def)
  from r obtain k0 where k0: "k0 \<in> ?R" "k0 < 4" by (cases "route ?t q") auto
  then have occ: "occupied w'" using assms(9) by (auto simp: occupied_def same intro!: exI [of _ k0])
  have "queue_inv qs w'" using assms(1,10,11) by (auto simp: road_inv_def queue_inv_def same intro: queues_frame)
  moreover have "front_inv qs w'"
  proof -
    have ph: "turn_ok (pc w h) ?t" using road_facts(2) [OF assms(1) h(1)] .
    have "turn_ok (pc w h) (turning ?t)" using ph h(2) nt tt assms(4) by (cases "pc w h") (auto simp: wants_turn_def)
    then show ?thesis using assms(1,3,6) h by (auto simp: road_inv_def front_inv_def same)
  qed
  moreover have "own_inv w'"
  proof -
    have o: "owns w' d k \<longleftrightarrow> (if d = h then k \<in> ?R else owns w d k)" for d k
      using h(2) tt t by (auto simp: owns_def same assms(6))
    have oi: "own_inv w" using assms(1) by (simp add: road_inv_def)
    then have nh: "quadrant (xs w) ! k \<noteq> int h" if "k < 4" for k
      using that h(1) nt by (auto simp: own_inv_def owns_def)
    have q: "quadrant (xs w) ! k = int d \<longleftrightarrow> owns w d k" if "d < NUM_CARS" "k < 4" for d k
      using that oi by (simp add: own_inv_def)
    have "\<not> owns w d k" if "d < NUM_CARS" "k < 4" "k \<in> ?R" for d k using q [OF that(1,2)] that(3) assms(8) by auto
    then have "quadrant s ! k = int d \<longleftrightarrow> owns w' d k" if "d < NUM_CARS" "k < 4" for d k
      using that assms(9) nh [of k] q [OF that] unfolding o by auto
    moreover have "quadrant s ! k = -1 \<or> (\<exists>c<NUM_CARS. quadrant s ! k = int c)" if "k < 4" for k
      using that oi assms(9) h(1) by (auto simp: own_inv_def)
    ultimately show ?thesis using assms(7) by (simp add: own_inv_def same)
  qed
  moreover have "lock_inv w'"
  proof -
    have "\<not> is_crossing (pc w h)" using road_facts(2) [OF assms(1) h(1)] nt by (cases "pc w h") auto
    moreover have l: "qlock w ! k = Some c \<longleftrightarrow> c < NUM_CARS \<and> is_crossing (pc w c) \<and> quadrant (xs w) ! k = int c" if "k < 4" for k c
      using that assms(1) by (simp add: road_inv_def lock_inv_def)
    ultimately have "qlock w ! k = Some c \<longleftrightarrow> c < NUM_CARS \<and> is_crossing (pc w c) \<and> quadrant s ! k = int c" if "k < 4" for k c
      unfolding l [OF that] using that assms(8,9) by auto
    then show ?thesis using assms(1) by (simp add: road_inv_def lock_inv_def same)
  qed
  moreover have "h \<in> signalled w'" if "pc w h = Sleep k" for k
    using signal_signalled(3) [of "w\<lparr>xs := s\<rparr>" h k] that by (simp add: w'_def)
  then have "sleep_inv qs w'" using assms(1) occ same(5)
    unfolding road_inv_def sleep_inv_def same(1,2) assms(6) by (auto simp: fun_upd_apply)
  ultimately show "road_inv qs (signal h (w\<lparr>xs := s\<rparr>))" by (simp add: road_inv_def w'_def)
  show "occupied (signal h (w\<lparr>xs := s\<rparr>))" using occ by (simp add: w'_def)
qed

text \<open>The head of a queue tries to enter, for itself or pushed by another car.\<close>

lemma road_enter:
  assumes "road_inv qs w" "q < 4" "at_head qs q h" "enter h q w = (r, w')"
  shows "road_inv qs w' \<and> pc w' = pc w \<and> ilock w' = ilock w \<and> signalled w \<subseteq> signalled w' \<and>
    (occupied w \<longrightarrow> occupied w') \<and> (wants_turn (turn (xs w) h) \<longrightarrow> occupied w' \<and> (r = 0 \<longrightarrow> w' = w))"
proof -
  have h: "h < NUM_CARS" "place (pc w h) = Some q" using road_head(2) [OF assms(1-3)] by auto
  have oi: "own_inv w" "length (quadrant (xs w)) = 4" using assms(1) by (auto simp: road_inv_def own_inv_def)
  note s = signal_signalled(1)
  show ?thesis
  proof (cases "wants_turn (turn (xs w) h)")
    case True
    then have nt: "\<not> is_turning (turn (xs w) h)" using turning_wants by blast
    show ?thesis
    proof (cases "\<forall>k\<in>set (route (turn (xs w) h) q). quadrant (xs w) ! k = -1")
      case free: True
      from enter_free [OF True assms(2) oi(2) free] obtain t where
        t: "enter_intersection h q (xs w) = (1, t)" "turn t = (turn (xs w))(h := turning (turn (xs w) h))"
        "length (quadrant t) = 4"
        "\<forall>k<4. quadrant t ! k = (if k \<in> set (route (turn (xs w) h) q) then int h else quadrant (xs w) ! k)"
        "heads t = heads (xs w)" "next_car t = next_car (xs w)" by blast
      have "pc w h \<noteq> To_queue k" for k using h(2) by auto
      note take = road_take [OF assms(1-3) True this t(2,3) free t(4-6)]
      have "w' = signal h (w\<lparr>xs := t\<rparr>)" "r = 1" using assms(4) t(1) by (auto simp: enter_def)
      with take s [of "w\<lparr>xs := t\<rparr>" h] show ?thesis by simp
    next
      case False
      then obtain k where k: "k \<in> set (route (turn (xs w) h) q)" "quadrant (xs w) ! k \<noteq> -1" by blast
      have "k < 4" using route_ok [OF True assms(2)] k(1) by auto
      then have o: "occupied w" using k(2) by (auto simp: occupied_def)
      have "enter_intersection h q (xs w) = (0, xs w)"
        by (rule enter_blocked [OF True assms(2) oi(2) own_inv_not_in [OF oi(1) h(1) nt] k])
      then have "w' = w" "r = 0" using assms(4) by (auto simp: enter_def)
      with assms(1) o show ?thesis by simp
    qed
  next
    case False
    note e = enter_other [OF False, of q]
    show ?thesis
    proof (cases "turn (xs w) h = NO_TURN")
      case True
      with e assms(4) have "w' = w" by (auto simp: enter_def)
      with assms(1) False show ?thesis by simp
    next
      case nn: False
      then obtain str where str: "enter_intersection h q (xs w) = (1, say str (xs w))" using e by auto
      then have w': "w' = signal h (w\<lparr>xs := say str (xs w)\<rparr>)" using assms(4) by (auto simp: enter_def)
      have "queues (say str (xs w)) qs = queues (xs w) qs" by (simp add: queues_def)
      then have "road_inv qs (w\<lparr>xs := say str (xs w)\<rparr>) = road_inv qs w"
        by (simp add: road_inv_def queue_inv_def front_inv_def own_inv_def owns_def lock_inv_def sleep_inv_def occupied_def)
      then have "road_inv qs w'" using assms(1) unfolding w' by (simp add: road_signal)
      then show ?thesis using False s [of "w\<lparr>xs := say str (xs w)\<rparr>" h] by (simp add: w' occupied_def)
    qed
  qed
qed

lemma road_blocked:
  assumes "road_inv qs w" "c < NUM_CARS" "pc w c = Try q" "wants_turn (turn (xs w) c)" "enter c q w = (0, w')"
  shows "road_inv qs (goto c (Sleep q) (w'\<lparr>ilock := None\<rparr>))"
proof -
  note f = road_facts [OF assms(1,2)]
  from f(1) assms(3) have q: "q < 4" by simp
  have "at_head qs q c" using assms(1-3) by (auto simp: road_inv_def front_inv_def)
  with road_enter [OF assms(1) q _ assms(5)] assms(4) have w: "w' = w" "occupied w" by auto
  let ?w = "goto c (Sleep q) (w\<lparr>ilock := None\<rparr>)"
  have "sleep_inv qs ?w" unfolding sleep_inv_def
    using f(4) w(2) assms(4) by (auto simp: sleep_inv_def occupied_def)
  moreover have "\<not> holds_lock (pc ?w d)" if "d < NUM_CARS" for d
    using f(5) [of d] f(5) [of c] assms(2,3) that by auto
  then have l: "ilock ?w = Some d \<longleftrightarrow> d < NUM_CARS \<and> holds_lock (pc ?w d)" for d by simp
  ultimately show ?thesis unfolding w(1)
    by (intro road_move [OF assms(1,2) _ _ _ _ _ _ _ _ _ _ _ l, where p = "Sleep q"]) (use assms(3) f(2) q in auto)
qed

section \<open>Crossing and leaving\<close>

lemma no_other_holder:
  assumes "road_inv qs w" "c < NUM_CARS" "holds_lock (pc w c)" "d < NUM_CARS" "holds_lock (pc w d)"
  shows "d = c"
  using road_facts(5) [OF assms(1,2), of c] road_facts(5) [OF assms(1,2), of d] assms by auto

lemma road_cross:
  assumes "road_inv qs w" "c < NUM_CARS" "pc w c = Try q" "\<not> wants_turn (turn (xs w) c)"
  shows "road_inv qs (goto c (Crossing q) ((aquire_locks c w)\<lparr>ilock := None\<rparr>))"
proof -
  define w' where "w' = goto c (Crossing q) ((aquire_locks c w)\<lparr>ilock := None\<rparr>)"
  note f = road_facts [OF assms(1,2)]
  have q: "q < 4" and t: "is_turning (turn (xs w) c)" using f(1,2) assms(3,4) by auto
  have same: "xs w' = xs w" "pc w' = (pc w)(c := Crossing q)" "signalled w' = signalled w" by (simp_all add: w'_def aquire_locks_def)
  have "queue_inv qs w'" using assms(1,3) q by (auto simp: road_inv_def queue_inv_def same)
  moreover have "front_inv qs w'" using assms(1,3) t by (auto simp: road_inv_def front_inv_def same)
  moreover have "owns w' = owns w" using assms(3) by (intro ext) (simp add: owns_def same)
  then have "own_inv w'" using assms(1) by (simp add: road_inv_def own_inv_def same)
  moreover have "lock_inv w'"
  proof -
    have k: "qlock w' ! k = (if quadrant (xs w) ! k = int c then Some c else qlock w ! k)" if "k < 4" for k
      using that by (cases "quadrant (xs w) ! k = int c") (simp_all add: w'_def aquire_locks_def)
    have "\<not> holds_lock (pc w' d)" if "d < NUM_CARS" for d
      using no_other_holder [OF assms(1,2) _ that] assms(3) by (auto simp: same)
    moreover have l: "qlock w ! k = Some d \<longleftrightarrow> d < NUM_CARS \<and> is_crossing (pc w d) \<and> quadrant (xs w) ! k = int d" if "k < 4" for k d
      using that assms(1) by (simp add: road_inv_def lock_inv_def)
    have "qlock w' ! k = Some d \<longleftrightarrow> d < NUM_CARS \<and> is_crossing (pc w' d) \<and> quadrant (xs w') ! k = int d" if "k < 4" for k d
      using that assms(2,3) l [OF that, of d] k [OF that] by (auto simp: same split: if_splits)
    ultimately show ?thesis by (auto simp: lock_inv_def) (simp_all add: w'_def aquire_locks_def)
  qed
  moreover have "sleep_inv qs w'" by (rule sleep_move [OF f(4) same(2)]) (use assms(3) in \<open>auto simp: same\<close>)
  ultimately show ?thesis unfolding w'_def [symmetric] by (simp add: road_inv_def)
qed

lemma road_leave:
  assumes "road_inv qs w" "c < NUM_CARS" "pc w c = Crossing q" "ilock w = None"
  shows "road_inv qs (goto c (Leaving q 0) ((unlock_quadrants c w)\<lparr>ilock := Some c, xs := free_quadrants c (xs w)\<rparr>))"
proof -
  define w' where "w' = goto c (Leaving q 0) ((unlock_quadrants c w)\<lparr>ilock := Some c, xs := free_quadrants c (xs w)\<rparr>)"
  note f = road_facts [OF assms(1,2)]
  have q: "q < 4" using f(1) assms(3) by simp
  have oi: "own_inv w" using assms(1) by (simp add: road_inv_def)
  then have len: "length (quadrant (xs w)) = 4" by (simp add: own_inv_def)
  have same: "heads (xs w') = heads (xs w)" "next_car (xs w') = next_car (xs w)" "turn (xs w') = (turn (xs w))(c := NO_TURN)"
    "quadrant (xs w') = release c (quadrant (xs w))" "pc w' = (pc w)(c := Leaving q 0)" "signalled w' = signalled w" "ilock w' = Some c"
    by (simp_all add: w'_def unlock_quadrants_def free_quadrants_def Let_def)
  have nc: "\<not> is_turning NO_TURN" by (simp add: is_turning_def)
  have "queues (xs w') qs" using assms(1) queues_frame [of "xs w" qs "xs w'"] by (simp add: road_inv_def queue_inv_def same)
  then have "queue_inv qs w'" using assms(1,3) q by (auto simp: road_inv_def queue_inv_def same)
  moreover have "front_inv qs w'" using assms(1,3) nc by (auto simp: road_inv_def front_inv_def same)
  moreover have "own_inv w'"
  proof -
    have o: "owns w' d k \<longleftrightarrow> d \<noteq> c \<and> owns w d k" for d k using nc by (auto simp: owns_def same)
    have "quadrant (xs w') ! k = int d \<longleftrightarrow> owns w' d k" if "d < NUM_CARS" "k < 4" for d k
      using that oi len unfolding o same by (auto simp: own_inv_def) (metis of_nat_eq_iff)
    then show ?thesis using oi len by (auto simp: own_inv_def same)
  qed
  moreover have "lock_inv w'"
  proof -
    have k: "qlock w' ! k = (if quadrant (xs w) ! k = int c then None else qlock w ! k)" if "k < 4" for k
      using that by (cases "quadrant (xs w) ! k = int c") (simp_all add: w'_def unlock_quadrants_def)
    have "\<not> holds_lock (pc w d)" if "d < NUM_CARS" for d using f(5) [of d] assms(4) that by simp
    moreover have l: "qlock w ! k = Some d \<longleftrightarrow> d < NUM_CARS \<and> is_crossing (pc w d) \<and> quadrant (xs w) ! k = int d" if "k < 4" for k d
      using that assms(1) by (simp add: road_inv_def lock_inv_def)
    have "qlock w' ! k = Some d \<longleftrightarrow> d < NUM_CARS \<and> is_crossing (pc w' d) \<and> quadrant (xs w') ! k = int d" if "k < 4" for k d
      using that assms(2,3) len l [OF that, of d] k [OF that] by (auto simp: same split: if_splits)
    ultimately show ?thesis using assms(2) by (auto simp: lock_inv_def same) (simp_all add: w'_def unlock_quadrants_def)
  qed
  moreover have "sleep_inv qs w'" using f(4) assms(2) unfolding sleep_inv_def same by (auto simp: fun_upd_apply)
  ultimately show ?thesis unfolding w'_def [symmetric] by (simp add: road_inv_def)
qed

text \<open>One queue after the other: what sleeps at a queue that has been tried sleeps because a quadrant is
  occupied.\<close>

lemma road_next_queue:
  assumes "road_inv qs w" "c < NUM_CARS" "pc w c = Leaving q i" "i < 4"
    and "\<And>d. d < NUM_CARS \<Longrightarrow> d \<notin> signalled w \<Longrightarrow> pc w d = Sleep i \<Longrightarrow> occupied w"
  shows "road_inv qs (goto c (Leaving q (Suc i)) w)" (is "road_inv qs ?w")
proof -
  note f = road_facts [OF assms(1,2)]
  have q: "q < 4" using f(1) assms(3) by simp
  have "occupied w \<or> Suc i \<le> j" if "d < NUM_CARS" "d \<notin> signalled w" "pc w d = Sleep j" for d j
  proof (cases "i = j")
    case False
    from f(4) that have "occupied w \<or> (\<exists>e<NUM_CARS. \<exists>q' i'. pc w e = Leaving q' i' \<and> i' \<le> j)" by (simp add: sleep_inv_def)
    moreover have "i' = i" if "e < NUM_CARS" "pc w e = Leaving q' i'" for e q' i'
      using no_other_holder [OF assms(1,2) _ that(1)] assms(3) that(2) by auto
    ultimately show ?thesis using False by (metis Suc_leI le_neq_implies_less)
  qed (use that assms(5) in auto)
  then have "sleep_inv qs ?w" using f(4) assms(2) unfolding sleep_inv_def occupied_def goto_simps by (auto simp: fun_upd_apply)
  moreover have l: "ilock ?w = Some d \<longleftrightarrow> d < NUM_CARS \<and> holds_lock (pc ?w d)" for d
    by (rule ilock_same [OF assms(1), where p = "Leaving q (Suc i)"]) (use assms(3) in auto)
  ultimately show ?thesis
    by (intro road_move [OF assms(1,2) _ _ _ _ _ _ _ _ _ _ _ l, where p = "Leaving q (Suc i)"]) (use assms(3,4) f(2) q in auto)
qed

lemma road_push:
  assumes "road_inv qs w" "c < NUM_CARS" "pc w c = Leaving q i" "i < 4" "heads (xs w) ! i = Some h" "enter h i w = (r, w')"
  shows "road_inv qs (goto c (Leaving q (Suc i)) w')"
proof -
  have h: "at_head qs i h" using road_head(1) [OF assms(1,4), of h] assms(5) by simp
  note e = road_enter [OF assms(1,4) h assms(6)]
  have "occupied w'" if d: "d < NUM_CARS" "d \<notin> signalled w'" "pc w' d = Sleep i" for d
  proof -
    have "pc w d = Sleep i" "d \<notin> signalled w" using e d by auto
    moreover from this d(1) have "at_head qs i d" using assms(1) by (auto simp: road_inv_def front_inv_def)
    then have "d = h" using h by (auto simp: at_head_def)
    ultimately have "wants_turn (turn (xs w) h)" using assms(1) d(1) by (auto simp: road_inv_def sleep_inv_def)
    then show ?thesis using e by blast
  qed
  with e show ?thesis using assms(2-4) by (intro road_next_queue) auto
qed

lemma road_no_push:
  assumes "road_inv qs w" "c < NUM_CARS" "pc w c = Leaving q i" "i < 4" "heads (xs w) ! i = None"
  shows "road_inv qs (goto c (Leaving q (Suc i)) w)"
proof (rule road_next_queue [OF assms(1-4)])
  fix d assume "d < NUM_CARS" "pc w d = Sleep i"
  then have "at_head qs i d" using assms(1) by (auto simp: road_inv_def front_inv_def)
  then show "occupied w" using road_head(1) [OF assms(1,4), of d] assms(5) by simp
qed

lemma road_unlock:
  assumes "road_inv qs w" "c < NUM_CARS" "pc w c = Leaving q 4"
  shows "road_inv qs (goto c (Dequeue q) (w\<lparr>ilock := None\<rparr>))" (is "road_inv qs ?w")
proof -
  note f = road_facts [OF assms(1,2)]
  have q: "q < 4" using f(1) assms(3) by simp
  have occ: "occupied w" if d: "d < NUM_CARS" "d \<notin> signalled w" "pc w d = Sleep j" for d j
  proof -
    have j: "j < 4" using road_facts(1) [OF assms(1) d(1)] d(3) by simp
    from f(4) d have "occupied w \<or> (\<exists>e<NUM_CARS. \<exists>q' i'. pc w e = Leaving q' i' \<and> i' \<le> j)" by (simp add: sleep_inv_def)
    moreover have "i' = 4" if "e < NUM_CARS" "pc w e = Leaving q' i'" for e q' i'
      using no_other_holder [OF assms(1,2) _ that(1)] assms(3) that(2) by auto
    ultimately show ?thesis using j by fastforce
  qed
  have "sleep_inv qs ?w" using f(4) occ unfolding sleep_inv_def occupied_def goto_simps by (auto simp: fun_upd_apply)
  moreover have "\<not> holds_lock (pc ?w d)" if "d < NUM_CARS" for d
    using no_other_holder [OF assms(1,2) _ that] assms(3) by auto
  then have l: "ilock ?w = Some d \<longleftrightarrow> d < NUM_CARS \<and> holds_lock (pc ?w d)" for d by simp
  ultimately show ?thesis
    by (intro road_move [OF assms(1,2) _ _ _ _ _ _ _ _ _ _ _ l, where p = "Dequeue q"]) (use assms(3) f(2) q in auto)
qed

section \<open>Every step keeps the invariant\<close>

lemma car_step_ok:
  assumes "road_inv qs w" "c < NUM_CARS" "car_step c w w'"
  shows "\<exists>qs'. road_inv qs' w'"
  using assms(3)
proof cases
  case (choose q t)
  then show ?thesis using road_choose [OF assms(1,2)] by blast
next
  case (queue q s)
  then show ?thesis using road_queue(2) [OF assms(1,2)] by blast
next
  case (front q)
  then show ?thesis using road_front [OF assms(1,2)] by blast
next
  case (not_front q)
  then show ?thesis using road_not_front [OF assms(1,2)] by blast
next
  case (woken q)
  then show ?thesis using road_woken [OF assms(1,2)] by blast
next
  case (lock q)
  then show ?thesis using road_lock [OF assms(1,2), of q "signalled w"] by auto
next
  case (entered q r)
  then have "q < 4" "at_head qs q c" using road_facts(1) [OF assms(1,2)] assms(1,2) by (auto simp: road_inv_def front_inv_def)
  then show ?thesis using road_enter [OF assms(1) _ _ entered(3)] by blast
next
  case (blocked q w1)
  then show ?thesis using road_blocked [OF assms(1,2)] by blast
next
  case (relock q)
  then show ?thesis using road_lock [OF assms(1,2), of q "signalled w - {c}"] by auto
next
  case (cross q)
  then show ?thesis using road_cross [OF assms(1,2)] by blast
next
  case (leave q)
  then show ?thesis using road_leave [OF assms(1,2)] by blast
next
  case (push q i h r w1)
  then show ?thesis using road_push [OF assms(1,2)] by blast
next
  case (no_push q i)
  then show ?thesis using road_no_push [OF assms(1,2)] by blast
next
  case (unlock q)
  then show ?thesis using road_unlock [OF assms(1,2)] by blast
next
  case (dequeue q h s)
  then show ?thesis using road_dequeue_inv [OF assms(1,2)] by blast
qed

lemma create_cars_ok: "road_inv (\<lambda>q. []) create_cars"
  by (simp add: road_inv_def queue_inv_def front_inv_def own_inv_def owns_def lock_inv_def sleep_inv_def queues_def
      create_cars_def is_turning_def)

interpretation road: invariant_system road_start road_step road_ok
proof
  show "road_ok w" if "road_start w" for w using that create_cars_ok by (auto simp: road_start_def road_ok_def)
  fix w w' assume "road_ok w" "road_step w w'"
  then obtain qs c where "road_inv qs w" "c < NUM_CARS" "car_step c w w' \<or> spurious c w w'"
    by (auto simp: road_ok_def road_step_def)
  then show "road_ok w'" unfolding road_ok_def
    by (auto elim!: spurious.cases intro: exI [of _ qs] road_spurious dest: car_step_ok)
qed

section \<open>Progress\<close>

lemma aquire_never_blocks:
  assumes "road_inv qs w" "c < NUM_CARS" "pc w c = Try q"
  shows "locks_free c w"
proof -
  have "qlock w ! k = None" if "k < 4" "quadrant (xs w) ! k = int c" for k
  proof (cases "qlock w ! k")
    case (Some d)
    with that assms(1) have "is_crossing (pc w d)" "quadrant (xs w) ! k = int d" by (auto simp: road_inv_def lock_inv_def)
    with that(2) assms(3) show ?thesis by auto
  qed
  then show ?thesis by (simp add: locks_free_def)
qed

text \<open>A car that is not asleep and does not wait for the lock can go on.\<close>

lemma try_enabled:
  assumes "road_inv qs w" "c < NUM_CARS" "holds_lock (pc w c)"
  shows "\<exists>w'. car_step c w w'"
proof (cases "pc w c")
  case (Try q)
  obtain r w' where e: "enter c q w = (r, w')" by force
  show ?thesis
  proof (cases "wants_turn (turn (xs w) c)")
    case True
    then show ?thesis using Try e entered [of w c q r w'] blocked [of w c q w'] by (cases "r = 0") auto
  next
    case False
    then show ?thesis using cross [OF Try False aquire_never_blocks [OF assms(1,2) Try]] by blast
  qed
next
  case (Leaving q i)
  have i: "i \<le> 4" using road_facts(1) [OF assms(1,2)] Leaving by simp
  show ?thesis
  proof (cases "i = 4")
    case True
    with Leaving show ?thesis using unlock by blast
  next
    case False
    with i have "i < 4" by simp
    then show ?thesis using Leaving push [of w c q i] no_push [of w c q i]
      by (cases "heads (xs w) ! i"; cases "enter (the (heads (xs w) ! i)) i w") auto
  qed
qed (use assms(3) in auto)

fun can_block :: "car_pc \<Rightarrow> bool" where
  "can_block (Wait_queue q) = True"
| "can_block (Sleep q) = True"
| "can_block p = False"

lemma awake_enabled:
  assumes "road_inv qs w" "c < NUM_CARS" "ilock w = None" "\<not> can_block (pc w c) \<or> c \<in> signalled w"
  shows "\<exists>w'. car_step c w w'"
proof (cases "pc w c")
  case Drive
  then show ?thesis using choose [of w c 0 WLEFT] by (auto simp: wants_turn_def)
next
  case (To_queue q)
  then show ?thesis using road_queue(1) [OF assms(1,2)] queue by blast
next
  case (Check_queue q)
  then show ?thesis using front not_front by blast
next
  case (Wait_queue q)
  then show ?thesis using assms(4) woken by fastforce
next
  case (At_front q)
  then show ?thesis using assms(3) lock by blast
next
  case (Sleep q)
  then show ?thesis using assms(3,4) relock by fastforce
next
  case (Crossing q)
  then show ?thesis using assms(3) leave by blast
next
  case (Dequeue q)
  then show ?thesis using road_dequeue [OF assms(1,2)] dequeue by blast
qed (use try_enabled [OF assms(1,2)] in auto)

lemma road_progress:
  assumes "road_inv qs w"
  shows "\<exists>c<NUM_CARS. \<exists>w'. car_step c w w'"
proof (cases "ilock w")
  case (Some d)
  then have "d < NUM_CARS" "holds_lock (pc w d)" using assms by (auto simp: road_inv_def lock_inv_def)
  then show ?thesis using try_enabled [OF assms] by blast
next
  case None
  have nolock: "\<not> holds_lock (pc w d)" if "d < NUM_CARS" for d using road_facts(5) [OF assms that, of d] that None by simp
  show ?thesis
  proof (rule ccontr)
    assume "\<not> ?thesis"
    then have asleep: "can_block (pc w d)" "d \<notin> signalled w" if "d < NUM_CARS" for d
      using awake_enabled [OF assms that None] that by blast+
    have not_head: "\<not> at_head qs q d" if "d < NUM_CARS" "pc w d = Wait_queue q" for d q
      using asleep(2) [OF that(1)] that assms by (auto simp: road_inv_def sleep_inv_def)
    have head: "is_turning (turn (xs w) d) \<Longrightarrow> False" if d: "d < NUM_CARS" "place (pc w d) = Some q" "at_head qs q d" for d q
    proof -
      obtain q' where "pc w d = Sleep q'" using asleep(1) [OF d(1)] not_head [OF d(1), of q] d(2,3) by (cases "pc w d") auto
      then have "wants_turn (turn (xs w) d)" using asleep(2) [OF d(1)] d(1) assms by (auto simp: road_inv_def sleep_inv_def)
      then show "is_turning (turn (xs w) d) \<Longrightarrow> False" using turning_wants by blast
    qed
    have "occupied w"
    proof -
      obtain q where q: "place (pc w 0) = Some q" "q < 4" using asleep(1) [of 0] road_facts(1) [OF assms, of 0] by (cases "pc w 0") auto
      then have "0 \<in> set (qs q)" using assms by (simp add: road_inv_def queue_inv_def)
      then have "at_head qs q (hd (qs q))" by (auto simp: at_head_def)
      from road_head(2) [OF assms q(2) this] this obtain d where d: "d < NUM_CARS" "place (pc w d) = Some q" "at_head qs q d" by blast
      then obtain q' where "pc w d = Sleep q'" using asleep(1) [OF d(1)] not_head [OF d(1), of q] by (cases "pc w d") auto
      then have "occupied w \<or> (\<exists>e<NUM_CARS. \<exists>a b. pc w e = Leaving a b \<and> b \<le> q')"
        using assms d(1) asleep(2) [OF d(1)] by (simp add: road_inv_def sleep_inv_def)
      moreover have "pc w e \<noteq> Leaving a b" if "e < NUM_CARS" for e a b using nolock [OF that] by auto
      ultimately show ?thesis by blast
    qed
    then obtain k where k: "k < 4" "quadrant (xs w) ! k \<noteq> -1" by (auto simp: occupied_def)
    then obtain d where d: "d < NUM_CARS" "quadrant (xs w) ! k = int d" using assms by (auto simp: road_inv_def own_inv_def)
    then have "owns w d k" using assms k(1) by (auto simp: road_inv_def own_inv_def)
    then obtain q where t: "is_turning (turn (xs w) d)" "place (pc w d) = Some q" by (auto simp: owns_def)
    then have "at_head qs q d" using assms d(1) by (auto simp: road_inv_def front_inv_def)
    from head [OF d(1) t(2) this t(1)] show False .
  qed
qed

section \<open>Properties\<close>

text \<open>C2: crossing is safe. In every run of the cars, a car that is in the intersection owns exactly the
  quadrants of its turn and holds exactly their locks, and the turns of two cars that are in the
  intersection at the same time have no quadrant in common.\<close>

theorem crossing_safe:
  assumes "reach road_start road_step w" "c < NUM_CARS" "pc w c = Crossing q"
  shows "is_turning (turn (xs w) c) \<and>
    (\<forall>k<4. (quadrant (xs w) ! k = int c) = (k \<in> set (route (turn (xs w) c - 3) q)) \<and>
           (qlock w ! k = Some c) = (k \<in> set (route (turn (xs w) c - 3) q))) \<and>
    (\<forall>d<NUM_CARS. \<forall>q'. d \<noteq> c \<and> pc w d = Crossing q' \<longrightarrow>
       set (route (turn (xs w) c - 3) q) \<inter> set (route (turn (xs w) d - 3) q') = {})"
proof -
  from road.reach_inv [OF assms(1)] obtain qs where inv: "road_inv qs w" by (auto simp: road_ok_def)
  have t: "is_turning (turn (xs w) d) \<and> q' < 4" if "d < NUM_CARS" "pc w d = Crossing q'" for d q'
    using road_facts(1,2) [OF inv that(1)] that(2) by simp
  have o: "owns w d k \<longleftrightarrow> k \<in> set (route (turn (xs w) d - 3) q')" if "d < NUM_CARS" "pc w d = Crossing q'" for d q' k
    using t [OF that] that by (simp add: owns_def)
  have oi: "own_inv w" and li: "lock_inv w" using inv by (simp_all add: road_inv_def)
  have quad: "quadrant (xs w) ! k = int c \<longleftrightarrow> k \<in> set (route (turn (xs w) c - 3) q)" if "k < 4" for k
    using that oi o [OF assms(2,3)] assms(2) by (simp add: own_inv_def)
  have lt: "k < 4" if "d < NUM_CARS" "pc w d = Crossing q'" "k \<in> set (route (turn (xs w) d - 3) q')" for d q' k
    using that(3) t [OF that(1,2)] turning_wants route_ok by (meson lessThan_iff subsetD)
  have "set (route (turn (xs w) c - 3) q) \<inter> set (route (turn (xs w) d - 3) q') = {}"
    if d: "d < NUM_CARS" "d \<noteq> c" "pc w d = Crossing q'" for d q'
  proof (rule ccontr)
    assume "\<not> ?thesis"
    then obtain k where k: "k \<in> set (route (turn (xs w) c - 3) q)" "k \<in> set (route (turn (xs w) d - 3) q')" by blast
    then have "owns w c k" "owns w d k" using o [OF assms(2,3)] o [OF d(1,3)] by simp_all
    from owns_one [OF oi assms(2) d(1) lt [OF assms(2,3) k(1)] this] d(2) show False by simp
  qed
  moreover have "qlock w ! k = Some c \<longleftrightarrow> k \<in> set (route (turn (xs w) c - 3) q)" if "k < 4" for k
    using that li quad [OF that] assms(2,3) by (simp add: lock_inv_def)
  ultimately show ?thesis using t [OF assms(2,3)] quad by blast
qed

text \<open>C3: the cars never block each other for ever. In every state that can be reached some car can go on
  without a spurious wake-up: there is no deadlock and no lost wake-up, and a car that may cross never
  has to wait for a quadrant lock.\<close>

theorem cars_deadlock_free:
  assumes "reach road_start road_step w"
  shows "(\<exists>c<NUM_CARS. \<exists>w'. car_step c w w') \<and> (\<forall>c<NUM_CARS. \<forall>q. pc w c = Try q \<longrightarrow> locks_free c w)"
proof -
  from road.reach_inv [OF assms] obtain qs where inv: "road_inv qs w" by (auto simp: road_ok_def)
  from road_progress [OF inv] aquire_never_blocks [OF inv] show ?thesis by blast
qed

theorem cars_deadlock_free_witness: "\<exists>c<NUM_CARS. \<exists>w'. car_step c create_cars w'"
  using cars_deadlock_free [OF reach_init [of road_start create_cars]] by (simp add: road_start_def)

lemma road_stepI: "reach road_start road_step w \<Longrightarrow> car_step 0 w w' \<Longrightarrow> reach road_start road_step w'"
  by (rule reach_step) (auto simp: road_step_def intro!: exI [of _ 0])

text \<open>A first car turns right from the north.\<close>

lemma first_car_crosses: "\<exists>w. reach road_start road_step w \<and> pc w 0 = Crossing from_N"
proof -
  let ?w1 = "goto 0 (To_queue 0) (create_cars\<lparr>xs := (xs create_cars)\<lparr>turn := (turn (xs create_cars))(0 := WRIGHT)\<rparr>\<rparr>)"
  have 0: "reach road_start road_step create_cars" by (rule reach_init) (simp add: road_start_def)
  have 1: "reach road_start road_step ?w1"
    by (rule road_stepI [OF 0], rule choose) (simp_all add: create_cars_def wants_turn_def)
  have q: "queue_car 0 0 (xs ?w1) = Some (say (''Car '' @ dec (int 0) @ '' is approaching from the '' @ convert_direction 0 @ ''.'')
      ((xs ?w1)\<lparr>heads := [Some 0, None, None, None]\<rparr>))" (is "_ = Some ?s2")
    by (simp add: queue_car_def enqueue_def create_cars_def numeral_eq_Suc c_simps)
  let ?w2 = "goto 0 (Check_queue 0) (?w1\<lparr>xs := ?s2\<rparr>)"
  have 2: "reach road_start road_step ?w2" by (rule road_stepI [OF 1], rule queue [OF _ q]) simp
  obtain str where 3: "reach road_start road_step (goto 0 (At_front 0) (?w2\<lparr>xs := say str (xs ?w2)\<rparr>))" (is "reach _ _ ?w3")
    using road_stepI [OF 2 front [of ?w2 0 0]] by auto
  let ?w4 = "goto 0 (Try 0) (?w3\<lparr>ilock := Some 0\<rparr>)"
  have 4: "reach road_start road_step ?w4"
    by (rule road_stepI [OF 3], rule lock) (simp_all add: create_cars_def)
  have t4: "turn (xs ?w4) 0 = WRIGHT" "quadrant (xs ?w4) = [-1, -1, -1, -1]"
    by (simp_all add: create_cars_def numeral_eq_Suc)
  have "\<forall>k\<in>set (route WRIGHT 0). quadrant (xs ?w4) ! k = -1" unfolding t4 by (simp add: route_def)
  with enter_free [of "xs ?w4" 0 0] t4 obtain s5 where s5: "enter_intersection 0 0 (xs ?w4) = (1, s5)"
    "turn s5 = (turn (xs ?w4))(0 := turning WRIGHT)" by (auto simp: wants_turn_def)
  then have e: "enter 0 0 ?w4 = (1, ?w4\<lparr>xs := s5\<rparr>)" by (simp add: enter_def signal_def)
  have 5: "reach road_start road_step (?w4\<lparr>xs := s5\<rparr>)"
    by (rule road_stepI [OF 4], rule entered [OF _ _ e]) (use t4 in \<open>simp_all add: wants_turn_def\<close>)
  have f: "locks_free 0 (?w4\<lparr>xs := s5\<rparr>)" by (auto simp: locks_free_def create_cars_def numeral_eq_Suc less_Suc_eq)
  have "car_step 0 (?w4\<lparr>xs := s5\<rparr>) (goto 0 (Crossing 0) ((aquire_locks 0 (?w4\<lparr>xs := s5\<rparr>))\<lparr>ilock := None\<rparr>))"
    by (rule cross [OF _ _ f]) (simp_all add: s5(2) turning_def wants_turn_def)
  from road_stepI [OF 5 this] show ?thesis by (intro exI conjI) auto
qed

theorem crossing_safe_witness: "\<exists>w. reach road_start road_step w \<and> pc w 0 = Crossing from_N \<and> is_turning (turn (xs w) 0)"
  using first_car_crosses crossing_safe [where c = 0 and q = from_N] by auto

end
