(* ===== verification/Department.thy ===== *)
theory Department
  imports Shell
begin

text \<open>
  Project3/PiratesVNinjas/department.c, and the visits and the bill of human.c and pvn.c: chairs and
  their statistics, whose turn it is in the department, what a visit costs, and the sums that are
  printed at the end. A human is a number, a pointer to a chair is an option. The time is an argument
  (\<open>time(NULL)\<close>). The averages pvn.c prints are floating-point quotients of the sums modelled here.
\<close>

section \<open>The department\<close>

abbreviation PIRATE :: int where "PIRATE \<equiv> 0"
abbreviation NINJA :: int where "NINJA \<equiv> 1"
abbreviation TO_PIRATE :: int where "TO_PIRATE \<equiv> 2"
abbreviation TO_NINJA :: int where "TO_NINJA \<equiv> 3"
abbreviation FREE_WAIT :: int where "FREE_WAIT \<equiv> 30"

record chair =
  ch_hum :: "nat option"
  ch_last :: int
  ch_occupied :: int
  ch_free :: int

record department =
  d_alignment :: int
  d_chairs :: "chair option list"

definition create_chair :: "int \<Rightarrow> chair" where
  "create_chair now = \<lparr>ch_hum = None, ch_last = now, ch_occupied = 0, ch_free = 0\<rparr>"

definition init_department :: "int \<Rightarrow> int \<Rightarrow> int \<Rightarrow> department" where
  "init_department now alignment chairs =
     \<lparr>d_alignment = alignment,
      d_chairs = map (\<lambda>i. if int i < chairs then Some (create_chair now) else None) [0..<4]\<rparr>"

definition update_chair :: "int \<Rightarrow> int \<Rightarrow> chair \<Rightarrow> chair" where
  "update_chair now visitTime c =
     c\<lparr>ch_free := ch_free c + (now - ch_last c), ch_occupied := ch_occupied c + visitTime, ch_last := now + visitTime\<rparr>"

text \<open>The chair at a place is there and free, or there and taken.\<close>

definition free_at :: "department \<Rightarrow> nat \<Rightarrow> bool" where
  "free_at d i = (case d_chairs d ! i of None \<Rightarrow> False | Some c \<Rightarrow> ch_hum c = None)"

definition taken_at :: "department \<Rightarrow> nat \<Rightarrow> bool" where
  "taken_at d i = (case d_chairs d ! i of None \<Rightarrow> False | Some c \<Rightarrow> ch_hum c \<noteq> None)"

definition chair_free :: "department \<Rightarrow> int" where
  "chair_free d = (case first_index (free_at d) 4 of Some i \<Rightarrow> 1 | None \<Rightarrow> 0)"

definition all_empty :: "department \<Rightarrow> int" where
  "all_empty d = (case first_index (taken_at d) 4 of Some i \<Rightarrow> 0 | None \<Rightarrow> 1)"

definition team_alignment :: "department \<Rightarrow> int" where
  "team_alignment d =
     (if d_alignment d = PIRATE \<or> d_alignment d = TO_PIRATE then PIRATE
      else if d_alignment d = NINJA \<or> d_alignment d = TO_NINJA then NINJA else -1)"

section \<open>Visits and the bill\<close>

record visit =
  goldOwed :: int
  waitTime :: int
  visitTime :: int

definition create_visit :: "int \<Rightarrow> int \<Rightarrow> visit" where
  "create_visit wait duration =
     \<lparr>goldOwed = (if wait \<le> FREE_WAIT then duration else 0), waitTime = wait, visitTime = duration\<rparr>"

record bill =
  b_out :: "string list"
  grossIncome :: int
  totalWait :: int
  totalVisits :: int

text \<open>The loop over the visits of one human; the last component is \<open>totalPrice\<close>.\<close>

fun bill_visits :: "visit list \<Rightarrow> bill \<Rightarrow> int \<Rightarrow> bill \<times> int" where
  "bill_visits [] b totalPrice = (b, totalPrice)"
| "bill_visits (cur # rest) b totalPrice =
     bill_visits rest
       (b\<lparr>totalVisits := totalVisits b + 1, totalWait := totalWait b + waitTime cur,
          b_out := b_out b @ [line (tab # ''Dur: '' @ dec (visitTime cur) @ [tab] @ ''Wait: '' @ dec (waitTime cur))]\<rparr>)
       (totalPrice + goldOwed cur)"

definition bill_human :: "string \<Rightarrow> nat \<Rightarrow> visit list \<Rightarrow> bill \<Rightarrow> bill" where
  "bill_human team i vs b =
     (let b = b\<lparr>b_out := b_out b @ [line (team @ '' ['' @ dec (int i) @ ''] :'')]\<rparr>;
          (b, totalPrice) = bill_visits vs b 0;
          b = b\<lparr>b_out := b_out b @ [line (tab # ''Total Gold Owed: '' @ dec totalPrice)]\<rparr>
      in b\<lparr>grossIncome := grossIncome b + totalPrice\<rparr>)"

text \<open>The loop over a team: the entries of the array are pointers, and NULL is dereferenced.\<close>

fun bill_team :: "string \<Rightarrow> nat \<Rightarrow> visit list option list \<Rightarrow> bill \<Rightarrow> bill option" where
  "bill_team team i [] b = Some b"
| "bill_team team i (h # hs) b = do { vs \<leftarrow> h; bill_team team (Suc i) hs (bill_human team i vs b) }"

definition say_bill :: "string \<Rightarrow> bill \<Rightarrow> bill" where
  "say_bill str b = b\<lparr>b_out := b_out b @ [str]\<rparr>"

definition bill_all :: "visit list option list \<Rightarrow> visit list option list \<Rightarrow> bill option" where
  "bill_all pirates ninjas = do {
     let b = \<lparr>b_out = [], grossIncome = 0, totalWait = 0, totalVisits = 0\<rparr>;
     b \<leftarrow> bill_team ''Pirate'' 0 pirates (say_bill (line ''-- Pirates --'' @ [newline]) b);
     let b = say_bill [newline] b;
     b \<leftarrow> bill_team ''Ninja'' 0 ninjas (say_bill (line ''-- Ninjas --'' @ [newline]) b);
     Some (say_bill [newline] b) }"

definition profits :: "bill \<Rightarrow> int \<Rightarrow> int" where
  "profits b numChairs = grossIncome b - 5 * numChairs"

section \<open>The arrays of humans\<close>

text \<open>The loop that creates the humans. When there is no ninja \<open>i\<close> it clears \<open>pirates[i]\<close>, not
  \<open>ninjas[i]\<close>.\<close>

definition create_step :: "int \<Rightarrow> int \<Rightarrow> nat \<Rightarrow> nat option list \<times> nat option list \<Rightarrow> nat option list \<times> nat option list" where
  "create_step numPirates numNinjas i st =
     (let (pirates, ninjas) = st;
          pirates = (if int i < numPirates then pirates[i := Some i] else pirates[i := None])
      in if int i < numNinjas then (pirates, ninjas[i := Some (i + 50)]) else (pirates[i := None], ninjas))"

definition create_all :: "int \<Rightarrow> int \<Rightarrow> nat option list \<times> nat option list" where
  "create_all numPirates numNinjas = fold (create_step numPirates numNinjas) [0..<50] (replicate 50 None, replicate 50 None)"

text \<open>The bill as pvn.c computes it from the arrays, given the visits of every human.\<close>

definition final_bill :: "int \<Rightarrow> int \<Rightarrow> (nat \<Rightarrow> visit list) \<Rightarrow> bill option" where
  "final_bill numPirates numNinjas visits =
     (let (pirates, ninjas) = create_all numPirates numNinjas
      in bill_all (map (map_option visits) (take (nat numPirates) pirates)) (map (map_option visits) (take (nat numNinjas) ninjas)))"

text \<open>The statistics that are printed of the chairs; \<open>None\<close> if one of them is NULL.\<close>

definition say_chair :: "nat \<Rightarrow> chair \<Rightarrow> string" where
  "say_chair i c = line (''Team ['' @ dec (int i) @ ''] : Busy: '' @ dec (ch_occupied c) @ [tab] @ ''Free: '' @ dec (ch_free c))"

definition say_chairs :: "int \<Rightarrow> department \<Rightarrow> string list option" where
  "say_chairs chairs d = those (map (\<lambda>i. map_option (say_chair i) (d_chairs d ! i)) [0..<min (nat chairs) 4])"

section \<open>Arguments\<close>

record config =
  numChairs :: int
  numPirates :: int
  numNinjas :: int
  avgPCostume :: int
  avgNCostume :: int
  avgPAdventure :: int
  avgNAdventure :: int

text \<open>The checks of the arguments, with what is printed: \<open>Inl\<close> is \<open>return -1\<close>.\<close>

definition pvn_args :: "string list \<Rightarrow> (string + string list \<times> config) option" where
  "pvn_args args =
     (if length args \<noteq> 8 then Some (Inl (line ''Improper number of arguments.''))
      else do {
        chairs \<leftarrow> atoi (args ! 1);
        if chairs < 2 \<or> chairs > 4 then Some (Inl (line ''There may only be 2-4 costume teams.''))
        else do {
          pirates \<leftarrow> atoi (args ! 2);
          if pirates < 10 \<or> pirates > 50 then Some (Inl (line ''There may only be 10-50 pirates.''))
          else do {
            ninjas \<leftarrow> atoi (args ! 3);
            if ninjas < 10 \<or> ninjas > 50 then Some (Inl (line ''There may only be 10-50 ninjas.''))
            else do {
              pc \<leftarrow> atoi (args ! 4);
              nc \<leftarrow> atoi (args ! 5);
              if pc < 0 \<or> nc < 0 then Some (Inl (line ''Average costume time must be positive.''))
              else do {
                pa \<leftarrow> atoi (args ! 6);
                na \<leftarrow> atoi (args ! 7);
                Some (Inr (if pa < 0 \<or> na < 0 then [line ''Average arrival time must be positive.''] else [],
                  \<lparr>numChairs = chairs, numPirates = pirates, numNinjas = ninjas, avgPCostume = pc, avgNCostume = nc,
                   avgPAdventure = pa, avgNAdventure = na\<rparr>)) } } } } })"

section \<open>Lemmas\<close>

lemma bill_visits_sums:
  assumes "bill_visits vs b p = (b', p')"
  shows "totalVisits b' = totalVisits b + int (length vs) \<and> totalWait b' = totalWait b + sum_list (map waitTime vs) \<and>
    p' = p + sum_list (map goldOwed vs) \<and> grossIncome b' = grossIncome b"
  using assms by (induction vs b p rule: bill_visits.induct) auto

lemma bill_human_sums:
  "totalVisits (bill_human team i vs b) = totalVisits b + int (length vs)"
  "totalWait (bill_human team i vs b) = totalWait b + sum_list (map waitTime vs)"
  "grossIncome (bill_human team i vs b) = grossIncome b + sum_list (map goldOwed vs)"
proof -
  let ?b = "b\<lparr>b_out := b_out b @ [line (team @ '' ['' @ dec (int i) @ ''] :'')]\<rparr>"
  obtain b' p' where "bill_visits vs ?b 0 = (b', p')" by force
  with bill_visits_sums [OF this] show
    "totalVisits (bill_human team i vs b) = totalVisits b + int (length vs)"
    "totalWait (bill_human team i vs b) = totalWait b + sum_list (map waitTime vs)"
    "grossIncome (bill_human team i vs b) = grossIncome b + sum_list (map goldOwed vs)"
    by (simp_all add: bill_human_def Let_def)
qed

text \<open>A team without a NULL is billed completely; a NULL is dereferenced.\<close>

lemma bill_team_sums:
  "\<exists>b'. bill_team team i (map Some vss) b = Some b' \<and>
     totalVisits b' = totalVisits b + int (length (concat vss)) \<and>
     totalWait b' = totalWait b + sum_list (map waitTime (concat vss)) \<and>
     grossIncome b' = grossIncome b + sum_list (map goldOwed (concat vss))"
proof (induction vss arbitrary: i b)
  case (Cons vs vss)
  show ?case using Cons.IH [of "Suc i" "bill_human team i vs b"] by (auto simp: bill_human_sums)
qed simp

lemma bill_team_None: "None \<in> set hs \<Longrightarrow> bill_team team i hs b = None"
proof (induction hs arbitrary: i b)
  case (Cons h hs)
  then show ?case by (cases h) auto
qed simp

lemma create_prefix:
  "n \<le> 50 \<Longrightarrow> fold (create_step np nn) [0..<n] (replicate 50 None, replicate 50 None) =
    (map (\<lambda>i. if i < n \<and> int i < np \<and> int i < nn then Some i else None) [0..<50],
     map (\<lambda>i. if i < n \<and> int i < nn then Some (i + 50) else None) [0..<50])"
proof (induction n)
  case 0
  show ?case by (simp add: list_eq_iff_nth_eq)
next
  case (Suc n)
  let ?P = "\<lambda>n. map (\<lambda>i. if i < n \<and> int i < np \<and> int i < nn then Some i else None) [0..<50]"
  let ?N = "\<lambda>n. map (\<lambda>i. if i < n \<and> int i < nn then Some (i + 50) else None) [0..<50]"
  have "create_step np nn n (?P n, ?N n) = (?P (Suc n), ?N (Suc n))" using Suc.prems
    by (auto simp: create_step_def Let_def list_eq_iff_nth_eq nth_list_update less_Suc_eq)
  moreover have "fold (create_step np nn) [0..<n] (replicate 50 None, replicate 50 None) = (?P n, ?N n)"
    using Suc by simp
  ultimately show ?case by (simp only: upt_Suc_append le0 fold_append fold.simps comp_apply id_apply)
qed

lemma create_all_eq:
  "create_all np nn =
    (map (\<lambda>i. if int i < np \<and> int i < nn then Some i else None) [0..<50],
     map (\<lambda>i. if int i < nn then Some (i + 50) else None) [0..<50])"
  unfolding create_all_def using create_prefix [of 50 np nn] by (simp cong: map_cong if_cong)

section \<open>Properties\<close>

text \<open>C31: the bill is complete, but only if there are at least as many ninjas as pirates. Then the sums
  are those over all visits of all pirates and all ninjas. If there are more pirates than ninjas, the
  loop that creates the humans has overwritten the pointers to the pirates that have no ninja of the
  same number, and the bill dereferences NULL.\<close>

theorem final_bill_correct:
  assumes "0 \<le> np" "np \<le> 50" "0 \<le> nn" "nn \<le> 50"
  shows "if np \<le> nn
    then \<exists>b. final_bill np nn visits = Some b \<and>
      (let vs = concat (map visits ([0..<nat np] @ [50..<50 + nat nn])) in
        totalVisits b = int (length vs) \<and> totalWait b = sum_list (map waitTime vs) \<and>
        grossIncome b = sum_list (map goldOwed vs) \<and> profits b chairs = sum_list (map goldOwed vs) - 5 * chairs)
    else final_bill np nn visits = None"
proof (cases "np \<le> nn")
  case True
  have p: "map (map_option visits) (take (nat np) (fst (create_all np nn))) = map Some (map visits [0..<nat np])"
    using True assms by (auto simp: create_all_eq list_eq_iff_nth_eq zless_nat_eq_int_zless)
  have n: "map (map_option visits) (take (nat nn) (snd (create_all np nn))) = map Some (map visits [50..<50 + nat nn])"
    using assms by (auto simp: create_all_eq list_eq_iff_nth_eq zless_nat_eq_int_zless add.commute)
  let ?b0 = "say_bill (line ''-- Pirates --'' @ [newline]) \<lparr>b_out = [], grossIncome = 0, totalWait = 0, totalVisits = 0\<rparr>"
  obtain b1 where b1: "bill_team ''Pirate'' 0 (map Some (map visits [0..<nat np])) ?b0 = Some b1"
    "totalVisits b1 = int (length (concat (map visits [0..<nat np])))"
    "totalWait b1 = sum_list (map waitTime (concat (map visits [0..<nat np])))"
    "grossIncome b1 = sum_list (map goldOwed (concat (map visits [0..<nat np])))"
    using bill_team_sums [of "''Pirate''" 0 "map visits [0..<nat np]" ?b0] by (auto simp: say_bill_def)
  let ?b1 = "say_bill (line ''-- Ninjas --'' @ [newline]) (say_bill [newline] b1)"
  obtain b2 where b2: "bill_team ''Ninja'' 0 (map Some (map visits [50..<50 + nat nn])) ?b1 = Some b2"
    "totalVisits b2 = totalVisits b1 + int (length (concat (map visits [50..<50 + nat nn])))"
    "totalWait b2 = totalWait b1 + sum_list (map waitTime (concat (map visits [50..<50 + nat nn])))"
    "grossIncome b2 = grossIncome b1 + sum_list (map goldOwed (concat (map visits [50..<50 + nat nn])))"
    using bill_team_sums [of "''Ninja''" 0 "map visits [50..<50 + nat nn]" ?b1] by (auto simp: say_bill_def)
  have "final_bill np nn visits = Some (say_bill [newline] b2)"
    using p n b1(1) b2(1) by (cases "create_all np nn") (simp add: final_bill_def bill_all_def Let_def)
  then show ?thesis using True b1 b2 by (simp add: Let_def profits_def say_bill_def)
next
  case False
  have "None \<in> set (map (map_option visits) (take (nat np) (fst (create_all np nn))))"
    using False assms unfolding in_set_conv_nth by (intro exI [of _ "nat nn"]) (simp add: create_all_eq)
  with False show ?thesis by (cases "create_all np nn") (simp add: final_bill_def bill_all_def bill_team_None Let_def)
qed

theorem final_bill_correct_witness:
  "(\<exists>b. final_bill 1 2 (\<lambda>h. [create_visit 3 7]) = Some b \<and> grossIncome b = 21) \<and> final_bill 2 1 (\<lambda>h. []) = None"
  using final_bill_correct [of 1 2 "\<lambda>h. [create_visit 3 7]" 0] final_bill_correct [of 2 1 "\<lambda>h. []" 0]
  by (auto simp: Let_def create_visit_def upt_rec)

text \<open>The statistics of a chair add up. After any sequence of visits, each with the time it begins and
  its duration, the busy time is the sum of the durations, and busy and free time together are the
  time from the creation of the chair to the end of the last visit.\<close>

theorem chair_statistics:
  "let c = fold (\<lambda>(now, duration). update_chair now duration) visits (create_chair t0) in
     ch_occupied c = sum_list (map snd visits) \<and> ch_occupied c + ch_free c = ch_last c - t0 \<and>
     ch_last c = (if visits = [] then t0 else fst (last visits) + snd (last visits))"
  by (induction visits rule: rev_induct) (auto simp: Let_def create_chair_def update_chair_def)

text \<open>Every chair that was made has its line.\<close>

lemma those_map_Some: "\<forall>x\<in>set xs. f x \<noteq> None \<Longrightarrow> those (map f xs) = Some (map (\<lambda>x. the (f x)) xs)"
  by (induction xs) auto

lemma say_chairs_defined:
  assumes "\<forall>i<min (nat chairs) 4. d_chairs d ! i \<noteq> None"
  shows "say_chairs chairs d = Some (map (\<lambda>i. say_chair i (the (d_chairs d ! i))) [0..<min (nat chairs) 4])"
proof -
  have "say_chairs chairs d = Some (map (\<lambda>i. the (map_option (say_chair i) (d_chairs d ! i))) [0..<min (nat chairs) 4])"
    unfolding say_chairs_def using assms by (intro those_map_Some) auto
  also have "\<dots> = Some (map (\<lambda>i. say_chair i (the (d_chairs d ! i))) [0..<min (nat chairs) 4])"
    using assms by (auto intro!: option.map_sel)
  finally show ?thesis .
qed

lemma say_chairs_new: "say_chairs chairs (init_department now al chairs) \<noteq> None"
proof -
  have "\<forall>i<min (nat chairs) 4. d_chairs (init_department now al chairs) ! i \<noteq> None" by (auto simp: init_department_def)
  from say_chairs_defined [OF this] show ?thesis by simp
qed

text \<open>The arguments that are accepted. The program starts only with two to four chairs, ten to fifty
  pirates and ninjas and costume times that are not negative, the ranges its arrays need; negative
  arrival times are reported and accepted.\<close>

theorem pvn_args_accepted:
  assumes "pvn_args args = Some (Inr (msgs, c))"
  shows "length args = 8 \<and> 2 \<le> numChairs c \<and> numChairs c \<le> 4 \<and> 10 \<le> numPirates c \<and> numPirates c \<le> 50 \<and>
    10 \<le> numNinjas c \<and> numNinjas c \<le> 50 \<and> 0 \<le> avgPCostume c \<and> 0 \<le> avgNCostume c \<and>
    (msgs \<noteq> [] \<longleftrightarrow> avgPAdventure c < 0 \<or> avgNAdventure c < 0)"
  using assms by (auto simp: pvn_args_def bind_eq_Some_conv split: if_splits)

theorem pvn_args_accepted_witness:
  "\<exists>c. pvn_args [''pvn'', ''2'', ''10'', ''10'', ''1'', ''1'', ''-5'', ''1''] =
     Some (Inr ([line ''Average arrival time must be positive.''], c)) \<and> avgPAdventure c < 0"
proof -
  have "pvn_args [''pvn'', ''2'', ''10'', ''10'', ''1'', ''1'', ''-5'', ''1''] =
     Some (Inr ([line ''Average arrival time must be positive.''],
       \<lparr>numChairs = 2, numPirates = 10, numNinjas = 10, avgPCostume = 1, avgNCostume = 1, avgPAdventure = -5, avgNAdventure = 1\<rparr>))"
    by code_simp
  with pvn_args_accepted [OF this] show ?thesis by simp
qed

end
