(* ===== verification/Humans.thy ===== *)
theory Humans
  imports CarQueue Department
begin

text \<open>
  Project3/PiratesVNinjas/human.c: pirates and ninjas that visit the department. The two queues are
  linked lists through the \<open>next\<close> fields, as in the queues of cars. A run of the program is a sequence
  of events of its threads; an event goes from one blocking call of \<open>human_main\<close> to the next. The
  semaphores of the department and of the queues only protect sections without a blocking call (a
  queue semaphore taken inside the department's is given back at once), so these sections are events
  (the lengths of the queues are also read without their semaphores; here they are read between events);
  the semaphore of each human counts and is part of the state. The time and the lengths of visits
  are part of the events. The pirates have the numbers below 50 and the ninjas those from 50 on, as
  pvn.c creates them. \<open>create_human\<close> leaves the list of visits uninitialised; it is taken to be empty
  (NULL), which is what the program relies on.
\<close>

section \<open>State\<close>

abbreviation SWAP_BUFFER :: int where "SWAP_BUFFER \<equiv> 4"
abbreviation SWAP_TIMEOUT :: int where "SWAP_TIMEOUT \<equiv> 20"

text \<open>Where a human is: at the head of the loop; away on an adventure; waiting on its semaphore at the
  door; about to look at the department; in a chair; out again; finished.\<close>

datatype human_pc = Home | Away | Door | Look | Costume | Out | Gone

record pvn =
  hqueue :: "nat option list"
  hnext :: "nat \<Rightarrow> nat option"
  since :: "nat \<Rightarrow> int"
  hsem :: "nat \<Rightarrow> nat"
  willReturn :: "nat \<Rightarrow> int"
  visits :: "nat \<Rightarrow> visit list"
  dept :: department
  visitsLeft :: int
  fought :: bool
  hpc :: "nat \<Rightarrow> human_pc"

definition alignment :: "nat \<Rightarrow> int" where
  "alignment h = (if h < 50 then PIRATE else NINJA)"

definition other_alignment :: "nat \<Rightarrow> int" where
  "other_alignment h = (if alignment h = PIRATE then NINJA else if alignment h = NINJA then PIRATE else -1)"

definition current_wait_time :: "int \<Rightarrow> nat \<Rightarrow> pvn \<Rightarrow> int" where
  "current_wait_time now h s = now - since s h"

section \<open>The queues\<close>

definition queue_human :: "int \<Rightarrow> nat \<Rightarrow> pvn \<Rightarrow> pvn option" where
  "queue_human now h s = do {
     let s = s\<lparr>since := (since s)(h := now)\<rparr>;
     q \<leftarrow> arr_get (hqueue s) (alignment h);
     case q of
       None \<Rightarrow> Some (s\<lparr>hqueue := (hqueue s)[nat (alignment h) := Some h]\<rparr>)
     | Some g \<Rightarrow> do { cur \<leftarrow> last_car (hnext s) g; Some (s\<lparr>hnext := (hnext s)(cur := Some h)\<rparr>) } }"

definition sem_post :: "nat \<Rightarrow> pvn \<Rightarrow> pvn" where
  "sem_post h s = s\<lparr>hsem := (hsem s)(h := Suc (hsem s h))\<rparr>"

text \<open>Wake the human at the head of a queue, if there is one.\<close>

definition post_head :: "int \<Rightarrow> pvn \<Rightarrow> pvn option" where
  "post_head a s = do {
     q \<leftarrow> arr_get (hqueue s) a;
     Some (case q of None \<Rightarrow> s | Some g \<Rightarrow> sem_post g s) }"

definition dequeue_human :: "int \<Rightarrow> pvn \<Rightarrow> pvn option" where
  "dequeue_human a s = do {
     q \<leftarrow> arr_get (hqueue s) a;
     let s = (case q of None \<Rightarrow> s
       | Some tmp \<Rightarrow> s\<lparr>hqueue := (hqueue s)[nat a := hnext s tmp], hnext := (hnext s)(tmp := None)\<rparr>);
     post_head a s }"

partial_function (option) count_from :: "(nat \<Rightarrow> nat option) \<Rightarrow> nat \<Rightarrow> int option" where
  "count_from nx cur = (case nx cur of None \<Rightarrow> Some 1 | Some c \<Rightarrow> do { n \<leftarrow> count_from nx c; Some (n + 1) })"

declare last_car.simps [code]
declare count_from.simps [code]

definition queue_count :: "int \<Rightarrow> pvn \<Rightarrow> int option" where
  "queue_count a s = do {
     q \<leftarrow> arr_get (hqueue s) a;
     case q of None \<Rightarrow> Some 0 | Some g \<Rightarrow> count_from (hnext s) g }"

section \<open>The department\<close>

text \<open>The condition on which the department begins to change hands, and the change.\<close>

definition should_swap :: "int \<Rightarrow> nat \<Rightarrow> pvn \<Rightarrow> bool option" where
  "should_swap now h s =
     (if d_alignment (dept s) = PIRATE \<or> d_alignment (dept s) = NINJA then do {
        q \<leftarrow> arr_get (hqueue s) (other_alignment h);
        case q of
          None \<Rightarrow> Some False
        | Some g \<Rightarrow> do {
            mine \<leftarrow> queue_count (alignment h) s;
            others \<leftarrow> queue_count (other_alignment h) s;
            if mine + SWAP_BUFFER < others then Some True
            else do {
              r \<leftarrow> arr_get (hqueue s) (d_alignment (dept s));
              Some (r = None \<or> current_wait_time now g s \<ge> SWAP_TIMEOUT) } } }
      else Some False)"

definition start_swap :: "int \<Rightarrow> nat \<Rightarrow> pvn \<Rightarrow> pvn option" where
  "start_swap now h s = do {
     b \<leftarrow> should_swap now h s;
     let a = d_alignment (dept s);
     Some (if b then s\<lparr>dept := (dept s)\<lparr>d_alignment := (if a = PIRATE then TO_NINJA else if a = NINJA then TO_PIRATE else a)\<rparr>\<rparr>
           else s) }"

definition sit :: "int \<Rightarrow> int \<Rightarrow> nat \<Rightarrow> department \<Rightarrow> department" where
  "sit now duration h d = (case first_index (free_at d) 4 of
      None \<Rightarrow> d
    | Some i \<Rightarrow> d\<lparr>d_chairs := (d_chairs d)[i := map_option (\<lambda>c. update_chair now duration (c\<lparr>ch_hum := Some h\<rparr>)) (d_chairs d ! i)]\<rparr>)"

definition enemy_at :: "nat \<Rightarrow> department \<Rightarrow> nat \<Rightarrow> bool" where
  "enemy_at h d i = (case d_chairs d ! i of None \<Rightarrow> False | Some c \<Rightarrow>
     (case ch_hum c of None \<Rightarrow> False | Some g \<Rightarrow> alignment g = other_alignment h))"

text \<open>If there is an enemy in a chair the program aborts.\<close>

definition enter_department :: "int \<Rightarrow> int \<Rightarrow> nat \<Rightarrow> pvn \<Rightarrow> pvn option" where
  "enter_department now duration h s = do {
     let s = s\<lparr>visits := (visits s)(h := create_visit (current_wait_time now h s) duration # visits s h)\<rparr>;
     let s = s\<lparr>dept := sit now duration h (dept s)\<rparr>;
     if first_index (enemy_at h (dept s)) 4 \<noteq> None then Some (s\<lparr>fought := True\<rparr>)
     else start_swap now h s }"

definition stand_up :: "nat \<Rightarrow> department \<Rightarrow> department" where
  "stand_up h d = d\<lparr>d_chairs := map (map_option (\<lambda>c. if ch_hum c = Some h then c\<lparr>ch_hum := None\<rparr> else c)) (d_chairs d)\<rparr>"

definition finish_swap :: "department \<Rightarrow> department" where
  "finish_swap d =
     (if (d_alignment d = TO_PIRATE \<or> d_alignment d = TO_NINJA) \<and> all_empty d \<noteq> 0
      then d\<lparr>d_alignment := (if d_alignment d = TO_PIRATE then PIRATE else NINJA)\<rparr> else d)"

definition leave_department :: "int \<Rightarrow> nat \<Rightarrow> pvn \<Rightarrow> pvn option" where
  "leave_department now h s = do {
     let s = s\<lparr>dept := stand_up h (dept s)\<rparr>;
     s \<leftarrow> start_swap now h s;
     let s = s\<lparr>dept := finish_swap (dept s)\<rparr>;
     post_head (team_alignment (dept s)) s }"

section \<open>Threads\<close>

datatype event = Set_out nat | Stay nat | Arrive int nat | Pass nat | Enter int int nat | Refused nat
  | Leave int nat | Return nat | Finish nat

definition go_to :: "nat \<Rightarrow> human_pc \<Rightarrow> pvn \<Rightarrow> pvn" where
  "go_to h p s = s\<lparr>hpc := (hpc s)(h := p)\<rparr>"

definition may_enter :: "nat \<Rightarrow> pvn \<Rightarrow> bool" where
  "may_enter h s \<longleftrightarrow> d_alignment (dept s) = alignment h \<and> chair_free (dept s) \<noteq> 0"

text \<open>\<open>human_main\<close>: \<open>None\<close> if the event is not possible, or does not come to an end. A length of a visit
  is never negative (normDist.c).\<close>

fun human_main :: "event \<Rightarrow> pvn \<Rightarrow> pvn option" where
  "human_main (Set_out h) s =
     (if hpc s h = Home \<and> willReturn s h \<noteq> 0 then Some (go_to h Away (s\<lparr>willReturn := (willReturn s)(h := willReturn s h - 1)\<rparr>)) else None)"
| "human_main (Stay h) s = (if hpc s h = Home \<and> willReturn s h = 0 then Some (go_to h Gone s) else None)"
| "human_main (Arrive now h) s =
     (if hpc s h = Away then do {
        s \<leftarrow> queue_human now h s;
        q \<leftarrow> arr_get (hqueue s) (alignment h);
        Some (go_to h Door (if q = Some h then sem_post h s else s)) }
      else None)"
| "human_main (Pass h) s =
     (if hpc s h = Door \<and> hsem s h > 0 then Some (go_to h Look (s\<lparr>hsem := (hsem s)(h := hsem s h - 1)\<rparr>)) else None)"
| "human_main (Enter now duration h) s =
     (if hpc s h = Look \<and> may_enter h s \<and> 0 \<le> duration then do {
        s \<leftarrow> dequeue_human (alignment h) s;
        s \<leftarrow> enter_department now duration h s;
        Some (go_to h Costume s) }
      else None)"
| "human_main (Refused h) s = (if hpc s h = Look \<and> \<not> may_enter h s then Some (go_to h Door s) else None)"
| "human_main (Leave now h) s =
     (if hpc s h = Costume then do { s \<leftarrow> leave_department now h s; Some (go_to h Out s) } else None)"
| "human_main (Return h) s =
     (if hpc s h = Out then Some (go_to h Home (s\<lparr>willReturn := (willReturn s)(h := willReturn s h + 1)\<rparr>)) else None)"
| "human_main (Finish h) s = (if hpc s h = Out then Some (go_to h Home (s\<lparr>visitsLeft := visitsLeft s - 1\<rparr>)) else None)"

fun who :: "event \<Rightarrow> nat" where
  "who (Set_out h) = h"
| "who (Stay h) = h"
| "who (Arrive now h) = h"
| "who (Pass h) = h"
| "who (Enter now d h) = h"
| "who (Refused h) = h"
| "who (Leave now h) = h"
| "who (Return h) = h"
| "who (Finish h) = h"

text \<open>The humans of a run, and its start.\<close>

definition human :: "nat \<Rightarrow> nat \<Rightarrow> nat \<Rightarrow> bool" where
  "human np nn h \<longleftrightarrow> h < np \<or> 50 \<le> h \<and> h < 50 + nn"

definition create_human :: "nat \<Rightarrow> pvn \<Rightarrow> pvn" where
  "create_human h s = s\<lparr>willReturn := (willReturn s)(h := 1), hnext := (hnext s)(h := None), hsem := (hsem s)(h := 0),
     hpc := (hpc s)(h := Home)\<rparr>"

definition pvn_start :: "nat \<Rightarrow> nat \<Rightarrow> int \<Rightarrow> int \<Rightarrow> int \<Rightarrow> pvn" where
  "pvn_start np nn chairs a now = fold create_human ([0..<np] @ [50..<50 + nn])
     \<lparr>hqueue = [None, None], hnext = Map.empty, since = (\<lambda>h. 0), hsem = (\<lambda>h. 0), willReturn = (\<lambda>h. 0),
      visits = (\<lambda>h. []), dept = init_department now a chairs, visitsLeft = int np + int nn, fought = False,
      hpc = (\<lambda>h. Gone)\<rparr>"

text \<open>The start of the program: the arguments are in their ranges, and a coin decides whose turn it is.\<close>

definition pvn_init :: "nat \<Rightarrow> nat \<Rightarrow> int \<Rightarrow> pvn \<Rightarrow> bool" where
  "pvn_init np nn chairs s \<longleftrightarrow> np \<le> 50 \<and> nn \<le> 50 \<and> 2 \<le> chairs \<and> chairs \<le> 4 \<and>
     (\<exists>a now. (a = PIRATE \<or> a = NINJA) \<and> s = pvn_start np nn chairs a now)"

text \<open>One event, until a fight has aborted the program.\<close>

definition pvn_step :: "nat \<Rightarrow> nat \<Rightarrow> pvn \<Rightarrow> pvn \<Rightarrow> bool" where
  "pvn_step np nn s t \<longleftrightarrow> \<not> fought s \<and> (\<exists>e. human np nn (who e) \<and> human_main e s = Some t)"

fun run_events :: "event list \<Rightarrow> pvn \<Rightarrow> pvn option" where
  "run_events [] s = Some s"
| "run_events (e # es) s = do { s \<leftarrow> human_main e s; run_events es s }"

section \<open>Who sits where\<close>

text \<open>The human in a chair, and the team that has the department while it changes hands.\<close>

definition sitter :: "department \<Rightarrow> nat \<Rightarrow> nat option" where
  "sitter d i = (case d_chairs d ! i of None \<Rightarrow> None | Some c \<Rightarrow> ch_hum c)"

definition owner :: "int \<Rightarrow> int" where
  "owner a = (if a = PIRATE \<or> a = TO_NINJA then PIRATE else NINJA)"

definition dept_ok :: "int \<Rightarrow> department \<Rightarrow> bool" where
  "dept_ok chairs d \<longleftrightarrow> length (d_chairs d) = 4 \<and> d_alignment d \<in> {PIRATE, NINJA, TO_PIRATE, TO_NINJA} \<and>
     (\<forall>i<4. d_chairs d ! i = None \<longleftrightarrow> chairs \<le> int i) \<and>
     (\<forall>i<4. \<forall>h. sitter d i = Some h \<longrightarrow> alignment h = owner (d_alignment d))"

definition pvn_inv :: "int \<Rightarrow> pvn \<Rightarrow> bool" where
  "pvn_inv chairs s \<longleftrightarrow> dept_ok chairs (dept s) \<and> length (hqueue s) = 2 \<and> \<not> fought s \<and>
     (\<forall>h. hpc s h = Costume \<longleftrightarrow> (\<exists>i<4. sitter (dept s) i = Some h)) \<and>
     (\<forall>i<4. \<forall>j<4. \<forall>h. sitter (dept s) i = Some h \<and> sitter (dept s) j = Some h \<longrightarrow> i = j)"

lemma alignment_cases: "alignment h = PIRATE \<or> alignment h = NINJA" by (simp add: alignment_def)

lemma other_alignment_eq: "other_alignment h = 1 - alignment h"
  by (simp add: other_alignment_def alignment_def)

lemma go_to_simps [simp]:
  "hqueue (go_to h p s) = hqueue s" "hnext (go_to h p s) = hnext s" "since (go_to h p s) = since s" "hsem (go_to h p s) = hsem s"
  "willReturn (go_to h p s) = willReturn s" "visits (go_to h p s) = visits s" "dept (go_to h p s) = dept s"
  "visitsLeft (go_to h p s) = visitsLeft s" "fought (go_to h p s) = fought s" "hpc (go_to h p s) = (hpc s)(h := p)"
  by (simp_all add: go_to_def)

lemma sem_post_simps [simp]:
  "hqueue (sem_post h s) = hqueue s" "hnext (sem_post h s) = hnext s" "since (sem_post h s) = since s"
  "hsem (sem_post h s) = (hsem s)(h := Suc (hsem s h))" "willReturn (sem_post h s) = willReturn s"
  "visits (sem_post h s) = visits s" "dept (sem_post h s) = dept s" "visitsLeft (sem_post h s) = visitsLeft s"
  "fought (sem_post h s) = fought s" "hpc (sem_post h s) = hpc s"
  by (simp_all add: sem_post_def)

text \<open>What the operations on the queues leave alone.\<close>

definition same_dept :: "pvn \<Rightarrow> pvn \<Rightarrow> bool" where
  "same_dept s t \<longleftrightarrow> dept t = dept s \<and> length (hqueue t) = length (hqueue s) \<and> fought t = fought s \<and> hpc t = hpc s \<and>
     visitsLeft t = visitsLeft s \<and> willReturn t = willReturn s"

lemma queue_human_same: "queue_human now h s = Some t \<Longrightarrow> same_dept s t"
  by (auto simp: queue_human_def same_dept_def Let_def bind_eq_Some_conv split: option.splits)

lemma post_head_same: "post_head a s = Some t \<Longrightarrow> same_dept s t \<and> hqueue t = hqueue s \<and> hnext t = hnext s"
  by (auto simp: post_head_def same_dept_def bind_eq_Some_conv split: option.splits)

lemma dequeue_human_same: "dequeue_human a s = Some t \<Longrightarrow> same_dept s t"
  using post_head_same
  by (fastforce simp: dequeue_human_def same_dept_def Let_def bind_eq_Some_conv split: option.splits)

lemma start_swap_same:
  assumes "start_swap now h s = Some t"
  obtains a where "t = s\<lparr>dept := (dept s)\<lparr>d_alignment := a\<rparr>\<rparr>" "owner a = owner (d_alignment (dept s))"
    "a = d_alignment (dept s) \<or> should_swap now h s = Some True \<and> a \<in> {TO_PIRATE, TO_NINJA}"
proof -
  let ?a = "d_alignment (dept s)"
  obtain b where b: "should_swap now h s = Some b" using assms by (auto simp: start_swap_def bind_eq_Some_conv)
  have ab: "b \<Longrightarrow> ?a = PIRATE \<or> ?a = NINJA" using b by (auto simp: should_swap_def split: if_splits)
  show ?thesis
  proof (rule that)
    show "t = s\<lparr>dept := (dept s)\<lparr>d_alignment := (if b then if ?a = PIRATE then TO_NINJA else TO_PIRATE else ?a)\<rparr>\<rparr>"
      using assms b ab by (auto simp: start_swap_def Let_def)
  qed (use b ab in \<open>auto simp: owner_def\<close>)
qed

lemma sitter_alignment [simp]: "sitter (d\<lparr>d_alignment := a\<rparr>) = sitter d" by (simp add: sitter_def fun_eq_iff)

lemma free_at_sitter: "free_at d i \<longleftrightarrow> d_chairs d ! i \<noteq> None \<and> sitter d i = None"
  by (simp add: free_at_def sitter_def split: option.splits)

lemma taken_at_sitter: "taken_at d i \<longleftrightarrow> sitter d i \<noteq> None"
  by (simp add: taken_at_def sitter_def split: option.splits)

lemma enemy_at_sitter: "enemy_at h d i \<longleftrightarrow> (\<exists>g. sitter d i = Some g \<and> alignment g = other_alignment h)"
  by (simp add: enemy_at_def sitter_def split: option.splits)

lemma all_empty_sitter: "all_empty d \<noteq> 0 \<longleftrightarrow> (\<forall>i<4. sitter d i = None)"
  by (auto simp: all_empty_def first_index_None_iff taken_at_sitter first_index_Some_iff split: option.splits)

lemma stand_up_sitter:
  "i < length (d_chairs d) \<Longrightarrow> sitter (stand_up h d) i = (if sitter d i = Some h then None else sitter d i)"
  "i < length (d_chairs d) \<Longrightarrow> (d_chairs (stand_up h d) ! i = None) = (d_chairs d ! i = None)"
  "length (d_chairs (stand_up h d)) = length (d_chairs d)" "d_alignment (stand_up h d) = d_alignment d"
  by (auto simp: sitter_def stand_up_def split: option.splits)

lemma sit_sitter:
  assumes "chair_free d \<noteq> 0" "length (d_chairs d) = 4"
  obtains k where "k < 4" "sitter d k = None" "sitter (sit now duration h d) = (sitter d)(k := Some h)"
    "\<And>i. (d_chairs (sit now duration h d) ! i = None) = (d_chairs d ! i = None)"
    "length (d_chairs (sit now duration h d)) = 4" "d_alignment (sit now duration h d) = d_alignment d"
proof -
  obtain k where k: "first_index (free_at d) 4 = Some k" using assms by (auto simp: chair_free_def split: option.splits)
  then have k': "k < 4" "free_at d k" by (auto simp: first_index_Some_iff)
  then obtain c where c: "d_chairs d ! k = Some c" "ch_hum c = None" by (auto simp: free_at_def split: option.splits)
  have e: "sit now duration h d = d\<lparr>d_chairs := (d_chairs d)[k := Some (update_chair now duration (c\<lparr>ch_hum := Some h\<rparr>))]\<rparr>"
    using k c by (simp add: sit_def)
  show ?thesis
  proof (rule that [OF k'(1)])
    show "sitter (sit now duration h d) = (sitter d)(k := Some h)" using k'(1) assms(2)
      by (auto simp: e sitter_def fun_eq_iff nth_list_update update_chair_def)
    show "(d_chairs (sit now duration h d) ! i = None) = (d_chairs d ! i = None)" for i using k'(1) assms(2) c
      by (cases "i = k") (auto simp: e)
  qed (use c assms in \<open>auto simp: e sitter_def\<close>)
qed

lemma dept_ok_facts:
  assumes "dept_ok chairs d"
  shows "length (d_chairs d) = 4" "d_alignment d \<in> {PIRATE, NINJA, TO_PIRATE, TO_NINJA}"
    "\<And>i. i < 4 \<Longrightarrow> (d_chairs d ! i = None) = (chairs \<le> int i)"
    "\<And>i h. i < 4 \<Longrightarrow> sitter d i = Some h \<Longrightarrow> alignment h = owner (d_alignment d)"
  using assms by (simp_all add: dept_ok_def)

lemma dept_ok_swap:
  "dept_ok chairs d \<Longrightarrow> owner a = owner (d_alignment d) \<Longrightarrow> a \<in> {PIRATE, NINJA, TO_PIRATE, TO_NINJA} \<Longrightarrow>
   dept_ok chairs (d\<lparr>d_alignment := a\<rparr>)"
  by (simp add: dept_ok_def)

lemma dept_ok_sit:
  assumes "dept_ok chairs d" "chair_free d \<noteq> 0" "d_alignment d = alignment h"
  shows "dept_ok chairs (sit now duration h d)"
proof -
  note d = dept_ok_facts [OF assms(1)]
  from sit_sitter [OF assms(2) d(1)] obtain k where k: "k < 4" "sitter d k = None"
    "sitter (sit now duration h d) = (sitter d)(k := Some h)"
    "\<And>i. (d_chairs (sit now duration h d) ! i = None) = (d_chairs d ! i = None)"
    "length (d_chairs (sit now duration h d)) = 4" "d_alignment (sit now duration h d) = d_alignment d" by metis
  have "owner (d_alignment d) = alignment h" using assms(3) alignment_cases [of h] by (auto simp: owner_def)
  then show ?thesis using d k unfolding dept_ok_def by (simp split: if_splits)
qed

lemma dept_ok_leave:
  assumes "dept_ok chairs d"
  shows "dept_ok chairs (stand_up h d)" "dept_ok chairs (finish_swap d)" "sitter (finish_swap d) = sitter d"
proof -
  note d = dept_ok_facts [OF assms]
  show "dept_ok chairs (stand_up h d)" unfolding dept_ok_def
    using d by (auto simp: stand_up_sitter split: if_splits)
  show "sitter (finish_swap d) = sitter d" by (simp add: finish_swap_def)
  show "dept_ok chairs (finish_swap d)"
  proof (cases "all_empty d \<noteq> 0")
    case True
    then have "\<forall>i<4. sitter d i = None" by (simp add: all_empty_sitter)
    with d show ?thesis by (simp add: dept_ok_def finish_swap_def)
  next
    case False
    with assms show ?thesis by (simp add: finish_swap_def)
  qed
qed

lemma enter_department_ok:
  assumes "dept_ok chairs (dept s)" "may_enter h s" "enter_department now duration h s = Some t"
  obtains k a where "k < 4" "sitter (dept s) k = None" "sitter (dept t) = (sitter (dept s))(k := Some h)" "dept_ok chairs (dept t)"
    "hqueue t = hqueue s" "hnext t = hnext s" "fought t = fought s" "hpc t = hpc s" "hsem t = hsem s" "willReturn t = willReturn s"
    "visitsLeft t = visitsLeft s" "visits t = (visits s)(h := create_visit (now - since s h) duration # visits s h)"
    "a = d_alignment (dept s) \<or> a \<in> {TO_PIRATE, TO_NINJA}" "d_alignment (dept t) = a"
proof -
  have m: "d_alignment (dept s) = alignment h" "chair_free (dept s) \<noteq> 0" using assms(2) by (auto simp: may_enter_def)
  let ?d = "sit now duration h (dept s)"
  let ?u = "s\<lparr>visits := (visits s)(h := create_visit (now - since s h) duration # visits s h), dept := ?d\<rparr>"
  have ok: "dept_ok chairs ?d" by (rule dept_ok_sit [OF assms(1) m(2,1)])
  from sit_sitter [OF m(2) dept_ok_facts(1) [OF assms(1)]] obtain k where k: "k < 4" "sitter (dept s) k = None"
    "sitter ?d = (sitter (dept s))(k := Some h)" "d_alignment ?d = d_alignment (dept s)" by metis
  have "\<not> enemy_at h ?d i" if "i < 4" for i
    using dept_ok_facts(4) [OF ok that] m(1) alignment_cases [of h] k(4)
    by (auto simp: enemy_at_sitter other_alignment_eq owner_def)
  then have "first_index (enemy_at h ?d) 4 = None" by (simp add: first_index_None_iff)
  then have e: "start_swap now h ?u = Some t" using assms(3)
    by (simp add: enter_department_def Let_def current_wait_time_def cong: if_cong)
  from start_swap_same [OF e] obtain a where a: "t = ?u\<lparr>dept := (dept ?u)\<lparr>d_alignment := a\<rparr>\<rparr>"
    "owner a = owner (d_alignment ?d)" "a = d_alignment ?d \<or> a \<in> {TO_PIRATE, TO_NINJA}" by auto
  have "dept_ok chairs (dept t)" using dept_ok_swap [OF ok a(2)] a(1,3) dept_ok_facts(2) [OF ok] by auto
  with that [OF k(1,2)] a k show ?thesis by simp
qed

lemma leave_department_ok:
  assumes "dept_ok chairs (dept s)" "leave_department now h s = Some t"
  shows "\<forall>i<4. sitter (dept t) i = (if sitter (dept s) i = Some h then None else sitter (dept s) i)" "dept_ok chairs (dept t)"
    "hqueue t = hqueue s" "hnext t = hnext s" "fought t = fought s" "hpc t = hpc s" "visitsLeft t = visitsLeft s"
    "willReturn t = willReturn s"
proof -
  let ?d = "stand_up h (dept s)"
  let ?u = "s\<lparr>dept := ?d\<rparr>"
  have ok: "dept_ok chairs ?d" by (rule dept_ok_leave [OF assms(1)])
  obtain v where v: "start_swap now h ?u = Some v"
    and p: "post_head (team_alignment (finish_swap (dept v))) (v\<lparr>dept := finish_swap (dept v)\<rparr>) = Some t"
    using assms(2) by (auto simp: leave_department_def Let_def bind_eq_Some_conv)
  from start_swap_same [OF v] obtain a where a: "v = ?u\<lparr>dept := (dept ?u)\<lparr>d_alignment := a\<rparr>\<rparr>"
    "owner a = owner (d_alignment ?d)" "a = d_alignment ?d \<or> a \<in> {TO_PIRATE, TO_NINJA}" by auto
  have okv: "dept_ok chairs (dept v)" using dept_ok_swap [OF ok a(2)] a(1,3) dept_ok_facts(2) [OF ok] by auto
  note t = post_head_same [OF p]
  have d: "dept t = finish_swap (dept v)" using t by (simp add: same_dept_def)
  show "dept_ok chairs (dept t)" unfolding d by (rule dept_ok_leave [OF okv])
  show "\<forall>i<4. sitter (dept t) i = (if sitter (dept s) i = Some h then None else sitter (dept s) i)"
    unfolding d dept_ok_leave(3) [OF okv] using a(1) dept_ok_facts(1) [OF assms(1)] by (simp add: stand_up_sitter)
  show "hqueue t = hqueue s" "hnext t = hnext s" "fought t = fought s" "hpc t = hpc s" "visitsLeft t = visitsLeft s"
    "willReturn t = willReturn s" using t a by (simp_all add: same_dept_def)
qed

text \<open>The invariant holds at the start and after every event.\<close>

lemma create_human_fold:
  "fold create_human hs s = s\<lparr>willReturn := (\<lambda>h. if h \<in> set hs then 1 else willReturn s h),
     hnext := (\<lambda>h. if h \<in> set hs then None else hnext s h), hsem := (\<lambda>h. if h \<in> set hs then 0 else hsem s h),
     hpc := (\<lambda>h. if h \<in> set hs then Home else hpc s h)\<rparr>"
proof (induction hs arbitrary: s)
  case (Cons h hs)
  show ?case unfolding fold_simps Cons.IH by (cases s) (auto simp: create_human_def fun_eq_iff)
qed simp

lemma pvn_start_eq:
  "pvn_start np nn chairs a now =
     \<lparr>hqueue = [None, None], hnext = Map.empty, since = (\<lambda>h. 0), hsem = (\<lambda>h. 0), willReturn = (\<lambda>h. if human np nn h then 1 else 0),
      visits = (\<lambda>h. []), dept = init_department now a chairs, visitsLeft = int np + int nn, fought = False,
      hpc = (\<lambda>h. if human np nn h then Home else Gone)\<rparr>"
  unfolding pvn_start_def create_human_fold by (auto simp: human_def fun_eq_iff)

lemma init_sitter: "i < 4 \<Longrightarrow> sitter (init_department now a chairs) i = None"
  by (simp add: sitter_def init_department_def create_chair_def)

lemma pvn_inv_init: "pvn_init np nn chairs s \<Longrightarrow> pvn_inv chairs s"
proof -
  assume "pvn_init np nn chairs s"
  then obtain a now where s: "s = pvn_start np nn chairs a now" "a = PIRATE \<or> a = NINJA" by (auto simp: pvn_init_def)
  have "dept_ok chairs (init_department now a chairs)" using s(2) init_sitter
    by (auto simp: dept_ok_def init_department_def sitter_def create_chair_def)
  then show ?thesis unfolding pvn_inv_def s(1) pvn_start_eq by (simp add: init_sitter)
qed

lemma pvn_inv_same:
  assumes "pvn_inv chairs s" "dept t = dept s" "length (hqueue t) = length (hqueue s)" "fought t = fought s"
    "hpc t = (hpc s)(h := p)" "hpc s h \<noteq> Costume" "p \<noteq> Costume"
  shows "pvn_inv chairs t"
  using assms(1,6,7) unfolding pvn_inv_def assms(2-5) by auto

lemma arrive_same:
  assumes "human_main (Arrive now h) s = Some t"
  shows "hpc s h = Away" "dept t = dept s" "length (hqueue t) = length (hqueue s)" "fought t = fought s" "hpc t = (hpc s)(h := Door)"
    "visitsLeft t = visitsLeft s" "willReturn t = willReturn s"
proof -
  from assms obtain u where u: "hpc s h = Away" "queue_human now h s = Some u" "t = go_to h Door (sem_post h u) \<or> t = go_to h Door u"
    by (auto simp: bind_eq_Some_conv split: if_splits)
  with queue_human_same [OF u(2)] show "hpc s h = Away" "dept t = dept s" "length (hqueue t) = length (hqueue s)" "fought t = fought s"
    "hpc t = (hpc s)(h := Door)" "visitsLeft t = visitsLeft s" "willReturn t = willReturn s"
    by (auto simp: same_dept_def)
qed

lemma enter_parts:
  assumes "human_main (Enter now duration h) s = Some t"
  obtains u v where "hpc s h = Look" "may_enter h s" "0 \<le> duration" "dequeue_human (alignment h) s = Some u" "may_enter h u"
    "same_dept s u" "enter_department now duration h u = Some v" "t = go_to h Costume v"
proof -
  from assms obtain u v where u: "hpc s h = Look" "may_enter h s" "0 \<le> duration" "dequeue_human (alignment h) s = Some u"
    "enter_department now duration h u = Some v" "t = go_to h Costume v"
    by (auto simp: bind_eq_Some_conv split: if_splits)
  moreover have "may_enter h u" using u(2) dequeue_human_same [OF u(4)] by (simp add: may_enter_def same_dept_def)
  ultimately show ?thesis using that dequeue_human_same [OF u(4)] by blast
qed

lemma pvn_inv_facts:
  assumes "pvn_inv chairs s"
  shows "dept_ok chairs (dept s)" "length (hqueue s) = 2" "\<not> fought s"
    "\<And>h. hpc s h = Costume \<longleftrightarrow> (\<exists>i<4. sitter (dept s) i = Some h)"
    "\<And>i j h. i < 4 \<Longrightarrow> j < 4 \<Longrightarrow> sitter (dept s) i = Some h \<Longrightarrow> sitter (dept s) j = Some h \<Longrightarrow> i = j"
  using assms unfolding pvn_inv_def by blast+

lemma pvn_inv_enter:
  assumes "pvn_inv chairs s" "human_main (Enter now duration h) s = Some t"
  shows "pvn_inv chairs t"
proof -
  from enter_parts [OF assms(2)] obtain u v where u: "hpc s h = Look" "may_enter h u" "same_dept s u"
    "enter_department now duration h u = Some v" and t: "t = go_to h Costume v" by metis
  note i = pvn_inv_facts [OF assms(1)]
  have su: "dept u = dept s" "hpc u = hpc s" "fought u = fought s" "length (hqueue u) = 2" using u(3) i(2) by (simp_all add: same_dept_def)
  have oku: "dept_ok chairs (dept u)" using i(1) su by simp
  from enter_department_ok [OF oku u(2,4)] obtain k where k: "k < 4"
    "sitter (dept u) k = None" "sitter (dept v) = (sitter (dept u))(k := Some h)" "dept_ok chairs (dept v)" "hqueue v = hqueue u"
    "fought v = fought u" "hpc v = hpc u" by metis
  have none: "sitter (dept s) i \<noteq> Some h" if "i < 4" for i using i(4) [of h] u(1) that by auto
  have "hpc t g = Costume \<longleftrightarrow> (\<exists>i<4. sitter (dept t) i = Some g)" for g
  proof (cases "g = h")
    case True
    with k(1,3) t show ?thesis by auto
  next
    case False
    then have "(sitter (dept t) i = Some g) = (sitter (dept s) i = Some g)" for i using k(2,3) su(1) t by auto
    with False i(4) [of g] k(7) su(2) t show ?thesis by simp
  qed
  moreover have "i = j" if "i < 4" "j < 4" "sitter (dept t) i = Some g" "sitter (dept t) j = Some g" for i j g
    using that i(5) [of i j g] none k(3) su t by (auto split: if_splits)
  ultimately show ?thesis using k(4-6) i(3) su t unfolding pvn_inv_def by (simp add: go_to_simps)
qed

lemma pvn_inv_leave:
  assumes "pvn_inv chairs s" "human_main (Leave now h) s = Some t"
  shows "pvn_inv chairs t"
proof -
  from assms(2) obtain v where v: "hpc s h = Costume" "leave_department now h s = Some v" and t: "t = go_to h Out v"
    by (auto simp: bind_eq_Some_conv split: if_splits)
  note i = pvn_inv_facts [OF assms(1)]
  note k = leave_department_ok [OF i(1) v(2)]
  have st: "sitter (dept t) i = (if sitter (dept s) i = Some h then None else sitter (dept s) i)" if "i < 4" for i
    using k(1) that t by simp
  have "hpc t g = Costume \<longleftrightarrow> (\<exists>i<4. sitter (dept t) i = Some g)" for g
  proof (cases "g = h")
    case True
    with st k(6) t show ?thesis by (auto split: if_splits)
  next
    case False
    then have "i < 4 \<Longrightarrow> (sitter (dept t) i = Some g) = (sitter (dept s) i = Some g)" for i using st by auto
    with False i(4) [of g] k(6) t show ?thesis by auto
  qed
  moreover have "i = j" if "i < 4" "j < 4" "sitter (dept t) i = Some g" "sitter (dept t) j = Some g" for i j g
    using that i(5) [of i j g] st by (auto split: if_splits)
  ultimately show ?thesis using k(2,3,5) i(2,3) t unfolding pvn_inv_def by simp
qed

lemma pvn_inv_event:
  assumes "pvn_inv chairs s" "human_main e s = Some t"
  shows "pvn_inv chairs t"
proof (cases e)
  case (Arrive now h)
  note a = arrive_same [OF assms(2) [unfolded Arrive]]
  show ?thesis by (rule pvn_inv_same [OF assms(1) a(2-5)]) (simp_all add: a(1))
next
  case (Enter now duration h)
  then show ?thesis using pvn_inv_enter assms by blast
next
  case (Leave now h)
  then show ?thesis using pvn_inv_leave assms by blast
qed (use assms(2) in \<open>(auto split: if_splits intro!: pvn_inv_same [OF assms(1)])\<close>)

interpretation party: invariant_system "pvn_init np nn chairs" "pvn_step np nn" "pvn_inv chairs" for np nn chairs
  by unfold_locales (auto simp: pvn_step_def intro: pvn_inv_init pvn_inv_event)

text \<open>A sequence of events gives a reachable state.\<close>

lemma reach_events:
  assumes "reach (pvn_init np nn chairs) (pvn_step np nn) s" "run_events es s = Some t" "\<forall>e\<in>set es. human np nn (who e)"
  shows "reach (pvn_init np nn chairs) (pvn_step np nn) t"
  using assms
proof (induction es arbitrary: s)
  case (Cons e es)
  then obtain u where u: "human_main e s = Some u" "run_events es u = Some t" by (auto simp: bind_eq_Some_conv)
  have "\<not> fought s" using party.reach_inv [OF Cons.prems(1)] by (simp add: pvn_inv_def)
  then have "pvn_step np nn s u" using u(1) Cons.prems(3) unfolding pvn_step_def by auto
  from Cons.IH [OF reach_step [OF Cons.prems(1) this] u(2)] Cons.prems(3) show ?case by simp
qed simp

lemma last_car_ends: "last_car nx c = Some y \<Longrightarrow> nx c \<noteq> Some c"
  by (rule last_car.raw_induct [of "\<lambda>nx c y. nx c \<noteq> Some c"]) (auto split: option.splits)

lemma last_car_loop: "nx c = Some c \<Longrightarrow> last_car nx c = None"
  using last_car_ends by (cases "last_car nx c") blast+

section \<open>Properties\<close>

text \<open>C8: there is never a fight. In every run, all humans in the department are of the same team, each of
  them has a chair of its own, so there are never more of them than chairs, and the program is not
  aborted.\<close>

theorem no_fight:
  assumes "reach (pvn_init np nn chairs) (pvn_step np nn) s"
  shows "\<not> fought s \<and> (\<forall>g h. hpc s g = Costume \<and> hpc s h = Costume \<longrightarrow> alignment g = alignment h) \<and>
    (\<forall>h. hpc s h = Costume \<longrightarrow> (\<exists>!i. i < 4 \<and> int i < chairs \<and> sitter (dept s) i = Some h)) \<and>
    card {h. hpc s h = Costume} \<le> nat chairs"
proof -
  note i = pvn_inv_facts [OF party.reach_inv [OF assms]]
  note d = dept_ok_facts [OF i(1)]
  have lt: "int i < chairs" if "i < 4" "sitter (dept s) i = Some h" for i h
    using d(3) [OF that(1)] that(2) by (cases "chairs \<le> int i") (auto simp: sitter_def)
  have "alignment h = owner (d_alignment (dept s))" if "hpc s h = Costume" for h using i(4) [of h] d(4) that by blast
  moreover have "\<exists>!i. i < 4 \<and> int i < chairs \<and> sitter (dept s) i = Some h" if "hpc s h = Costume" for h
    using i(4) [of h] i(5) [of _ _ h] lt that by blast
  moreover have "{h. hpc s h = Costume} \<subseteq> (\<lambda>i. the (sitter (dept s) i)) ` {..<nat chairs}"
  proof
    fix h assume "h \<in> {h. hpc s h = Costume}"
    then obtain k where "k < 4" "sitter (dept s) k = Some h" using i(4) [of h] by auto
    then show "h \<in> (\<lambda>i. the (sitter (dept s) i)) ` {..<nat chairs}"
      using lt by (intro image_eqI [of _ _ k]) (auto simp: zless_nat_eq_int_zless)
  qed
  then have "card {h. hpc s h = Costume} \<le> nat chairs" by (metis surj_card_le card_lessThan finite_lessThan)
  ultimately show ?thesis using i(3) by simp
qed

text \<open>Pirates 0, 1 and 2: when pirate 2 comes to an empty queue it posts its own semaphore and pirate 0
  posts it once more on leaving, so it goes in with one post left. When it returns it does not wait
  for pirate 1, the head of the queue, but takes pirate 1 out of the queue in its own place. It is
  still in the queue when it returns again.\<close>

definition early_post :: "event list" where
  "early_post = [Set_out 0, Set_out 1, Set_out 2, Set_out 3, Arrive 0 0, Pass 0, Enter 0 5 0, Arrive 1 2, Leave 5 0, Pass 2, Enter 5 1 2,
     Leave 6 2, Return 2, Set_out 2, Arrive 7 1, Arrive 7 2, Pass 2, Enter 7 1 2]"

definition second_return :: "event list" where
  "second_return = [Leave 8 2, Return 2, Set_out 2, Arrive 9 2]"

lemma early_post_run:
  "case run_events early_post (pvn_start 10 10 2 PIRATE 0) of None \<Rightarrow> False
   | Some s \<Rightarrow> hqueue s = [Some 2, None] \<and> hpc s 2 = Costume \<and> hpc s 1 = Door \<and> hnext s 2 = None \<and>
     (case run_events second_return s of None \<Rightarrow> False
      | Some t \<Rightarrow> hqueue t = [Some 2, None] \<and> hnext t 2 = Some 2 \<and> hpc t 3 = Away)"
  by code_simp

lemma pvn_start_reach:
  "np \<le> 50 \<Longrightarrow> nn \<le> 50 \<Longrightarrow> 2 \<le> chairs \<Longrightarrow> chairs \<le> 4 \<Longrightarrow> a = PIRATE \<or> a = NINJA \<Longrightarrow>
   reach (pvn_init np nn chairs) (pvn_step np nn) (pvn_start np nn chairs a now)"
  by (rule reach_init) (auto simp: pvn_init_def)

theorem no_fight_witness:
  "\<exists>s. reach (pvn_init 10 10 2) (pvn_step 10 10) s \<and> hpc s 2 = Costume \<and> \<not> fought s \<and> card {h. hpc s h = Costume} \<le> 2"
proof -
  obtain s where s: "run_events early_post (pvn_start 10 10 2 PIRATE 0) = Some s" "hpc s 2 = Costume"
    using early_post_run by (auto split: option.splits)
  have "reach (pvn_init 10 10 2) (pvn_step 10 10) s"
    by (rule reach_events [OF pvn_start_reach s(1)]) (simp_all add: early_post_def human_def)
  with no_fight [OF this] s(2) show ?thesis by auto
qed

text \<open>C30: the queue can become a cycle. With ten pirates, ten ninjas and two chairs there is a run in which
  a pirate is in a chair and still in the queue while the pirate it took out waits at the door, and in
  the continuation of that run the pirate queues behind itself. From then on every pirate that arrives
  crawls along the queue for ever, with the semaphore of the queue in its hands.\<close>

theorem queue_becomes_cyclic:
  "\<exists>s t. reach (pvn_init 10 10 2) (pvn_step 10 10) s \<and> hqueue s ! 0 = Some 2 \<and> hpc s 2 = Costume \<and> hpc s 1 = Door \<and>
     run_events second_return s = Some t \<and> reach (pvn_init 10 10 2) (pvn_step 10 10) t \<and>
     hnext t 2 = Some 2 \<and> hpc t 3 = Away \<and> \<not> (\<exists>h now. alignment h = PIRATE \<and> human_main (Arrive now h) t \<noteq> None)"
proof -
  obtain s t where s: "run_events early_post (pvn_start 10 10 2 PIRATE 0) = Some s" "hqueue s = [Some 2, None]" "hpc s 2 = Costume"
      "hpc s 1 = Door" and t: "run_events second_return s = Some t" "hqueue t = [Some 2, None]" "hnext t 2 = Some 2" "hpc t 3 = Away"
    using early_post_run by (auto split: option.splits)
  have rs: "reach (pvn_init 10 10 2) (pvn_step 10 10) s"
    by (rule reach_events [OF pvn_start_reach s(1)]) (simp_all add: early_post_def human_def)
  moreover have "reach (pvn_init 10 10 2) (pvn_step 10 10) t"
    by (rule reach_events [OF rs t(1)]) (simp_all add: second_return_def human_def)
  moreover have "human_main (Arrive now h) t = None" if "alignment h = PIRATE" for h now
    using that t(2,3) last_car_loop [of "hnext t" 2] by (simp add: queue_human_def c_simps Let_def)
  ultimately show ?thesis using s t by (intro exI [of _ s] exI [of _ t]) (simp del: human_main.simps)
qed

text \<open>Pirate \<open>k\<close> visits the department when nobody else is there.\<close>

definition visit_alone :: "nat \<Rightarrow> event list" where
  "visit_alone k = [Set_out k, Arrive 0 k, Pass k, Enter 0 0 k, Leave 0 k, Finish k, Stay k]"

definition pirates_done :: "nat \<Rightarrow> nat \<Rightarrow> nat \<Rightarrow> pvn \<Rightarrow> bool" where
  "pirates_done np nn k s \<longleftrightarrow> hqueue s = [None, None] \<and> hnext s = Map.empty \<and> hsem s = (\<lambda>h. 0) \<and> d_alignment (dept s) = PIRATE \<and>
     length (d_chairs (dept s)) = 4 \<and> chair_free (dept s) \<noteq> 0 \<and> (\<forall>i<4. sitter (dept s) i = None) \<and>
     hpc s = (\<lambda>h. if human np nn h \<and> k \<le> h then Home else Gone) \<and>
     willReturn s = (\<lambda>h. if human np nn h \<and> k \<le> h then 1 else 0) \<and> visitsLeft s = int np + int nn - int k"

lemma no_swap: "alignment h = PIRATE \<Longrightarrow> hqueue s = [q, None] \<Longrightarrow> start_swap now h s = Some s"
  by (simp add: start_swap_def should_swap_def other_alignment_def c_simps Let_def)

lemma enter_alone:
  assumes "alignment h = PIRATE" "hqueue s = [None, None]" "\<forall>i<4. sitter (dept s) i = None" "chair_free (dept s) \<noteq> 0"
    "length (d_chairs (dept s)) = 4"
  shows "enter_department now duration h s = Some (s\<lparr>visits := (visits s)(h := create_visit (now - since s h) duration # visits s h),
    dept := sit now duration h (dept s)\<rparr>)"
proof -
  from sit_sitter [OF assms(4,5)] obtain k where k: "sitter (sit now duration h (dept s)) = (sitter (dept s))(k := Some h)" by metis
  have "first_index (enemy_at h (sit now duration h (dept s))) 4 = None"
    using assms(1,3) by (auto simp: first_index_None_iff enemy_at_sitter k other_alignment_eq)
  then show ?thesis using assms(1,2)
    by (simp add: enter_department_def Let_def current_wait_time_def no_swap cong: if_cong)
qed

lemma leave_alone:
  assumes "alignment h = PIRATE" "hqueue s = [None, None]" "d_alignment (dept s) = PIRATE"
  shows "leave_department now h s = Some (s\<lparr>dept := stand_up h (dept s)\<rparr>)"
  using assms by (simp add: leave_department_def no_swap finish_swap_def stand_up_sitter team_alignment_def post_head_def
      c_simps Let_def)

lemma alone_dept:
  assumes "d_alignment d = PIRATE" "length (d_chairs d) = 4" "chair_free d \<noteq> 0" "\<forall>i<4. sitter d i = None"
    and d'_def: "d' = stand_up h (sit now duration h d)"
  shows "d_alignment d' = PIRATE" "length (d_chairs d') = 4" "chair_free d' \<noteq> 0" "\<forall>i<4. sitter d' i = None"
proof -
  from sit_sitter [OF assms(3,2)] obtain k where k: "k < 4" "sitter (sit now duration h d) = (sitter d)(k := Some h)"
    "\<And>i. (d_chairs (sit now duration h d) ! i = None) = (d_chairs d ! i = None)"
    "length (d_chairs (sit now duration h d)) = 4" "d_alignment (sit now duration h d) = d_alignment d" by metis
  show s: "\<forall>i<4. sitter d' i = None" unfolding d'_def using k assms(4) by (simp add: stand_up_sitter)
  obtain i where i: "i < 4" "free_at d i" using assms(3) by (auto simp: chair_free_def first_index_Some_iff split: option.splits)
  then have "free_at d' i" using s k(3,4) unfolding d'_def by (simp add: free_at_sitter stand_up_sitter)
  with i(1) show "chair_free d' \<noteq> 0" by (auto simp: chair_free_def first_index_None_iff split: option.splits)
qed (use sit_sitter [OF assms(3,2)] assms(1) in \<open>auto simp: d'_def stand_up_sitter\<close>)

lemma visit_alone_run:
  assumes "pirates_done np nn k s" "k < np" "np \<le> 50"
  obtains t where "run_events (visit_alone k) s = Some t" "pirates_done np nn (Suc k) t"
proof -
  have k: "alignment k = PIRATE" "human np nn k" using assms(2,3) by (auto simp: alignment_def human_def)
  have d: "hqueue s = [None, None]" "hnext s = Map.empty" "hsem s = (\<lambda>h. 0)" "d_alignment (dept s) = PIRATE"
    "length (d_chairs (dept s)) = 4" "chair_free (dept s) \<noteq> 0" "\<forall>i<4. sitter (dept s) i = None"
    "hpc s = (\<lambda>h. if human np nn h \<and> k \<le> h then Home else Gone)"
    "willReturn s = (\<lambda>h. if human np nn h \<and> k \<le> h then 1 else 0)" "visitsLeft s = int np + int nn - int k"
    using assms(1) unfolding pirates_done_def by blast+
  let ?s1 = "s\<lparr>willReturn := (willReturn s)(k := 0), hpc := (hpc s)(k := Away)\<rparr>"
  have 1: "human_main (Set_out k) s = Some ?s1" using k d by (simp add: go_to_def)
  let ?s2 = "?s1\<lparr>since := (since s)(k := 0), hqueue := [Some k, None], hsem := (hsem s)(k := 1), hpc := (hpc s)(k := Door)\<rparr>"
  have 2: "human_main (Arrive 0 k) ?s1 = Some ?s2"
    using k d by (simp add: go_to_def queue_human_def c_simps sem_post_def Let_def)
  let ?s3 = "?s2\<lparr>hsem := hsem s, hpc := (hpc s)(k := Look)\<rparr>"
  have "(hsem s)(k := 0) = hsem s" using d(3) by auto
  then have 3: "human_main (Pass k) ?s2 = Some ?s3" by (simp add: go_to_def)
  let ?d = "sit 0 0 k (dept s)"
  let ?s4 = "?s3\<lparr>hqueue := [None, None], visits := (visits s)(k := create_visit 0 0 # visits s k), dept := ?d, hpc := (hpc s)(k := Costume)\<rparr>"
  have q: "dequeue_human PIRATE ?s3 = Some (?s3\<lparr>hqueue := [None, None]\<rparr>)"
    using d by (simp add: dequeue_human_def post_head_def c_simps Let_def)
  have 4: "human_main (Enter 0 0 k) ?s3 = Some ?s4"
    using d k q enter_alone [of k "?s3\<lparr>hqueue := [None, None]\<rparr>" 0 0] by (simp add: go_to_def may_enter_def)
  let ?s5 = "?s4\<lparr>dept := stand_up k ?d, hpc := (hpc s)(k := Out)\<rparr>"
  have "d_alignment ?d = PIRATE" using sit_sitter [OF d(6,5)] d(4) by metis
  then have 5: "human_main (Leave 0 k) ?s4 = Some ?s5" using k by (simp add: go_to_def leave_alone)
  let ?s6 = "?s5\<lparr>visitsLeft := visitsLeft s - 1, hpc := (hpc s)(k := Home)\<rparr>"
  have 6: "human_main (Finish k) ?s5 = Some ?s6" by (simp add: go_to_def)
  let ?s7 = "?s6\<lparr>hpc := (hpc s)(k := Gone)\<rparr>"
  have 7: "human_main (Stay k) ?s6 = Some ?s7" by (simp add: go_to_def)
  have "pirates_done np nn (Suc k) ?s7" unfolding pirates_done_def using alone_dept [OF d(4-7) refl] d
    by (auto simp: fun_eq_iff not_less_eq_eq)
  moreover have "run_events (visit_alone k) s = Some ?s7"
    unfolding visit_alone_def run_events.simps 1 bind.bind_lunit 2 3 4 5 6 7 ..
  ultimately show ?thesis using that by blast
qed

lemma pirates_alone:
  assumes "k \<le> np" "np \<le> 50" "nn \<le> 50" "2 \<le> chairs" "chairs \<le> 4"
  shows "\<exists>s. reach (pvn_init np nn chairs) (pvn_step np nn) s \<and> pirates_done np nn k s"
  using assms(1)
proof (induction k)
  case 0
  let ?d = "init_department 0 PIRATE chairs"
  have "free_at ?d 0" using assms(4) by (simp add: free_at_def init_department_def create_chair_def)
  then have "first_index (free_at ?d) 4 \<noteq> None" unfolding first_index_None_iff by (auto intro!: exI [of _ 0])
  then have "chair_free ?d \<noteq> 0" by (auto simp: chair_free_def)
  then have "pirates_done np nn 0 (pvn_start np nn chairs PIRATE 0)"
    by (auto simp: pirates_done_def pvn_start_eq init_sitter) (simp_all add: init_department_def)
  with pvn_start_reach [of np nn chairs] assms(2-5) show ?case by blast
next
  case (Suc k)
  then obtain s where s: "reach (pvn_init np nn chairs) (pvn_step np nn) s" "pirates_done np nn k s" by auto
  from visit_alone_run [OF s(2) _ assms(2)] Suc.prems obtain t where
    t: "run_events (visit_alone k) s = Some t" "pirates_done np nn (Suc k) t" by auto
  have "\<forall>e\<in>set (visit_alone k). human np nn (who e)" using Suc.prems by (simp add: visit_alone_def human_def)
  with reach_events [OF s(1) t(1)] t(2) show ?case by blast
qed

text \<open>The pirates are gone and the department is still theirs.\<close>

definition late :: "pvn \<Rightarrow> bool" where
  "late s \<longleftrightarrow> d_alignment (dept s) = PIRATE \<and> (\<forall>h. alignment h = PIRATE \<longrightarrow> hpc s h = Gone) \<and>
     (\<forall>h. hpc s h \<noteq> Costume \<and> hpc s h \<noteq> Out)"

lemma late_event:
  assumes "late s" "human_main e s = Some t"
  shows "late t \<and> visitsLeft t = visitsLeft s"
proof (cases e)
  case (Arrive now h)
  with arrive_same [OF assms(2) [unfolded Arrive]] assms(1) show ?thesis by (auto simp: late_def)
next
  case (Enter now duration h)
  with assms show ?thesis by (auto simp: late_def may_enter_def split: if_splits)
next
  case (Leave now h)
  with assms show ?thesis by (auto simp: late_def split: if_splits)
qed (use assms in \<open>(auto simp: late_def split: if_splits)\<close>)

text \<open>C29: a team that comes late is never let in. If the department starts with the pirates and all of them
  have had their visit before the first ninja queues, the department stays with the pirates for ever:
  nobody is left who could hand it over. There is a run to such a state, and from there the number
  of visits that are left is for ever the number of ninjas, so the program does not end.\<close>

theorem late_team_starves:
  assumes "np \<le> 50" "nn \<le> 50" "2 \<le> chairs" "chairs \<le> 4"
  shows "\<exists>s. reach (pvn_init np nn chairs) (pvn_step np nn) s \<and> (\<forall>h. human np nn h \<and> alignment h = NINJA \<longrightarrow> hpc s h = Home) \<and>
    (\<forall>t. reach (\<lambda>u. u = s) (pvn_step np nn) t \<longrightarrow> visitsLeft t = int nn \<and> (\<forall>h. hpc t h \<noteq> Costume))"
proof -
  obtain s where s: "reach (pvn_init np nn chairs) (pvn_step np nn) s" "pirates_done np nn np s"
    using pirates_alone [OF order_refl assms] by blast
  have start: "late s \<and> visitsLeft s = int nn" using s(2) assms(1)
    by (auto simp: late_def pirates_done_def alignment_def human_def split: if_splits)
  have "late t \<and> visitsLeft t = int nn" if "reach (\<lambda>u. u = s) (pvn_step np nn) t" for t using that
  proof (induction rule: reach.induct)
    case (reach_step t u)
    with late_event [of t _ u] show ?case by (auto simp: pvn_step_def)
  qed (use start in simp)
  moreover have "hpc s h = Home" if "human np nn h" "alignment h = NINJA" for h
    using s(2) that assms(1) by (auto simp: pirates_done_def alignment_def split: if_splits)
  ultimately show ?thesis using s(1) unfolding late_def by blast
qed

theorem late_team_starves_witness:
  "\<exists>s. reach (pvn_init 10 10 2) (pvn_step 10 10) s \<and> hpc s 50 = Home \<and>
    (\<forall>t. reach (\<lambda>u. u = s) (pvn_step 10 10) t \<longrightarrow> visitsLeft t = 10)"
proof -
  have "human 10 10 50 \<and> alignment 50 = NINJA" by (simp add: human_def alignment_def)
  with late_team_starves [of 10 10 2] show ?thesis by fastforce
qed

end
