(* ===== verification/Interceptor.thy ===== *)
theory Interceptor
  imports Shell "HOL-Library.Sublist"
begin

text \<open>
  Project2/module/mod.c without the ancestry call: the kernel module that finds the system call table,
  replaces five of its entries, and scans what users read for a virus. The kernel is a parameter: its
  memory, of which only the words at multiples of four matter here, the control register \<open>cr0\<close>, the
  addresses of its functions, and the system calls that are wrapped, which are functions of their
  arguments. The machine has 32 bits (Project0/submission/uname), and the numbers of the system calls
  are those of Project0/submission/syscall_32.tbl. A write to the table with write protection on is a
  page fault, \<open>None\<close>.
\<close>

section \<open>The scan\<close>

text \<open>\<open>contstr\<close>: the key is a C string, its terminator is read as an element of the array. The inner
  loop gives whether the key was found at \<open>tindex\<close>.\<close>

function contstr_at :: "char list \<Rightarrow> int \<Rightarrow> char list \<Rightarrow> int \<Rightarrow> int \<Rightarrow> bool option" where
  "contstr_at target tsize key tindex i =
     (if tindex + i < tsize then do {
        a \<leftarrow> arr_get target (tindex + i);
        b \<leftarrow> arr_get (key @ [nul]) i;
        if a = b then do {
          c \<leftarrow> arr_get (key @ [nul]) (i + 1);
          if c = nul then Some True else contstr_at target tsize key tindex (i + 1) }
        else Some False }
      else Some False)"
  by pat_completeness auto
termination by (relation "measure (\<lambda>(target, tsize, key, tindex, i). nat (tsize - (tindex + i)))") auto

function contstr_from :: "char list \<Rightarrow> int \<Rightarrow> char list \<Rightarrow> int \<Rightarrow> int option" where
  "contstr_from target tsize key tindex =
     (if tindex < tsize then do {
        found \<leftarrow> contstr_at target tsize key tindex 0;
        if found then Some 1 else contstr_from target tsize key (tindex + 1) }
      else Some 0)"
  by pat_completeness auto
termination by (relation "measure (\<lambda>(target, tsize, key, tindex). nat (tsize - tindex))") auto

definition contstr :: "char list \<Rightarrow> int \<Rightarrow> char list \<Rightarrow> int option" where
  "contstr target tsize key = contstr_from target tsize key 0"

section \<open>The wrapped calls\<close>

text \<open>Each wrapper gives what the call it wraps gives, and what it writes to the log.\<close>

definition new_sys_cs3013_syscall1 :: "int \<times> string list" where
  "new_sys_cs3013_syscall1 =
     (0, [''\"'' @ [CHR 0x27] @ ''Hello world?!'' @ [CHR 0x27] @ '' More like '' @ [CHR 0x27] @ ''Goodbye, world!'' @ [CHR 0x27] @
          '' EXTERMINATE!\" -- Dalek''])"

definition new_sys_open :: "(string \<Rightarrow> int \<Rightarrow> int \<Rightarrow> int) \<Rightarrow> int \<Rightarrow> string \<Rightarrow> int \<Rightarrow> int \<Rightarrow> int \<times> string list" where
  "new_sys_open ref_sys_open uid filename flags mode =
     (let code = ref_sys_open filename flags mode in
      (code, if code \<ge> 0 \<and> uid \<ge> 1000
             then [line (''User '' @ dec uid @ '' is opening file descriptor '' @ dec code @ '':  '' @ filename)] else []))"

definition new_sys_close :: "(int \<Rightarrow> int) \<Rightarrow> int \<Rightarrow> int \<Rightarrow> int \<times> string list" where
  "new_sys_close ref_sys_close uid filedescriptor =
     (ref_sys_close filedescriptor,
      if uid \<ge> 1000 then [line (''User '' @ dec uid @ '' is closing file descriptor:  '' @ dec filedescriptor)] else [])"

text \<open>The wrapped read gives its result and the buffer after it.\<close>

definition new_sys_read ::
  "(int \<Rightarrow> char list \<Rightarrow> int \<Rightarrow> int \<times> char list) \<Rightarrow> int \<Rightarrow> int \<Rightarrow> char list \<Rightarrow> int \<Rightarrow> (int \<times> char list \<times> string list) option" where
  "new_sys_read ref_sys_read uid filedescriptor buf count = do {
     let (code, buf) = ref_sys_read filedescriptor buf count;
     found \<leftarrow> (if uid \<ge> 1000 \<and> code \<ge> 0 then contstr buf count ''VIRUS'' else Some 0);
     Some (code, buf, if found \<noteq> 0
       then [''User '' @ dec uid @ '' read from file descriptor '' @ dec filedescriptor @ '', but the read contained malicious code!'']
       else []) }"

section \<open>The system call table\<close>

abbreviation NR_read :: "32 word" where "NR_read \<equiv> 3"
abbreviation NR_open :: "32 word" where "NR_open \<equiv> 5"
abbreviation NR_close :: "32 word" where "NR_close \<equiv> 6"
abbreviation NR_cs3013_syscall1 :: "32 word" where "NR_cs3013_syscall1 \<equiv> 377"
abbreviation NR_cs3013_syscall2 :: "32 word" where "NR_cs3013_syscall2 \<equiv> 378"

abbreviation ULLONG_MAX :: int where "ULLONG_MAX \<equiv> 2 ^ 64 - 1"

text \<open>The addresses of the functions, and the start of the kernel's memory.\<close>

record symbols =
  page_offset :: "32 word"
  a_sys_close :: "32 word"
  a_new_syscall1 :: "32 word"
  a_new_syscall2 :: "32 word"
  a_new_open :: "32 word"
  a_new_close :: "32 word"
  a_new_read :: "32 word"

record machine =
  mem :: "32 word \<Rightarrow> 32 word"
  cr0 :: "32 word"
  sys_call_table :: "32 word"
  ref_syscall1 :: "32 word"
  ref_syscall2 :: "32 word"
  ref_open :: "32 word"
  ref_close :: "32 word"
  ref_read :: "32 word"
  klog :: "string list"

text \<open>The address of an entry of a table, \<open>sct + nr\<close> on pointers of four bytes.\<close>

definition entry :: "32 word \<Rightarrow> 32 word \<Rightarrow> 32 word" where
  "entry sct nr = sct + 4 * nr"

text \<open>The search; \<open>None\<close> if it does not end. NULL is 0.\<close>

partial_function (option) find_sys_call_table :: "symbols \<Rightarrow> (32 word \<Rightarrow> 32 word) \<Rightarrow> 32 word \<Rightarrow> (32 word) option" where
  "find_sys_call_table k m offset =
     (if uint offset < ULLONG_MAX then
        if m (entry offset NR_close) = a_sys_close k then Some offset
        else find_sys_call_table k m (offset + 4)
      else Some 0)"

declare find_sys_call_table.simps [code]

unbundle bit_operations_syntax

definition disable_page_protection :: "machine \<Rightarrow> machine" where
  "disable_page_protection s = s\<lparr>cr0 := cr0 s AND NOT 0x10000\<rparr>"

definition enable_page_protection :: "machine \<Rightarrow> machine" where
  "enable_page_protection s = s\<lparr>cr0 := cr0 s OR 0x10000\<rparr>"

definition set_entry :: "32 word \<Rightarrow> 32 word \<Rightarrow> machine \<Rightarrow> machine option" where
  "set_entry nr v s = (if bit (cr0 s) 16 then None else Some (s\<lparr>mem := (mem s)(entry (sys_call_table s) nr := v)\<rparr>))"

text \<open>The start gives its return value; the address that is written to the log is left out.\<close>

definition interceptor_start :: "symbols \<Rightarrow> machine \<Rightarrow> (int \<times> machine) option" where
  "interceptor_start k s = do {
     t \<leftarrow> find_sys_call_table k (mem s) (page_offset k);
     let s = s\<lparr>sys_call_table := t\<rparr>;
     if t = 0 then Some (-1, s)
     else do {
       let s = s\<lparr>ref_syscall1 := mem s (entry t NR_cs3013_syscall1), ref_syscall2 := mem s (entry t NR_cs3013_syscall2),
                 ref_open := mem s (entry t NR_open), ref_close := mem s (entry t NR_close), ref_read := mem s (entry t NR_read)\<rparr>;
       let s = disable_page_protection s;
       s \<leftarrow> set_entry NR_cs3013_syscall1 (a_new_syscall1 k) s;
       s \<leftarrow> set_entry NR_cs3013_syscall2 (a_new_syscall2 k) s;
       s \<leftarrow> set_entry NR_open (a_new_open k) s;
       s \<leftarrow> set_entry NR_close (a_new_close k) s;
       s \<leftarrow> set_entry NR_read (a_new_read k) s;
       let s = enable_page_protection s;
       Some (0, s\<lparr>klog := klog s @ [''Loaded interceptor!'']\<rparr>) } }"

definition interceptor_end :: "machine \<Rightarrow> machine option" where
  "interceptor_end s =
     (if sys_call_table s = 0 then Some s
      else do {
        let s = disable_page_protection s;
        s \<leftarrow> set_entry NR_cs3013_syscall1 (ref_syscall1 s) s;
        s \<leftarrow> set_entry NR_cs3013_syscall2 (ref_syscall2 s) s;
        s \<leftarrow> set_entry NR_open (ref_open s) s;
        s \<leftarrow> set_entry NR_close (ref_close s) s;
        s \<leftarrow> set_entry NR_read (ref_read s) s;
        let s = enable_page_protection s;
        Some (s\<lparr>klog := klog s @ [''Unloaded interceptor!'']\<rparr>) })"

section \<open>Lemmas\<close>

declare contstr_at.simps [simp del]
declare contstr_from.simps [simp del]

lemma prefix_drop_step:
  "j < length xs \<Longrightarrow> i < length key \<Longrightarrow>
   prefix (drop i key) (drop j xs) \<longleftrightarrow> xs ! j = key ! i \<and> prefix (drop (Suc i) key) (drop (Suc j) xs)"
  by (auto simp: Cons_nth_drop_Suc [symmetric])

lemma contstr_at_eq:
  assumes "nul \<notin> set key" "n \<le> length target" "i < length key"
  shows "contstr_at target (int n) key (int t) (int i) = Some (prefix (drop i key) (drop (t + i) (take n target)))"
  using assms(3)
proof (induction "length key - i" arbitrary: i)
  case (Suc d)
  note ix = c_simps nat_add_distrib nat_int_add
  show ?case
  proof (cases "t + i < n")
    case True
    have e: "arr_get target (int t + int i) = Some (target ! (t + i))" "arr_get (key @ [nul]) (int i) = Some (key ! i)"
      "arr_get (key @ [nul]) (int i + 1) = Some ((key @ [nul]) ! Suc i)"
      using True Suc.prems assms(2) by (auto simp: ix nth_append)
    have p: "prefix (drop i key) (drop (t + i) (take n target)) \<longleftrightarrow>
        target ! (t + i) = key ! i \<and> prefix (drop (Suc i) key) (drop (Suc (t + i)) (take n target))"
      using prefix_drop_step [of "t + i" "take n target" i key] True Suc.prems assms(2) by simp
    show ?thesis
    proof (cases "Suc i < length key")
      case more: True
      then have "key ! Suc i \<noteq> nul" using assms(1) nth_mem by metis
      moreover have "contstr_at target (int n) key (int t) (int i + 1) = Some (prefix (drop (Suc i) key) (drop (Suc (t + i)) (take n target)))"
        using Suc.hyps(1) [of "Suc i"] Suc.hyps(2) more by (simp add: add.commute)
      ultimately show ?thesis using True e p more by (subst contstr_at.simps) (simp add: nth_append)
    next
      case False
      then have "drop (Suc i) key = []" "(key @ [nul]) ! Suc i = nul" using Suc.prems by (auto simp: nth_append)
      then show ?thesis using True e p by (subst contstr_at.simps) simp
    qed
  next
    case False
    then have "\<not> prefix (drop i key) (drop (t + i) (take n target))" using Suc.prems by simp
    with False show ?thesis by (subst contstr_at.simps) simp
  qed
qed simp

lemma contstr_from_eq:
  assumes "nul \<notin> set key" "key \<noteq> []" "n \<le> length target"
  shows "contstr_from target (int n) key (int t) = Some (if \<exists>j\<ge>t. prefix key (drop j (take n target)) then 1 else 0)"
proof (induction "n - t" arbitrary: t)
  case 0
  then have "\<not> prefix key (drop j (take n target))" if "t \<le> j" for j using that assms(2) by simp
  with 0 show ?case by (subst contstr_from.simps) auto
next
  case (Suc d)
  let ?p = "\<lambda>j. prefix key (drop j (take n target))"
  have at: "contstr_at target (int n) key (int t) 0 = Some (?p t)"
    using contstr_at_eq [OF assms(1,3), of 0 t] assms(2) by simp
  have "contstr_from target (int n) key (int t + 1) = Some (if \<exists>j\<ge>Suc t. ?p j then 1 else 0)"
    using Suc.hyps(1) [of "Suc t"] Suc.hyps(2) by (simp add: add.commute)
  moreover have "(\<exists>j\<ge>t. ?p j) \<longleftrightarrow> ?p t \<or> (\<exists>j\<ge>Suc t. ?p j)" by (metis Suc_leD le_antisym not_less_eq_eq order_refl)
  ultimately show ?case using Suc.hyps(2) at by (subst contstr_from.simps) auto
qed

lemma sublist_drop: "sublist xs ys \<longleftrightarrow> (\<exists>j. prefix xs (drop j ys))"
proof
  assume "sublist xs ys"
  then obtain ps ss where "ys = ps @ xs @ ss" by (auto simp: sublist_def)
  then have "prefix xs (drop (length ps) ys)" by simp
  then show "\<exists>j. prefix xs (drop j ys)" ..
next
  assume "\<exists>j. prefix xs (drop j ys)"
  then obtain j where "prefix xs (drop j ys)" ..
  then show "sublist xs ys" by (metis append_take_drop_id prefix_def sublist_def)
qed

lemma contstr_eq:
  "nul \<notin> set key \<Longrightarrow> key \<noteq> [] \<Longrightarrow> n \<le> length target \<Longrightarrow>
   contstr target (int n) key = Some (if sublist key (take n target) then 1 else 0)"
  using contstr_from_eq [of key n target 0] by (simp add: contstr_def sublist_drop)

section \<open>Properties\<close>

text \<open>C23: the naive search is right. For a key that is not empty it ends, without a read outside the two
  arrays, and says 1 exactly if the key is a sublist of the first \<open>tsize\<close> characters of the target.
  The empty key is read past its end if the target starts with a zero.\<close>

theorem contstr_correct:
  assumes "nul \<notin> set key" "tsize \<le> int (length target)"
  shows "(key \<noteq> [] \<longrightarrow> contstr target tsize key = Some (if sublist key (take (nat tsize) target) then 1 else 0)) \<and>
    (tsize > 0 \<and> target ! 0 = nul \<longrightarrow> contstr target tsize [] = None)"
proof -
  have "contstr target tsize key = Some (if sublist key (take (nat tsize) target) then 1 else 0)" if "key \<noteq> []"
  proof (cases "0 \<le> tsize")
    case True
    then show ?thesis using contstr_eq [OF assms(1) that, of "nat tsize" target] assms(2) by simp
  next
    case False
    then show ?thesis using that by (simp add: contstr_def contstr_from.simps [of _ tsize])
  qed
  moreover have "contstr target tsize [] = None" if "tsize > 0" "target ! 0 = nul"
    using that assms(2) by (simp add: contstr_def contstr_from.simps [of _ tsize] contstr_at.simps [of _ tsize] c_simps)
  ultimately show ?thesis by blast
qed

theorem contstr_correct_witness: "contstr ''a VIRUS here'' 12 ''VIRUS'' = Some 1 \<and> contstr [nul] 1 [] = None"
proof -
  have "sublist ''VIRUS'' ''a VIRUS here''" by code_simp
  with contstr_correct [of "''VIRUS''" 12 "''a VIRUS here''"] contstr_correct [of "''x''" 1 "[nul]"] show ?thesis by simp
qed

text \<open>C24: the scan of a read. If the buffer has room for \<open>count\<close> characters, as the interface of \<open>read\<close>
  demands, the caller gets exactly the result and the buffer of the original call, and an alarm is
  logged exactly if the caller is a user, the call succeeded, and the first \<open>count\<close> characters of the
  buffer, not those that have just been read, contain the word VIRUS. So a virus that is in one read is
  always found, but what was in the buffer before may raise an alarm.\<close>

theorem virus_scan_correct:
  assumes "ref_sys_read fd buf count = (r, buf')" "r \<le> count" "count \<le> int (length buf')"
  shows "\<exists>log. new_sys_read ref_sys_read uid fd buf count = Some (r, buf', log) \<and>
    (log \<noteq> [] \<longleftrightarrow> uid \<ge> 1000 \<and> r \<ge> 0 \<and> sublist ''VIRUS'' (take (nat count) buf')) \<and>
    (uid \<ge> 1000 \<and> r \<ge> 0 \<and> sublist ''VIRUS'' (take (nat r) buf') \<longrightarrow> log \<noteq> [])"
proof -
  have c: "contstr buf' count ''VIRUS'' = Some (if sublist ''VIRUS'' (take (nat count) buf') then 1 else 0)" if "0 \<le> count"
    using contstr_eq [of "''VIRUS''" "nat count" buf'] that assms(3) by simp
  have "sublist (take (nat r) buf') (take (nat count) buf')"
    using assms(2) by (metis nat_mono prefix_imp_sublist take_is_prefix take_take min.absorb1)
  then have "sublist ''VIRUS'' (take (nat r) buf') \<Longrightarrow> sublist ''VIRUS'' (take (nat count) buf')"
    by (meson sublist_order.order_trans)
  then show ?thesis using assms(1,2) c by (auto simp: new_sys_read_def)
qed

theorem virus_scan_correct_witness:
  "\<exists>log. new_sys_read (\<lambda>fd buf count. (0, buf)) 1000 3 ''a VIRUS'' 7 = Some (0, ''a VIRUS'', log) \<and> log \<noteq> []"
proof -
  have "sublist ''VIRUS'' ''a VIRUS''" by code_simp
  with virus_scan_correct [of "\<lambda>fd buf count. (0, buf)" 3 "''a VIRUS''" 7 0 "''a VIRUS''" 1000] show ?thesis by auto
qed

lemma offset_below: "uint (offset :: 32 word) < ULLONG_MAX"
  using uint_lt2p [of offset] by simp

lemma find_step:
  "find_sys_call_table k m offset =
     (if m (entry offset NR_close) = a_sys_close k then Some offset else find_sys_call_table k m (offset + 4))"
  using offset_below [of offset] by (subst find_sys_call_table.simps) simp

lemma find_prefix:
  "\<forall>j<n. m (entry (offset + 4 * of_nat j) NR_close) \<noteq> a_sys_close k \<Longrightarrow>
   find_sys_call_table k m offset = find_sys_call_table k m (offset + 4 * of_nat n)"
proof (induction n)
  case (Suc n)
  then have "find_sys_call_table k m offset = find_sys_call_table k m (offset + 4 * of_nat n)" by simp
  also have "\<dots> = find_sys_call_table k m (offset + 4 * of_nat n + 4)" using Suc.prems find_step by simp
  finally show ?case by (simp add: algebra_simps)
qed simp

lemma find_sound: "find_sys_call_table k m offset = Some t \<Longrightarrow> m (entry t NR_close) = a_sys_close k"
  by (rule find_sys_call_table.raw_induct [of "\<lambda>k m offset t. m (entry t NR_close) = a_sys_close k"])
    (use offset_below in \<open>auto split: if_splits\<close>)

lemma find_found:
  assumes "find_sys_call_table k m offset = Some t"
  shows "\<exists>n. t = offset + 4 * of_nat n"
proof (rule find_sys_call_table.raw_induct [of "\<lambda>k m offset t. \<exists>n. t = offset + 4 * of_nat n", OF _ assms])
  fix f k m t and offset :: "32 word"
  assume IH: "\<And>k m offset t. f k m offset = Some t \<Longrightarrow> \<exists>n. t = offset + 4 * of_nat n"
    and b: "(if uint offset < ULLONG_MAX then if m (entry offset NR_close) = a_sys_close k then Some offset else f k m (offset + 4)
      else Some 0) = Some t"
  show "\<exists>n. t = offset + 4 * of_nat n"
  proof (cases "m (entry offset NR_close) = a_sys_close k")
    case True
    with b offset_below [of offset] show ?thesis by (intro exI [of _ 0]) simp
  next
    case False
    with b offset_below [of offset] have "f k m (offset + 4) = Some t" by simp
    from IH [OF this] obtain n where "t = offset + 4 + 4 * of_nat n" ..
    then show ?thesis by (intro exI [of _ "Suc n"]) (simp add: algebra_simps)
  qed
qed

text \<open>C25: the search for the system call table gives the first address, counting on from the start of the
  kernel's memory and around the end of the address space, at which the entry of \<open>close\<close> is the address
  of \<open>sys_close\<close>. It never gives up: if there is no such address it does not end, since an address of
  32 bits is always below the bound of the loop.\<close>

theorem find_sys_call_table_first:
  "(find_sys_call_table k m offset = Some t \<longleftrightarrow>
     (\<exists>n. t = offset + 4 * of_nat n \<and> m (entry t NR_close) = a_sys_close k \<and>
        \<not> (\<exists>j<n. m (entry (offset + 4 * of_nat j) NR_close) = a_sys_close k))) \<and>
   (find_sys_call_table k m offset = None \<longleftrightarrow> \<not> (\<exists>n. m (entry (offset + 4 * of_nat n) NR_close) = a_sys_close k))"
proof -
  let ?p = "\<lambda>n. m (entry (offset + 4 * of_nat n) NR_close) = a_sys_close k"
  have found: "find_sys_call_table k m offset = Some (offset + 4 * of_nat n)" if "?p n" "\<not> (\<exists>j<n. ?p j)" for n
    using that find_prefix [of n m offset k] find_step [of k m "offset + 4 * of_nat n"] by auto
  have ex: "\<exists>n. ?p n \<and> \<not> (\<exists>j<n. ?p j) \<and> find_sys_call_table k m offset = Some (offset + 4 * of_nat n)" if "?p n" for n
    using found [of "LEAST n. ?p n"] that LeastI [of ?p n] not_less_Least [of _ ?p] by blast
  have some: "\<exists>n. ?p n \<and> \<not> (\<exists>j<n. ?p j) \<and> t = offset + 4 * of_nat n" if f: "find_sys_call_table k m offset = Some t" for t
  proof -
    obtain n where "t = offset + 4 * of_nat n" using find_found [OF f] ..
    then have "?p n" using find_sound [OF f] by simp
    from ex [OF this] f show ?thesis by auto
  qed
  have "find_sys_call_table k m offset = Some t \<longleftrightarrow> (\<exists>n. t = offset + 4 * of_nat n \<and> m (entry t NR_close) = a_sys_close k \<and> \<not> (\<exists>j<n. ?p j))"
    using some [of t] found by blast
  moreover have "find_sys_call_table k m offset = None \<longleftrightarrow> \<not> (\<exists>n. ?p n)"
  proof (cases "find_sys_call_table k m offset")
    case None
    then show ?thesis using ex by (metis option.distinct(1))
  next
    case (Some t)
    then show ?thesis using some [OF Some] by auto
  qed
  ultimately show ?thesis by blast
qed

lemmas entry_neq = entry_def add_left_cancel

lemma protection_again: "w AND - 65537 OR 65536 = (w OR 65536 :: 32 word)"
proof -
  have "(w AND NOT 0x10000) OR 0x10000 = (w OR 0x10000 :: 32 word)" by (rule bit_eqI) (auto simp: bit_simps)
  then show ?thesis by simp
qed

lemma set_entry_open [simp]:
  "\<not> bit (cr0 s) 16 \<Longrightarrow> set_entry nr v s = Some (s\<lparr>mem := (mem s)(entry (sys_call_table s) nr := v)\<rparr>)"
  by (simp add: set_entry_def)

text \<open>The addresses of the five entries.\<close>

definition hooked :: "32 word list" where
  "hooked = [NR_cs3013_syscall1, NR_cs3013_syscall2, NR_open, NR_close, NR_read]"

lemma start_eq:
  assumes "find_sys_call_table k (mem s) (page_offset k) = Some t" "t \<noteq> 0"
  shows "interceptor_start k s = Some (0, s\<lparr>sys_call_table := t,
      ref_syscall1 := mem s (entry t NR_cs3013_syscall1), ref_syscall2 := mem s (entry t NR_cs3013_syscall2),
      ref_open := mem s (entry t NR_open), ref_close := mem s (entry t NR_close), ref_read := mem s (entry t NR_read),
      mem := (mem s)(entry t NR_cs3013_syscall1 := a_new_syscall1 k, entry t NR_cs3013_syscall2 := a_new_syscall2 k,
        entry t NR_open := a_new_open k, entry t NR_close := a_new_close k, entry t NR_read := a_new_read k),
      cr0 := cr0 s OR 0x10000, klog := klog s @ [''Loaded interceptor!'']\<rparr>)"
  using assms by (simp add: interceptor_start_def Let_def disable_page_protection_def enable_page_protection_def
      bit_simps bit_numeral_rec protection_again)

lemma end_eq:
  assumes "sys_call_table s \<noteq> 0"
  defines "t \<equiv> sys_call_table s"
  shows "interceptor_end s = Some (s\<lparr>mem := (mem s)(entry t NR_cs3013_syscall1 := ref_syscall1 s, entry t NR_cs3013_syscall2 := ref_syscall2 s,
        entry t NR_open := ref_open s, entry t NR_close := ref_close s, entry t NR_read := ref_read s),
      cr0 := cr0 s OR 0x10000, klog := klog s @ [''Unloaded interceptor!'']\<rparr>)"
  using assms by (simp add: interceptor_end_def Let_def disable_page_protection_def enable_page_protection_def
      bit_simps bit_numeral_rec protection_again)

text \<open>C9: loading and unloading the module. Once the table is found, loading never writes to protected
  memory, sends the five calls to the new functions, remembers the old ones, leaves all other memory
  alone and ends with the protection on. Unloading then restores the memory completely.\<close>

theorem interceptor_roundtrip:
  assumes "find_sys_call_table k (mem s) (page_offset k) = Some t" "t \<noteq> 0"
  shows "\<exists>s1 s2. interceptor_start k s = Some (0, s1) \<and>
    map (\<lambda>nr. mem s1 (entry t nr)) hooked = [a_new_syscall1 k, a_new_syscall2 k, a_new_open k, a_new_close k, a_new_read k] \<and>
    (\<forall>a. a \<notin> entry t ` set hooked \<longrightarrow> mem s1 a = mem s a) \<and> ref_close s1 = a_sys_close k \<and> bit (cr0 s1) 16 \<and>
    interceptor_end s1 = Some s2 \<and> mem s2 = mem s \<and> bit (cr0 s2) 16"
proof -
  obtain s1 where s1: "interceptor_start k s = Some (0, s1)" and e: "s1 = snd (the (interceptor_start k s))"
    using start_eq [OF assms] by simp
  note f = e [unfolded start_eq [OF assms], simplified]
  have "interceptor_end s1 = Some (the (interceptor_end s1))" "mem (the (interceptor_end s1)) = mem s" "bit (cr0 (the (interceptor_end s1))) 16"
    using end_eq [of s1] assms(2) f by (auto simp: fun_eq_iff entry_neq bit_simps bit_numeral_rec)
  moreover have "ref_close s1 = a_sys_close k" using find_sound [OF assms(1)] f by simp
  moreover have "map (\<lambda>nr. mem s1 (entry t nr)) hooked = [a_new_syscall1 k, a_new_syscall2 k, a_new_open k, a_new_close k, a_new_read k]"
    "\<forall>a. a \<notin> entry t ` set hooked \<longrightarrow> mem s1 a = mem s a" "bit (cr0 s1) 16"
    using f by (auto simp: hooked_def entry_neq bit_simps bit_numeral_rec)
  ultimately show ?thesis using s1 by (intro exI [of _ s1] exI [of _ "the (interceptor_end s1)"]) simp
qed

text \<open>A machine whose table is at the start of the kernel's memory.\<close>

definition sample_symbols :: symbols where
  "sample_symbols = \<lparr>page_offset = 0xC0000000, a_sys_close = 7, a_new_syscall1 = 101, a_new_syscall2 = 102, a_new_open = 103,
     a_new_close = 104, a_new_read = 105\<rparr>"

definition sample_machine :: machine where
  "sample_machine = \<lparr>mem = (\<lambda>a. if a = 0xC0000018 then 7 else 0), cr0 = 0x10000, sys_call_table = 0, ref_syscall1 = 0, ref_syscall2 = 0,
     ref_open = 0, ref_close = 0, ref_read = 0, klog = []\<rparr>"

theorem interceptor_roundtrip_witness:
  "\<exists>s1 s2. interceptor_start sample_symbols sample_machine = Some (0, s1) \<and> interceptor_end s1 = Some s2 \<and>
     mem s2 = mem sample_machine \<and> mem s1 (entry 0xC0000000 NR_read) = 105"
proof -
  have "find_sys_call_table sample_symbols (mem sample_machine) (page_offset sample_symbols) = Some 0xC0000000"
    by (subst find_step) (simp add: sample_symbols_def sample_machine_def entry_def)
  from interceptor_roundtrip [OF this] show ?thesis by (auto simp: hooked_def sample_symbols_def)
qed

end
