(* ===== verification/Ancestry.thy ===== *)
theory Ancestry
  imports Shell
begin

text \<open>
  Project2/procAncestry/procAncestry.c and the system call of Project2/module/mod.c it makes: the
  relatives of a process. The processes of the kernel are a parameter: a task is a number, with its
  identifier, the pointer to its parent and the list of its children, and \<open>find_task\<close> is
  \<open>pid_task(find_vpid(pid), PIDTYPE_PID)\<close>. Dereferencing a NULL parent is \<open>None\<close>. The three copies from
  and to user space may fail. The system call gives its return value, the structure in user space
  (if it was copied back) and its log.
\<close>

section \<open>The system call\<close>

record tasks =
  pid :: "nat \<Rightarrow> int"
  parent :: "nat \<Rightarrow> nat option"
  children :: "nat \<Rightarrow> nat list"
  find_task :: "int \<Rightarrow> nat option"

record ancestry =
  a_ancestors :: "int list"
  a_siblings :: "int list"
  a_children :: "int list"

text \<open>The loops over the children and the siblings: \<open>i\<close> is the place of the next one.\<close>

fun list_tasks :: "tasks \<Rightarrow> string \<Rightarrow> nat list \<Rightarrow> nat \<Rightarrow> int list \<Rightarrow> string list \<Rightarrow> (int list \<times> string list) option" where
  "list_tasks k what [] i arr log = Some (arr, log)"
| "list_tasks k what (cur # rest) i arr log = do {
     arr \<leftarrow> arr_set arr (int i) (pid k cur);
     let log = log @ [line (''ANCESTRY: Found '' @ what @ '': '' @ dec (pid k cur))];
     if i + 1 \<ge> 100 then Some (arr, log) else list_tasks k what rest (i + 1) arr log }"

function list_ancestors :: "tasks \<Rightarrow> nat \<Rightarrow> nat \<Rightarrow> int list \<Rightarrow> string list \<Rightarrow> (int list \<times> string list) option" where
  "list_ancestors k task i arr log =
     (case parent k task of
        None \<Rightarrow> Some (arr, log)
      | Some p \<Rightarrow>
          if i < 10 then do {
            arr \<leftarrow> arr_set arr (int i) (pid k p);
            if pid k p = 0 then Some (arr, log)
            else list_ancestors k p (i + 1) arr (log @ [line (''ANCESTRY: Found ancestor: '' @ dec (pid k p))]) }
          else Some (arr, log))"
  by pat_completeness auto
termination by (relation "measure (\<lambda>(k, task, i, arr, log). 10 - i)") auto

definition new_sys_cs3013_syscall2 ::
  "tasks \<Rightarrow> int option \<Rightarrow> ancestry option \<Rightarrow> bool \<Rightarrow> (int \<times> ancestry option \<times> string list) option" where
  "new_sys_cs3013_syscall2 k upid response copied =
     (case upid of
        None \<Rightarrow> Some (-1, None, [])
      | Some target \<Rightarrow>
     (case response of
        None \<Rightarrow> Some (-1, None, [])
      | Some a \<Rightarrow>
     (case find_task k target of
        None \<Rightarrow> Some (-1, None, [])
      | Some task \<Rightarrow> do {
          let log = [line (''ANCESTRY: Found target: '' @ dec target)];
          (cs, log) \<leftarrow> list_tasks k ''child'' (children k task) 0 (a_children a) log;
          p \<leftarrow> parent k task;
          (ss, log) \<leftarrow> list_tasks k ''sibling'' (children k p) 0 (a_siblings a) log;
          (as, log) \<leftarrow> list_ancestors k task 0 (a_ancestors a) log;
          if copied then Some (0, Some \<lparr>a_ancestors = as, a_siblings = ss, a_children = cs\<rparr>, log)
          else Some (-1, None, log) })))"

section \<open>The program\<close>

definition init_ancestry :: ancestry where
  "init_ancestry = \<lparr>a_ancestors = replicate 10 (-1), a_siblings = replicate 100 (-1), a_children = replicate 100 (-1)\<rparr>"

text \<open>The loop that prints up to the first -1.\<close>

fun print_pids :: "nat \<Rightarrow> nat \<Rightarrow> int list \<Rightarrow> string option" where
  "print_pids 0 i arr = Some []"
| "print_pids (Suc n) i arr = do {
     p \<leftarrow> arr_get arr (int i);
     if p \<noteq> -1 then do { r \<leftarrow> print_pids n (i + 1) arr; Some (dec p @ '', '' @ r) } else Some [] }"

definition print_siblings :: "ancestry \<Rightarrow> string option" where
  "print_siblings a = do { r \<leftarrow> print_pids 100 0 (a_siblings a); Some (line ''SIBLINGS:'' @ r @ [newline]) }"

definition print_children :: "ancestry \<Rightarrow> string option" where
  "print_children a = do { r \<leftarrow> print_pids 100 0 (a_children a); Some (line ''CHILDREN:'' @ r @ [newline]) }"

text \<open>The loop from the last ancestor to the first; \<open>n\<close> is \<open>i + 1\<close>.\<close>

fun print_up :: "nat \<Rightarrow> int list \<Rightarrow> string option" where
  "print_up 0 arr = Some []"
| "print_up (Suc i) arr = do {
     p \<leftarrow> arr_get arr (int i);
     r \<leftarrow> print_up i arr;
     Some ((if p > 0 then dec p @ '' -> '' else []) @ r) }"

definition print_ancestors :: "ancestry \<Rightarrow> string option" where
  "print_ancestors a = do { r \<leftarrow> print_up 10 (a_ancestors a); Some (line ''ANCESTORS:'' @ r @ line (''{target}'' @ [newline])) }"

datatype outcome = Exited int | Aborted

text \<open>\<open>main\<close>: the output and how the program ends. The copies of the system call are those of two
  variables on the stack; whether they succeed is a parameter.\<close>

definition procAncestry :: "tasks \<Rightarrow> bool \<Rightarrow> bool \<Rightarrow> bool \<Rightarrow> string list \<Rightarrow> (string \<times> outcome) option" where
  "procAncestry k got_pid got_struct copied args =
     (if length args \<noteq> 2 then Some (line ''Improper number of arguments.'', Exited (-1))
      else do {
        target \<leftarrow> atoi (args ! 1);
        let out = line (''Target: '' @ dec target);
        (r, resp, log) \<leftarrow> new_sys_cs3013_syscall2 k (if got_pid then Some target else None)
          (if got_struct then Some init_ancestry else None) copied;
        if r < 0 then Some (out @ line (''Failed with error code '' @ dec r), Aborted)
        else do {
          let a = (case resp of None \<Rightarrow> init_ancestry | Some a \<Rightarrow> a);
          cs \<leftarrow> print_children a;
          ss \<leftarrow> print_siblings a;
          as \<leftarrow> print_ancestors a;
          Some (out @ cs @ ss @ as, Exited 0) } })"

section \<open>Lemmas\<close>

declare list_ancestors.simps [simp del]

text \<open>The identifiers of the parent, its parent and so on: \<open>n\<close> of them at most, up to the first 0.\<close>

fun above :: "tasks \<Rightarrow> nat \<Rightarrow> nat \<Rightarrow> int list" where
  "above k 0 t = []"
| "above k (Suc n) t = (case parent k t of None \<Rightarrow> [] | Some p \<Rightarrow> pid k p # (if pid k p = 0 then [] else above k n p))"

lemma above_length: "length (above k n t) \<le> n"
  by (induction k n t rule: above.induct) (auto split: option.splits)

text \<open>Writing a list into an array from a place on.\<close>

definition overwrite :: "'a list \<Rightarrow> nat \<Rightarrow> 'a list \<Rightarrow> 'a list" where
  "overwrite arr i xs = take i arr @ xs @ drop (i + length xs) arr"

lemma overwrite_Nil [simp]: "overwrite arr i [] = arr"
  by (simp add: overwrite_def)

lemma overwrite_Cons: "i < length arr \<Longrightarrow> overwrite (arr[i := x]) (Suc i) xs = overwrite arr i (x # xs)"
  by (simp add: overwrite_def take_Suc_conv_app_nth)

lemma list_tasks_eq:
  "length arr = 100 \<Longrightarrow> i < 100 \<Longrightarrow> \<exists>log'. list_tasks k what ts i arr log = Some (overwrite arr i (map (pid k) (take (100 - i) ts)), log')"
proof (induction ts arbitrary: i arr log)
  case (Cons t ts)
  have t: "take (100 - i) (t # ts) = t # take (100 - Suc i) ts" using Cons.prems by (simp add: take_Cons')
  show ?case
  proof (cases "Suc i < 100")
    case True
    with Cons.IH [of "arr[i := pid k t]" "Suc i"] Cons.prems t overwrite_Cons [of i arr] show ?thesis by simp
  next
    case False
    with Cons.prems t overwrite_Cons [of i arr "pid k t" "[]"] show ?thesis by simp
  qed
qed simp

lemma list_ancestors_eq:
  "length arr = 10 \<Longrightarrow> i \<le> 10 \<Longrightarrow> \<exists>log'. list_ancestors k t i arr log = Some (overwrite arr i (above k (10 - i) t), log')"
proof (induction "10 - i" arbitrary: i arr log t)
  case 0
  then show ?case by (subst list_ancestors.simps) (simp split: option.split)
next
  case (Suc d)
  then have i: "10 - i = Suc (10 - Suc i)" "i < 10" by simp_all
  show ?case
  proof (cases "parent k t")
    case None
    then show ?thesis unfolding i by (subst list_ancestors.simps) simp
  next
    case (Some p)
    have "\<exists>log'. list_ancestors k p (Suc i) (arr[i := pid k p]) l = Some (overwrite arr i (pid k p # above k (10 - Suc i) p), log')" for l
      using Suc.hyps(1) [of "Suc i" "arr[i := pid k p]" p l] Suc.hyps(2) Suc.prems overwrite_Cons [of i arr] by simp
    with Some i Suc.prems overwrite_Cons [of i arr "pid k p" "[]"] show ?thesis
      unfolding i(1) by (subst list_ancestors.simps) simp
  qed
qed

lemma print_pids_eq:
  "i + n \<le> length arr \<Longrightarrow>
   print_pids n i arr = Some (concat (map (\<lambda>p. dec p @ '', '') (takeWhile (\<lambda>p. p \<noteq> -1) (take n (drop i arr)))))"
proof (induction n arbitrary: i)
  case (Suc n)
  then have "drop i arr = arr ! i # drop (Suc i) arr" by (simp add: Cons_nth_drop_Suc)
  with Suc show ?case by simp
qed simp

lemma print_up_eq:
  "n \<le> length arr \<Longrightarrow> print_up n arr = Some (concat (map (\<lambda>p. dec p @ '' -> '') (rev (filter (\<lambda>p. p > 0) (take n arr)))))"
  by (induction n) (auto simp: take_Suc_conv_app_nth)

text \<open>What is printed of an array that was -1 throughout before the system call wrote into it.\<close>

lemma overwrite_replicate: "length xs \<le> n \<Longrightarrow> overwrite (replicate n x) 0 xs = xs @ replicate (n - length xs) x"
  by (simp add: overwrite_def)

lemma takeWhile_pids:
  "\<forall>t. 0 \<le> pid k t \<Longrightarrow> takeWhile (\<lambda>p. p \<noteq> -1) (map (pid k) ts @ replicate n (-1)) = map (pid k) ts"
proof (induction ts)
  case (Cons t ts)
  then have "pid k t \<noteq> -1" by (metis neg_0_le_iff_le not_one_le_zero)
  with Cons show ?case by simp
qed (cases n; simp)

lemma print_listed:
  "\<forall>t. 0 \<le> pid k t \<Longrightarrow> print_pids 100 0 (overwrite (replicate 100 (-1)) 0 (map (pid k) (take 100 ts))) =
     Some (concat (map (\<lambda>t. dec (pid k t) @ '', '') (take 100 ts)))"
  using takeWhile_pids [of k "take 100 ts"]
  by (simp add: print_pids_eq overwrite_replicate comp_def del: takeWhile_append)

lemma print_above:
  "print_up 10 (overwrite (replicate 10 (-1)) 0 (above k 10 t)) =
     Some (concat (map (\<lambda>p. dec p @ '' -> '') (rev (filter (\<lambda>p. p > 0) (above k 10 t)))))"
  using above_length [of k 10 t] by (simp add: print_up_eq overwrite_replicate)

lemma syscall2_eq:
  assumes "find_task k target = Some t" "parent k t = Some p"
  shows "\<exists>log. new_sys_cs3013_syscall2 k (Some target) (Some init_ancestry) True =
      Some (0, Some \<lparr>a_ancestors = overwrite (replicate 10 (-1)) 0 (above k 10 t),
        a_siblings = overwrite (replicate 100 (-1)) 0 (map (pid k) (take 100 (children k p))),
        a_children = overwrite (replicate 100 (-1)) 0 (map (pid k) (take 100 (children k t)))\<rparr>, log)"
proof -
  let ?o = "\<lambda>ts. overwrite (replicate 100 (-1)) 0 (map (pid k) (take 100 ts))"
  let ?l = "[line (''ANCESTRY: Found target: '' @ dec target)]"
  obtain l1 where l1: "list_tasks k ''child'' (children k t) 0 (replicate 100 (-1)) ?l = Some (?o (children k t), l1)"
    using list_tasks_eq [of "replicate 100 (-1)" 0 k "''child''" "children k t" ?l] by auto
  obtain l2 where l2: "list_tasks k ''sibling'' (children k p) 0 (replicate 100 (-1)) l1 = Some (?o (children k p), l2)"
    using list_tasks_eq [of "replicate 100 (-1)" 0 k "''sibling''" "children k p" l1] by auto
  obtain l3 where l3: "list_ancestors k t 0 (replicate 10 (-1)) l2 = Some (overwrite (replicate 10 (-1)) 0 (above k 10 t), l3)"
    using list_ancestors_eq [of "replicate 10 (-1)" 0 k t l2] by auto
  show ?thesis using assms l1 l2 l3 by (simp add: new_sys_cs3013_syscall2_def init_ancestry_def Let_def)
qed

section \<open>Properties\<close>

text \<open>C26: what procAncestry prints. For a process that does not exist it reports the error and aborts. For
  any other process it prints, without an access outside its arrays, the first hundred children of the
  process, the first hundred children of its parent, the process itself among them, and the chain of its
  ancestors, ten at most and without the process 0, the oldest first. The kernel has no negative
  process identifiers.\<close>

theorem procAncestry_correct:
  assumes "length args = 2" "atoi (args ! 1) = Some target" "\<forall>t. 0 \<le> pid k t"
  shows "case find_task k target of
      None \<Rightarrow> procAncestry k True True True args =
        Some (line (''Target: '' @ dec target) @ line ''Failed with error code -1'', Aborted)
    | Some t \<Rightarrow> \<forall>p. parent k t = Some p \<longrightarrow> procAncestry k True True True args =
        Some (line (''Target: '' @ dec target) @
          line ''CHILDREN:'' @ concat (map (\<lambda>c. dec (pid k c) @ '', '') (take 100 (children k t))) @ [newline] @
          line ''SIBLINGS:'' @ concat (map (\<lambda>c. dec (pid k c) @ '', '') (take 100 (children k p))) @ [newline] @
          line ''ANCESTORS:'' @ concat (map (\<lambda>a. dec a @ '' -> '') (rev (filter (\<lambda>a. a > 0) (above k 10 t)))) @
          line (''{target}'' @ [newline]), Exited 0)"
proof (cases "find_task k target")
  case None
  have "dec (-1) = ''-1''" by code_simp
  with None assms show ?thesis by (simp add: procAncestry_def new_sys_cs3013_syscall2_def Let_def line_def)
next
  case (Some t)
  have "procAncestry k True True True args =
      Some (line (''Target: '' @ dec target) @
          line ''CHILDREN:'' @ concat (map (\<lambda>c. dec (pid k c) @ '', '') (take 100 (children k t))) @ [newline] @
          line ''SIBLINGS:'' @ concat (map (\<lambda>c. dec (pid k c) @ '', '') (take 100 (children k p))) @ [newline] @
          line ''ANCESTORS:'' @ concat (map (\<lambda>a. dec a @ '' -> '') (rev (filter (\<lambda>a. a > 0) (above k 10 t)))) @
          line (''{target}'' @ [newline]), Exited 0)" if p: "parent k t = Some p" for p
  proof -
    obtain log where "new_sys_cs3013_syscall2 k (Some target) (Some init_ancestry) True =
      Some (0, Some \<lparr>a_ancestors = overwrite (replicate 10 (-1)) 0 (above k 10 t),
        a_siblings = overwrite (replicate 100 (-1)) 0 (map (pid k) (take 100 (children k p))),
        a_children = overwrite (replicate 100 (-1)) 0 (map (pid k) (take 100 (children k t)))\<rparr>, log)"
      using syscall2_eq [OF Some p] by blast
    then show ?thesis using assms print_listed [OF assms(3)] print_above [of k t]
      by (simp add: procAncestry_def Let_def print_children_def print_siblings_def print_ancestors_def)
  qed
  with Some show ?thesis by simp
qed

text \<open>Init, its two children and a grandchild.\<close>

definition sample_tasks :: tasks where
  "sample_tasks = \<lparr>pid = int, parent = (\<lambda>t. if t = 0 then Some 0 else if t = 1 then Some 0 else if t = 2 \<or> t = 3 then Some 1 else Some 2),
     children = (\<lambda>t. if t = 0 then [1] else if t = 1 then [2, 3] else if t = 2 then [4] else []),
     find_task = (\<lambda>p. if 0 \<le> p \<and> p \<le> 4 then Some (nat p) else None)\<rparr>"

theorem procAncestry_correct_witness:
  "procAncestry sample_tasks True True True [''procAncestry'', ''2''] =
     Some (line ''Target: 2'' @ line ''CHILDREN:'' @ ''4, '' @ [newline] @ line ''SIBLINGS:'' @ ''2, 3, '' @ [newline] @
       line ''ANCESTORS:'' @ ''1 -> '' @ line (''{target}'' @ [newline]), Exited 0) \<and>
   procAncestry sample_tasks True True True [''procAncestry'', ''9''] =
     Some (line ''Target: 9'' @ line ''Failed with error code -1'', Aborted)"
proof -
  have a: "atoi ''2'' = Some 2" "atoi ''9'' = Some 9" by code_simp+
  have d: "dec 1 = ''1''" "dec 2 = ''2''" "dec 3 = ''3''" "dec 4 = ''4''" "dec 9 = ''9''" by code_simp+
  have "above sample_tasks 10 2 = [1, 0]" by (simp add: numeral_eq_Suc sample_tasks_def)
  with procAncestry_correct [of "[''procAncestry'', ''2'']" 2 sample_tasks] procAncestry_correct [of "[''procAncestry'', ''9'']" 9 sample_tasks]
  show ?thesis using a d by (simp add: sample_tasks_def)
qed

end
