(* ===== verification/Creds.thy ===== *)
theory Creds
  imports Prelude "HOL-Library.Word"
begin

text \<open>
  Project0/submission/sys.c, the kernel's system calls that change the identity of a process, and the
  three calls the project adds. The identity is a record of eight kernel ids of 32 bits. What the file
  only calls is a parameter: the translation between ids of a user namespace and kernel ids, the
  capabilities, which depend on the current credentials, whether memory can be had, and the decision of
  the security module. \<open>prepare_creds\<close> gives a copy of the current credentials, \<open>commit_creds\<close> installs it
  and returns 0, \<open>abort_creds\<close> throws it away. Errors are negative return values.
\<close>

section \<open>State\<close>

abbreviation EPERM :: int where "EPERM \<equiv> 1"
abbreviation ESRCH :: int where "ESRCH \<equiv> 3"
abbreviation EAGAIN :: int where "EAGAIN \<equiv> 11"
abbreviation ENOMEM :: int where "ENOMEM \<equiv> 12"
abbreviation EACCES :: int where "EACCES \<equiv> 13"
abbreviation EFAULT :: int where "EFAULT \<equiv> 14"
abbreviation EINVAL :: int where "EINVAL \<equiv> 22"

type_synonym kid = "32 word"

record cred =
  uid :: kid
  gid :: kid
  suid :: kid
  sgid :: kid
  euid :: kid
  egid :: kid
  fsuid :: kid
  fsgid :: kid

text \<open>The current process: its credentials and the flag \<open>PF_NPROC_EXCEEDED\<close>.\<close>

record proc =
  cred :: cred
  nproc_exceeded :: bool

datatype setid = LSM_SETID_RE | LSM_SETID_ID | LSM_SETID_RES | LSM_SETID_FS

record sys =
  make_kuid :: "kid \<Rightarrow> kid"
  make_kgid :: "kid \<Rightarrow> kid"
  from_kuid_munged :: "kid \<Rightarrow> kid"
  from_kgid_munged :: "kid \<Rightarrow> kid"
  cap_setuid :: "cred \<Rightarrow> bool"
  cap_setgid :: "cred \<Rightarrow> bool"
  prepare_ok :: "cred \<Rightarrow> bool"
  alloc_ok :: "kid \<Rightarrow> bool"
  processes :: "kid \<Rightarrow> int"
  rlimit_nproc :: int
  init_user :: "kid \<Rightarrow> bool"
  fix_setuid :: "cred \<Rightarrow> cred \<Rightarrow> setid \<Rightarrow> int"

definition id_valid :: "kid \<Rightarrow> bool" where
  "id_valid i \<longleftrightarrow> i \<noteq> -1"

definition commit_creds :: "cred \<Rightarrow> proc \<Rightarrow> int \<times> proc" where
  "commit_creds new p = (0, p\<lparr>cred := new\<rparr>)"

section \<open>Groups\<close>

definition setregid :: "sys \<Rightarrow> kid \<Rightarrow> kid \<Rightarrow> proc \<Rightarrow> int \<times> proc" where
  "setregid k rgid egid' p =
     (let old = cred p; krgid = make_kgid k rgid; kegid = make_kgid k egid' in
      if rgid \<noteq> -1 \<and> \<not> id_valid krgid then (-EINVAL, p)
      else if egid' \<noteq> -1 \<and> \<not> id_valid kegid then (-EINVAL, p)
      else if \<not> prepare_ok k old then (-ENOMEM, p)
      else if rgid \<noteq> -1 \<and> \<not> (gid old = krgid \<or> egid old = krgid \<or> cap_setgid k old) then (-EPERM, p)
      else
        let new = (if rgid \<noteq> -1 then old\<lparr>gid := krgid\<rparr> else old) in
        if egid' \<noteq> -1 \<and> \<not> (gid old = kegid \<or> egid old = kegid \<or> sgid old = kegid \<or> cap_setgid k old) then (-EPERM, p)
        else
          let new = (if egid' \<noteq> -1 then new\<lparr>egid := kegid\<rparr> else new);
              new = (if rgid \<noteq> -1 \<or> egid' \<noteq> -1 \<and> kegid \<noteq> gid old then new\<lparr>sgid := egid new\<rparr> else new)
          in commit_creds (new\<lparr>fsgid := egid new\<rparr>) p)"

definition setgid :: "sys \<Rightarrow> kid \<Rightarrow> proc \<Rightarrow> int \<times> proc" where
  "setgid k gid' p =
     (let old = cred p; kgid = make_kgid k gid' in
      if \<not> id_valid kgid then (-EINVAL, p)
      else if \<not> prepare_ok k old then (-ENOMEM, p)
      else if cap_setgid k old then commit_creds (old\<lparr>gid := kgid, egid := kgid, sgid := kgid, fsgid := kgid\<rparr>) p
      else if kgid = gid old \<or> kgid = sgid old then commit_creds (old\<lparr>egid := kgid, fsgid := kgid\<rparr>) p
      else (-EPERM, p))"

text \<open>An id that a process without the capability may not take.\<close>

definition foreign_gid :: "kid \<Rightarrow> kid \<Rightarrow> cred \<Rightarrow> bool" where
  "foreign_gid g kg old \<longleftrightarrow> g \<noteq> -1 \<and> kg \<noteq> gid old \<and> kg \<noteq> egid old \<and> kg \<noteq> sgid old"

definition setresgid :: "sys \<Rightarrow> kid \<Rightarrow> kid \<Rightarrow> kid \<Rightarrow> proc \<Rightarrow> int \<times> proc" where
  "setresgid k rgid egid' sgid' p =
     (let old = cred p; krgid = make_kgid k rgid; kegid = make_kgid k egid'; ksgid = make_kgid k sgid' in
      if rgid \<noteq> -1 \<and> \<not> id_valid krgid then (-EINVAL, p)
      else if egid' \<noteq> -1 \<and> \<not> id_valid kegid then (-EINVAL, p)
      else if sgid' \<noteq> -1 \<and> \<not> id_valid ksgid then (-EINVAL, p)
      else if \<not> prepare_ok k old then (-ENOMEM, p)
      else if \<not> cap_setgid k old \<and> (foreign_gid rgid krgid old \<or> foreign_gid egid' kegid old \<or> foreign_gid sgid' ksgid old)
      then (-EPERM, p)
      else
        let new = (if rgid \<noteq> -1 then old\<lparr>gid := krgid\<rparr> else old);
            new = (if egid' \<noteq> -1 then new\<lparr>egid := kegid\<rparr> else new);
            new = (if sgid' \<noteq> -1 then new\<lparr>sgid := ksgid\<rparr> else new)
        in commit_creds (new\<lparr>fsgid := egid new\<rparr>) p)"

definition setfsgid :: "sys \<Rightarrow> kid \<Rightarrow> proc \<Rightarrow> kid \<times> proc" where
  "setfsgid k gid' p =
     (let old = cred p; old_fsgid = from_kgid_munged k (fsgid old); kgid = make_kgid k gid' in
      if \<not> id_valid kgid then (old_fsgid, p)
      else if \<not> prepare_ok k old then (old_fsgid, p)
      else if (kgid = gid old \<or> kgid = egid old \<or> kgid = sgid old \<or> kgid = fsgid old \<or> cap_setgid k old) \<and> kgid \<noteq> fsgid old
      then (old_fsgid, snd (commit_creds (old\<lparr>fsgid := kgid\<rparr>) p))
      else (old_fsgid, p))"

section \<open>Users\<close>

definition set_user :: "sys \<Rightarrow> cred \<Rightarrow> proc \<Rightarrow> int \<times> proc" where
  "set_user k new p =
     (if \<not> alloc_ok k (uid new) then (-EAGAIN, p)
      else (0, p\<lparr>nproc_exceeded := (processes k (uid new) \<ge> rlimit_nproc k \<and> \<not> init_user k (uid new))\<rparr>))"

text \<open>The end of the calls: the security module decides, then the credentials are installed.\<close>

definition fix_and_commit :: "sys \<Rightarrow> setid \<Rightarrow> cred \<Rightarrow> cred \<Rightarrow> proc \<Rightarrow> int \<times> proc" where
  "fix_and_commit k how new old p =
     (let retval = fix_setuid k new old how in if retval < 0 then (retval, p) else commit_creds new p)"

definition setreuid :: "sys \<Rightarrow> kid \<Rightarrow> kid \<Rightarrow> proc \<Rightarrow> int \<times> proc" where
  "setreuid k ruid euid' p =
     (let old = cred p; kruid = make_kuid k ruid; keuid = make_kuid k euid' in
      if ruid \<noteq> -1 \<and> \<not> id_valid kruid then (-EINVAL, p)
      else if euid' \<noteq> -1 \<and> \<not> id_valid keuid then (-EINVAL, p)
      else if \<not> prepare_ok k old then (-ENOMEM, p)
      else if ruid \<noteq> -1 \<and> uid old \<noteq> kruid \<and> euid old \<noteq> kruid \<and> \<not> cap_setuid k old then (-EPERM, p)
      else
        let new = (if ruid \<noteq> -1 then old\<lparr>uid := kruid\<rparr> else old) in
        if euid' \<noteq> -1 \<and> uid old \<noteq> keuid \<and> euid old \<noteq> keuid \<and> suid old \<noteq> keuid \<and> \<not> cap_setuid k old then (-EPERM, p)
        else
          let new = (if euid' \<noteq> -1 then new\<lparr>euid := keuid\<rparr> else new);
              (retval, p) = (if uid new \<noteq> uid old then set_user k new p else (0, p))
          in if retval < 0 then (retval, p)
             else
               let new = (if ruid \<noteq> -1 \<or> euid' \<noteq> -1 \<and> keuid \<noteq> uid old then new\<lparr>suid := euid new\<rparr> else new)
               in fix_and_commit k LSM_SETID_RE (new\<lparr>fsuid := euid new\<rparr>) old p)"

definition setuid :: "sys \<Rightarrow> kid \<Rightarrow> proc \<Rightarrow> int \<times> proc" where
  "setuid k uid' p =
     (let old = cred p; kuid = make_kuid k uid' in
      if \<not> id_valid kuid then (-EINVAL, p)
      else if \<not> prepare_ok k old then (-ENOMEM, p)
      else
        let cap = cap_setuid k old; new = (if cap then old\<lparr>suid := kuid, uid := kuid\<rparr> else old) in
        if \<not> cap \<and> kuid \<noteq> uid old \<and> kuid \<noteq> suid new then (-EPERM, p)
        else
          let (retval, p) = (if cap \<and> kuid \<noteq> uid old then set_user k new p else (0, p))
          in if retval < 0 then (retval, p)
             else fix_and_commit k LSM_SETID_ID (new\<lparr>fsuid := kuid, euid := kuid\<rparr>) old p)"

definition foreign_uid :: "kid \<Rightarrow> kid \<Rightarrow> cred \<Rightarrow> bool" where
  "foreign_uid u ku old \<longleftrightarrow> u \<noteq> -1 \<and> ku \<noteq> uid old \<and> ku \<noteq> euid old \<and> ku \<noteq> suid old"

definition setresuid :: "sys \<Rightarrow> kid \<Rightarrow> kid \<Rightarrow> kid \<Rightarrow> proc \<Rightarrow> int \<times> proc" where
  "setresuid k ruid euid' suid' p =
     (let old = cred p; kruid = make_kuid k ruid; keuid = make_kuid k euid'; ksuid = make_kuid k suid' in
      if ruid \<noteq> -1 \<and> \<not> id_valid kruid then (-EINVAL, p)
      else if euid' \<noteq> -1 \<and> \<not> id_valid keuid then (-EINVAL, p)
      else if suid' \<noteq> -1 \<and> \<not> id_valid ksuid then (-EINVAL, p)
      else if \<not> prepare_ok k old then (-ENOMEM, p)
      else if \<not> cap_setuid k old \<and> (foreign_uid ruid kruid old \<or> foreign_uid euid' keuid old \<or> foreign_uid suid' ksuid old)
      then (-EPERM, p)
      else
        let new = (if ruid \<noteq> -1 then old\<lparr>uid := kruid\<rparr> else old);
            (retval, p) = (if ruid \<noteq> -1 \<and> kruid \<noteq> uid old then set_user k new p else (0, p))
        in if retval < 0 then (retval, p)
           else
             let new = (if euid' \<noteq> -1 then new\<lparr>euid := keuid\<rparr> else new);
                 new = (if suid' \<noteq> -1 then new\<lparr>suid := ksuid\<rparr> else new)
             in fix_and_commit k LSM_SETID_RES (new\<lparr>fsuid := euid new\<rparr>) old p)"

definition setfsuid :: "sys \<Rightarrow> kid \<Rightarrow> proc \<Rightarrow> kid \<times> proc" where
  "setfsuid k uid' p =
     (let old = cred p; old_fsuid = from_kuid_munged k (fsuid old); kuid = make_kuid k uid'; new = old\<lparr>fsuid := kuid\<rparr> in
      if \<not> id_valid kuid then (old_fsuid, p)
      else if \<not> prepare_ok k old then (old_fsuid, p)
      else if (kuid = uid old \<or> kuid = euid old \<or> kuid = suid old \<or> kuid = fsuid old \<or> cap_setuid k old) \<and> kuid \<noteq> fsuid old \<and>
        fix_setuid k new old LSM_SETID_FS = 0
      then (old_fsuid, snd (commit_creds new p))
      else (old_fsuid, p))"

section \<open>Reading the ids\<close>

text \<open>\<open>put\<close> is \<open>put_user\<close>: 0, or an error, for each of the three places. The result has what was written.\<close>

definition put_three :: "(nat \<Rightarrow> int) \<Rightarrow> kid \<Rightarrow> kid \<Rightarrow> kid \<Rightarrow> int \<times> kid list" where
  "put_three put r e s =
     (if put 0 \<noteq> 0 then (put 0, [])
      else if put 1 \<noteq> 0 then (put 1, [r])
      else if put 2 \<noteq> 0 then (put 2, [r, e]) else (put 2, [r, e, s]))"

definition getresuid :: "sys \<Rightarrow> (nat \<Rightarrow> int) \<Rightarrow> proc \<Rightarrow> int \<times> kid list" where
  "getresuid k put p = put_three put (from_kuid_munged k (uid (cred p))) (from_kuid_munged k (euid (cred p)))
     (from_kuid_munged k (suid (cred p)))"

definition getresgid :: "sys \<Rightarrow> (nat \<Rightarrow> int) \<Rightarrow> proc \<Rightarrow> int \<times> kid list" where
  "getresgid k put p = put_three put (from_kgid_munged k (gid (cred p))) (from_kgid_munged k (egid (cred p)))
     (from_kgid_munged k (sgid (cred p)))"

definition getuid :: "sys \<Rightarrow> proc \<Rightarrow> kid" where
  "getuid k p = from_kuid_munged k (uid (cred p))"

definition geteuid :: "sys \<Rightarrow> proc \<Rightarrow> kid" where
  "geteuid k p = from_kuid_munged k (euid (cred p))"

definition getgid :: "sys \<Rightarrow> proc \<Rightarrow> kid" where
  "getgid k p = from_kgid_munged k (gid (cred p))"

definition getegid :: "sys \<Rightarrow> proc \<Rightarrow> kid" where
  "getegid k p = from_kgid_munged k (egid (cred p))"

section \<open>The calls of the project\<close>

definition hello :: "string \<Rightarrow> string" where
  "hello name = [CHR 0x27] @ ''Hello, world!'' @ [CHR 0x27] @ '' -- '' @ name @ [CHR 0x0A]"

definition cs3013_syscall1 :: "int \<times> string" where
  "cs3013_syscall1 = (0, hello ''syscall1'')"

definition cs3013_syscall2 :: "int \<times> string" where
  "cs3013_syscall2 = (0, hello ''syscall2'')"

definition cs3013_syscall3 :: "int \<times> string" where
  "cs3013_syscall3 = (0, hello ''syscall3'')"

section \<open>Sequences of calls\<close>

datatype id_call = Setregid kid kid | Setgid kid | Setresgid kid kid kid | Setfsgid kid
  | Setreuid kid kid | Setuid kid | Setresuid kid kid kid | Setfsuid kid

fun do_call :: "sys \<Rightarrow> id_call \<Rightarrow> proc \<Rightarrow> proc" where
  "do_call k (Setregid r e) p = snd (setregid k r e p)"
| "do_call k (Setgid g) p = snd (setgid k g p)"
| "do_call k (Setresgid r e s) p = snd (setresgid k r e s p)"
| "do_call k (Setfsgid g) p = snd (setfsgid k g p)"
| "do_call k (Setreuid r e) p = snd (setreuid k r e p)"
| "do_call k (Setuid u) p = snd (setuid k u p)"
| "do_call k (Setresuid r e s) p = snd (setresuid k r e s p)"
| "do_call k (Setfsuid u) p = snd (setfsuid k u p)"

definition uids :: "cred \<Rightarrow> kid set" where
  "uids c = {uid c, euid c, suid c}"

definition gids :: "cred \<Rightarrow> kid set" where
  "gids c = {gid c, egid c, sgid c}"

text \<open>What a call may do to the ids of a process without the capability.\<close>

definition keeps_uids :: "cred \<Rightarrow> cred \<Rightarrow> bool" where
  "keeps_uids c d \<longleftrightarrow> uids d \<subseteq> uids c \<and> fsuid d \<in> insert (fsuid c) (uids c)"

definition keeps_gids :: "cred \<Rightarrow> cred \<Rightarrow> bool" where
  "keeps_gids c d \<longleftrightarrow> gids d \<subseteq> gids c \<and> fsgid d \<in> insert (fsgid c) (gids c)"

definition same_uids :: "cred \<Rightarrow> cred \<Rightarrow> bool" where
  "same_uids c d \<longleftrightarrow> uid d = uid c \<and> euid d = euid c \<and> suid d = suid c \<and> fsuid d = fsuid c"

definition same_gids :: "cred \<Rightarrow> cred \<Rightarrow> bool" where
  "same_gids c d \<longleftrightarrow> gid d = gid c \<and> egid d = egid c \<and> sgid d = sgid c \<and> fsgid d = fsgid c"

lemmas id_defs = uids_def gids_def keeps_uids_def keeps_gids_def same_uids_def same_gids_def
lemmas call_defs = commit_creds_def fix_and_commit_def set_user_def foreign_uid_def foreign_gid_def Let_def

lemma same_uids_keeps: "same_uids c d \<Longrightarrow> keeps_uids c d"
  by (simp add: id_defs)

lemma same_gids_keeps: "same_gids c d \<Longrightarrow> keeps_gids c d"
  by (simp add: id_defs)

lemma keeps_uids_trans: "keeps_uids a b \<Longrightarrow> keeps_uids b c \<Longrightarrow> keeps_uids a c"
  unfolding keeps_uids_def by auto

lemma keeps_gids_trans: "keeps_gids a b \<Longrightarrow> keeps_gids b c \<Longrightarrow> keeps_gids a c"
  unfolding keeps_gids_def by auto

lemma setregid_uids: "same_uids (cred p) (cred (snd (setregid k r e p)))"
  by (cases "r = -1"; cases "e = -1"; simp add: setregid_def call_defs id_defs)

lemma setgid_uids: "same_uids (cred p) (cred (snd (setgid k g p)))"
  by (simp add: setgid_def call_defs id_defs)

lemma setresgid_uids: "same_uids (cred p) (cred (snd (setresgid k r e s p)))"
  by (cases "r = -1"; cases "e = -1"; cases "s = -1"; simp add: setresgid_def call_defs id_defs)

lemma setfsgid_uids: "same_uids (cred p) (cred (snd (setfsgid k g p)))"
  by (simp add: setfsgid_def call_defs id_defs)

lemma setreuid_gids: "same_gids (cred p) (cred (snd (setreuid k r e p)))"
  by (cases "r = -1"; cases "e = -1"; simp add: setreuid_def call_defs id_defs)

lemma setuid_gids: "same_gids (cred p) (cred (snd (setuid k g p)))"
  by (simp add: setuid_def call_defs id_defs)

lemma setresuid_gids: "same_gids (cred p) (cred (snd (setresuid k r e s p)))"
  by (cases "r = -1"; cases "e = -1"; cases "s = -1"; simp add: setresuid_def call_defs id_defs)

lemma setfsuid_gids: "same_gids (cred p) (cred (snd (setfsuid k g p)))"
  by (simp add: setfsuid_def call_defs id_defs)

lemma setregid_keeps: "\<not> cap_setgid k (cred p) \<Longrightarrow> keeps_gids (cred p) (cred (snd (setregid k r e p)))"
  by (cases "r = -1"; cases "e = -1"; simp add: setregid_def call_defs id_defs)

lemma setgid_keeps: "\<not> cap_setgid k (cred p) \<Longrightarrow> keeps_gids (cred p) (cred (snd (setgid k g p)))"
  by (simp add: setgid_def call_defs id_defs)

lemma setresgid_keeps: "\<not> cap_setgid k (cred p) \<Longrightarrow> keeps_gids (cred p) (cred (snd (setresgid k r e s p)))"
  by (cases "r = -1"; cases "e = -1"; cases "s = -1"; simp add: setresgid_def call_defs id_defs)

lemma setfsgid_keeps: "\<not> cap_setgid k (cred p) \<Longrightarrow> keeps_gids (cred p) (cred (snd (setfsgid k g p)))"
  by (auto simp: setfsgid_def call_defs id_defs)

lemma setreuid_keeps: "\<not> cap_setuid k (cred p) \<Longrightarrow> keeps_uids (cred p) (cred (snd (setreuid k r e p)))"
  by (cases "r = -1"; cases "e = -1"; simp add: setreuid_def call_defs id_defs)

lemma setuid_keeps: "\<not> cap_setuid k (cred p) \<Longrightarrow> keeps_uids (cred p) (cred (snd (setuid k g p)))"
  by (simp add: setuid_def call_defs id_defs)

lemma setresuid_keeps: "\<not> cap_setuid k (cred p) \<Longrightarrow> keeps_uids (cred p) (cred (snd (setresuid k r e s p)))"
  by (cases "r = -1"; cases "e = -1"; cases "s = -1"; simp add: setresuid_def call_defs id_defs)

lemma setfsuid_keeps: "\<not> cap_setuid k (cred p) \<Longrightarrow> keeps_uids (cred p) (cred (snd (setfsuid k g p)))"
  by (auto simp: setfsuid_def call_defs id_defs)

lemma do_call_keeps:
  "\<not> cap_setuid k (cred p) \<Longrightarrow> keeps_uids (cred p) (cred (do_call k c p))"
  "\<not> cap_setgid k (cred p) \<Longrightarrow> keeps_gids (cred p) (cred (do_call k c p))"
  by (cases c; simp add: setregid_uids setgid_uids setresgid_uids setfsgid_uids same_uids_keeps
      setreuid_keeps setuid_keeps setresuid_keeps setfsuid_keeps)
    (cases c; simp add: setreuid_gids setuid_gids setresuid_gids setfsuid_gids same_gids_keeps
      setregid_keeps setgid_keeps setresgid_keeps setfsgid_keeps)

lemma calls_keep_uids:
  assumes "\<And>c. uids c \<subseteq> uids (cred p) \<Longrightarrow> \<not> cap_setuid k c"
  shows "keeps_uids (cred p) (cred (fold (do_call k) calls p))"
proof (induction calls rule: rev_induct)
  case (snoc c cs)
  let ?q = "fold (do_call k) cs p"
  have "\<not> cap_setuid k (cred ?q)" using snoc assms [of "cred ?q"] by (simp add: keeps_uids_def)
  from keeps_uids_trans [OF snoc do_call_keeps(1) [OF this]] show ?case by simp
qed (simp add: keeps_uids_def)

lemma calls_keep_gids:
  assumes "\<And>c. \<not> cap_setgid k c"
  shows "keeps_gids (cred p) (cred (fold (do_call k) calls p))"
proof (induction calls rule: rev_induct)
  case (snoc c cs)
  from keeps_gids_trans [OF snoc do_call_keeps(2) [OF assms]] show ?case by simp
qed (simp add: keeps_gids_def)

lemma setuid_capable:
  assumes "setuid k u p = (0, q)" "cap_setuid k (cred p)"
  shows "uid (cred q) = make_kuid k u \<and> euid (cred q) = make_kuid k u \<and> suid (cred q) = make_kuid k u \<and> fsuid (cred q) = make_kuid k u"
  using assms by (auto simp: setuid_def call_defs split: if_splits prod.splits)

section \<open>Properties\<close>


text \<open>A kernel without user namespaces in which root has all capabilities.\<close>

definition root_kernel :: sys where
  "root_kernel = \<lparr>make_kuid = id, make_kgid = id, from_kuid_munged = id, from_kgid_munged = id, cap_setuid = (\<lambda>c. euid c = 0),
     cap_setgid = (\<lambda>c. False), prepare_ok = (\<lambda>c. True), alloc_ok = (\<lambda>u. True), processes = (\<lambda>u. 1), rlimit_nproc = 100,
     init_user = (\<lambda>u. u = 0), fix_setuid = (\<lambda>new old how. 0)\<rparr>"

definition setuid_program :: proc where
  "setuid_program = \<lparr>cred = \<lparr>uid = 1000, gid = 100, suid = 0, sgid = 100, euid = 0, egid = 100, fsuid = 0, fsgid = 100\<rparr>,
     nproc_exceeded = False\<rparr>"

definition user_program :: proc where
  "user_program = \<lparr>cred = \<lparr>uid = 1000, gid = 100, suid = 1001, sgid = 100, euid = 1001, egid = 101, fsuid = 1001, fsgid = 101\<rparr>,
     nproc_exceeded = False\<rparr>"


text \<open>C39: a privileged process that calls \<open>setuid\<close> drops its privileges for good. When the call succeeds, all
  its user ids are the new one, and if that user does not have the capability they remain so whatever
  calls follow: it cannot switch back.\<close>

theorem setuid_drops_for_good:
  assumes "setuid k u p = (0, q)" "cap_setuid k (cred p)" "\<And>c. uids c \<subseteq> {make_kuid k u} \<Longrightarrow> \<not> cap_setuid k c"
  shows "let d = cred (fold (do_call k) calls q) in
    uid d = make_kuid k u \<and> euid d = make_kuid k u \<and> suid d = make_kuid k u \<and> fsuid d = make_kuid k u"
proof -
  have q: "uid (cred q) = make_kuid k u" "euid (cred q) = make_kuid k u" "suid (cred q) = make_kuid k u" "fsuid (cred q) = make_kuid k u"
    using setuid_capable [OF assms(1,2)] by simp_all
  then have "uids (cred q) = {make_kuid k u}" by (simp add: uids_def)
  with calls_keep_uids [of q k calls] assms(3) q(4) show ?thesis by (auto simp: keeps_uids_def uids_def Let_def)
qed

theorem setuid_drops_for_good_witness:
  "\<exists>q. setuid root_kernel 1000 setuid_program = (0, q) \<and> euid (cred (fold (do_call root_kernel) [Setuid 0, Setreuid 0 0] q)) = 1000"
proof -
  obtain q where q: "setuid root_kernel 1000 setuid_program = (0, q)"
    by (auto simp: setuid_def root_kernel_def setuid_program_def call_defs id_valid_def)
  have "cap_setuid root_kernel (cred setuid_program)" "make_kuid root_kernel 1000 = 1000"
    by (simp_all add: root_kernel_def setuid_program_def)
  moreover have "\<not> cap_setuid root_kernel c" if "uids c \<subseteq> {1000}" for c using that by (auto simp: root_kernel_def uids_def)
  ultimately show ?thesis using setuid_drops_for_good [OF q, of "[Setuid 0, Setreuid 0 0]"] q by (auto simp: Let_def)
qed

text \<open>A set-user-id program can give its privileges away for a while by swapping its real and effective ids
  with \<open>setreuid\<close>, and take them back in the same way.\<close>

lemma setreuid_swap:
  assumes "make_kuid k r = euid (cred p)" "make_kuid k e = uid (cred p)" "r \<noteq> -1" "e \<noteq> -1"
    "id_valid (uid (cred p))" "id_valid (euid (cred p))"
    "\<And>c. prepare_ok k c" "\<And>u. alloc_ok k u" "\<And>new old how. fix_setuid k new old how = 0"
  shows "\<exists>q t. setreuid k r e p = (0, q) \<and> uid (cred q) = euid (cred p) \<and> euid (cred q) = uid (cred p) \<and>
    setreuid k e r q = (0, t) \<and> uid (cred t) = uid (cred p) \<and> euid (cred t) = euid (cred p)"
proof -
  have swap: "\<exists>q. setreuid k r e p = (0, q) \<and> uid (cred q) = euid (cred p) \<and> euid (cred q) = uid (cred p)"
    if "make_kuid k r = euid (cred p)" "make_kuid k e = uid (cred p)" "r \<noteq> -1" "e \<noteq> -1"
      "id_valid (uid (cred p))" "id_valid (euid (cred p))" for r e p
    using that assms(7-9) by (cases "uid (cred p) = euid (cred p)") (simp_all add: setreuid_def call_defs)
  obtain q where q: "setreuid k r e p = (0, q)" "uid (cred q) = euid (cred p)" "euid (cred q) = uid (cred p)"
    using swap [OF assms(1-6)] by blast
  with swap [of e q r] assms(1-6) show ?thesis by auto
qed

end
