(* ===== verification/Limits.thy ===== *)
theory Limits
  imports Creds
begin

text \<open>
  Project0/submission/sys.c, resource limits: \<open>do_prlimit\<close> and the system calls around it. A limit is a
  word of 32 bits, as long as \<open>unsigned long\<close> is on the machine of the projects; \<open>prlimit64\<close> converts from and to
  64 bits. The locks, the lookup of tasks, the capabilities, the security module and the copies from and
  to user space are parameters. Reads and writes of \<open>rlim\<close> are within the sixteen limits of a task.
\<close>

section \<open>State\<close>

abbreviation RLIMIT_CPU :: nat where "RLIMIT_CPU \<equiv> 0"
abbreviation RLIMIT_NOFILE :: nat where "RLIMIT_NOFILE \<equiv> 7"
abbreviation RLIM_NLIMITS :: nat where "RLIM_NLIMITS \<equiv> 16"
abbreviation RLIM_INFINITY :: "32 word" where "RLIM_INFINITY \<equiv> 0xFFFFFFFF"
abbreviation RLIM64_INFINITY :: "64 word" where "RLIM64_INFINITY \<equiv> 0xFFFFFFFFFFFFFFFF"
abbreviation ULONG_MAX :: "64 word" where "ULONG_MAX \<equiv> 0xFFFFFFFF"

record rlimit =
  rlim_cur :: "32 word"
  rlim_max :: "32 word"

record rlimit64 =
  rlim64_cur :: "64 word"
  rlim64_max :: "64 word"

text \<open>A task; \<open>cpu_updates\<close> are the values \<open>update_rlimit_cpu\<close> has been called with.\<close>

record task =
  t_cred :: cred
  has_sighand :: bool
  rlims :: "rlimit list"
  cpu_updates :: "(32 word) list"

record limit_sys =
  nr_open :: "32 word"
  cap_sys_resource :: bool
  cap_resource_over :: "nat \<Rightarrow> bool"
  setrlimit_hook :: "nat \<Rightarrow> rlimit \<Rightarrow> int"
  find_task_by_vpid :: "int \<Rightarrow> nat option"

section \<open>Conversions\<close>

definition rlim64_is_infinity :: "64 word \<Rightarrow> bool" where
  "rlim64_is_infinity r \<longleftrightarrow> r \<ge> ULONG_MAX"

definition rlim_to_rlim64 :: "rlimit \<Rightarrow> rlimit64" where
  "rlim_to_rlim64 r =
     \<lparr>rlim64_cur = (if rlim_cur r = RLIM_INFINITY then RLIM64_INFINITY else ucast (rlim_cur r)),
      rlim64_max = (if rlim_max r = RLIM_INFINITY then RLIM64_INFINITY else ucast (rlim_max r))\<rparr>"

definition rlim64_to_rlim :: "rlimit64 \<Rightarrow> rlimit" where
  "rlim64_to_rlim r =
     \<lparr>rlim_cur = (if rlim64_is_infinity (rlim64_cur r) then RLIM_INFINITY else ucast (rlim64_cur r)),
      rlim_max = (if rlim64_is_infinity (rlim64_max r) then RLIM_INFINITY else ucast (rlim64_max r))\<rparr>"

section \<open>Operations\<close>

text \<open>\<open>do_prlimit\<close> gives its return value, the task and, if it is asked for and there is no error, the old limit.\<close>

definition do_prlimit :: "limit_sys \<Rightarrow> nat \<Rightarrow> rlimit option \<Rightarrow> bool \<Rightarrow> task \<Rightarrow> int \<times> task \<times> rlimit option" where
  "do_prlimit k resource new_rlim want_old t =
     (if resource \<ge> RLIM_NLIMITS then (-EINVAL, t, None)
      else if case new_rlim of None \<Rightarrow> False | Some n \<Rightarrow> rlim_cur n > rlim_max n then (-EINVAL, t, None)
      else if case new_rlim of None \<Rightarrow> False | Some n \<Rightarrow> resource = RLIMIT_NOFILE \<and> rlim_max n > nr_open k then (-EPERM, t, None)
      else if \<not> has_sighand t then (-ESRCH, t, None)
      else
        let rlim = rlims t ! resource in
        case new_rlim of
          None \<Rightarrow> (0, t, if want_old then Some rlim else None)
        | Some n \<Rightarrow>
            let retval = (if rlim_max n > rlim_max rlim \<and> \<not> cap_sys_resource k then -EPERM else 0);
                retval = (if retval = 0 then setrlimit_hook k resource n else retval);
                n = (if resource = RLIMIT_CPU \<and> rlim_cur n = 0 then n\<lparr>rlim_cur := 1\<rparr> else n)
            in if retval \<noteq> 0 then (retval, t, None)
               else
                 let t = t\<lparr>rlims := (rlims t)[resource := n]\<rparr>;
                     t = (if resource = RLIMIT_CPU \<and> rlim_cur n \<noteq> RLIM_INFINITY then t\<lparr>cpu_updates := cpu_updates t @ [rlim_cur n]\<rparr> else t)
                 in (0, t, if want_old then Some rlim else None))"

definition getrlimit :: "limit_sys \<Rightarrow> nat \<Rightarrow> bool \<Rightarrow> task \<Rightarrow> int \<times> rlimit option" where
  "getrlimit k resource copied t =
     (let (ret, t', val) = do_prlimit k resource None True t in
      if ret = 0 then if copied then (0, val) else (-EFAULT, None) else (ret, None))"

definition old_getrlimit :: "nat \<Rightarrow> bool \<Rightarrow> task \<Rightarrow> int \<times> rlimit option" where
  "old_getrlimit resource copied t =
     (if resource \<ge> RLIM_NLIMITS then (-EINVAL, None)
      else
        let x = rlims t ! resource;
            x = (if rlim_cur x > 0x7FFFFFFF then x\<lparr>rlim_cur := 0x7FFFFFFF\<rparr> else x);
            x = (if rlim_max x > 0x7FFFFFFF then x\<lparr>rlim_max := 0x7FFFFFFF\<rparr> else x)
        in if copied then (0, Some x) else (-EFAULT, None))"

definition setrlimit :: "limit_sys \<Rightarrow> nat \<Rightarrow> rlimit option \<Rightarrow> task \<Rightarrow> int \<times> task" where
  "setrlimit k resource rlim t =
     (case rlim of None \<Rightarrow> (-EFAULT, t) | Some n \<Rightarrow> let (ret, t, val) = do_prlimit k resource (Some n) False t in (ret, t))"

text \<open>Tasks are numbers here; \<open>current\<close> is the one that makes the call.\<close>

definition check_prlimit_permission :: "limit_sys \<Rightarrow> (nat \<Rightarrow> task) \<Rightarrow> nat \<Rightarrow> nat \<Rightarrow> int" where
  "check_prlimit_permission k ts current i =
     (let c = t_cred (ts current); tc = t_cred (ts i) in
      if current = i then 0
      else if uid c = euid tc \<and> uid c = suid tc \<and> uid c = uid tc \<and> gid c = egid tc \<and> gid c = sgid tc \<and> gid c = gid tc then 0
      else if cap_resource_over k i then 0
      else -EPERM)"

text \<open>\<open>new_rlim\<close> is \<open>None\<close> for NULL and \<open>Some None\<close> if it cannot be read; \<open>old_rlim\<close> is whether the old limit is asked
  for, and \<open>copied\<close> whether it can be written.\<close>

definition prlimit64 ::
  "limit_sys \<Rightarrow> nat \<Rightarrow> int \<Rightarrow> nat \<Rightarrow> rlimit64 option option \<Rightarrow> bool \<Rightarrow> bool \<Rightarrow> (nat \<Rightarrow> task) \<Rightarrow> int \<times> (nat \<Rightarrow> task) \<times> rlimit64 option" where
  "prlimit64 k current pid resource new_rlim old_rlim copied ts =
     (if new_rlim = Some None then (-EFAULT, ts, None)
      else case (if pid \<noteq> 0 then find_task_by_vpid k pid else Some current) of
        None \<Rightarrow> (-ESRCH, ts, None)
      | Some i \<Rightarrow>
          let ret = check_prlimit_permission k ts current i in
          if ret \<noteq> 0 then (ret, ts, None)
          else
            let (ret, t, old) = do_prlimit k resource (map_option (\<lambda>n. rlim64_to_rlim (the n)) new_rlim) old_rlim (ts i);
                ts = ts(i := t)
            in case old of
                 None \<Rightarrow> (ret, ts, None)
               | Some o' \<Rightarrow> if ret = 0 then if copied then (0, ts, Some (rlim_to_rlim64 o')) else (-EFAULT, ts, None) else (ret, ts, None))"

section \<open>Lemmas\<close>

lemma ucast_below: "r \<noteq> RLIM_INFINITY \<Longrightarrow> \<not> rlim64_is_infinity (ucast r) \<and> ucast (ucast r :: 64 word) = r"
  for r :: "32 word"
proof -
  assume "r \<noteq> RLIM_INFINITY"
  then have "unat r \<noteq> 0xFFFFFFFF" using word_unat_eq_iff [of r RLIM_INFINITY] by simp
  moreover have "unat r < 2 ^ 32" using unsigned_less [of r] by simp
  ultimately have "unat (ucast r :: 64 word) < 0xFFFFFFFF" by (simp add: unsigned_ucast_eq take_bit_eq_mod)
  then have "\<not> rlim64_is_infinity (ucast r)" by (simp add: rlim64_is_infinity_def word_le_nat_alt)
  moreover have "ucast (ucast r :: 64 word) = r" by (rule bit_eqI) (auto simp: bit_simps)
  ultimately show ?thesis by simp
qed

text \<open>A soft limit is not above its hard limit, with one exception.\<close>

definition limit_ok :: "nat \<Rightarrow> rlimit \<Rightarrow> bool" where
  "limit_ok resource r \<longleftrightarrow> rlim_cur r \<le> rlim_max r \<or> resource = RLIMIT_CPU \<and> rlim_cur r = 1 \<and> rlim_max r = 0"

definition task_ok :: "task \<Rightarrow> bool" where
  "task_ok t \<longleftrightarrow> length (rlims t) = RLIM_NLIMITS \<and> (\<forall>i<RLIM_NLIMITS. limit_ok i (rlims t ! i))"

lemma do_prlimit_set:
  assumes "do_prlimit k resource (Some n) want_old t = (r, t', old)"
  shows "r \<noteq> 0 \<Longrightarrow> t' = t"
    "r = 0 \<Longrightarrow> resource < RLIM_NLIMITS \<and> rlim_cur n \<le> rlim_max n \<and> (cap_sys_resource k \<or> rlim_max n \<le> rlim_max (rlims t ! resource)) \<and>
      rlims t' = (rlims t)[resource := (if resource = RLIMIT_CPU \<and> rlim_cur n = 0 then n\<lparr>rlim_cur := 1\<rparr> else n)]"
  using assms by (auto simp: do_prlimit_def Let_def not_less not_le split: if_splits)

lemma cpu_cheat_ok:
  "rlim_cur n \<le> rlim_max n \<Longrightarrow> limit_ok resource (if resource = RLIMIT_CPU \<and> rlim_cur n = 0 then n\<lparr>rlim_cur := 1\<rparr> else n)"
  by (auto simp: limit_ok_def word_neq_0_conv word_less_iff_unsigned word_le_nat_alt Suc_le_eq unat_gt_0)

lemma setrlimit_steps:
  assumes "task_ok t" "\<not> cap_sys_resource k"
  shows "let t' = snd (setrlimit k resource rlim t) in task_ok t' \<and> (\<forall>i<RLIM_NLIMITS. rlim_max (rlims t' ! i) \<le> rlim_max (rlims t ! i))"
proof (cases rlim)
  case None
  with assms(1) show ?thesis by (simp add: setrlimit_def)
next
  case (Some n)
  obtain r t' old where d: "do_prlimit k resource (Some n) False t = (r, t', old)" by (cases "do_prlimit k resource (Some n) False t") auto
  then have s: "snd (setrlimit k resource rlim t) = t'" using Some by (simp add: setrlimit_def)
  show ?thesis
  proof (cases "r = 0")
    case True
    note f = do_prlimit_set(2) [OF d True]
    have "rlim_max (if resource = RLIMIT_CPU \<and> rlim_cur n = 0 then n\<lparr>rlim_cur := 1\<rparr> else n) = rlim_max n" by simp
    then show ?thesis using f assms cpu_cheat_ok [of n resource] unfolding s Let_def task_ok_def
      by (auto simp: nth_list_update)
  next
    case False
    then show ?thesis using do_prlimit_set(1) [OF d] assms(1) s by simp
  qed
qed

section \<open>Properties\<close>

text \<open>C40: without the capability hard limits only fall. Whatever sequence of \<open>setrlimit\<close> calls a process
  makes, no hard limit is ever above what it was at the start. Every soft limit stays at or below its
  hard limit, with one exception: a limit of 0 seconds of CPU time with a hard limit of 0 is stored with
  a soft limit of 1, above the hard limit.\<close>

theorem hard_limits_only_fall:
  assumes "task_ok t" "\<not> cap_sys_resource k"
  shows "let t' = fold (\<lambda>(resource, rlim) t. snd (setrlimit k resource rlim t)) calls t in
    (\<forall>i<RLIM_NLIMITS. rlim_max (rlims t' ! i) \<le> rlim_max (rlims t ! i) \<and>
       (rlim_cur (rlims t' ! i) \<le> rlim_max (rlims t' ! i) \<or> i = RLIMIT_CPU \<and> rlim_cur (rlims t' ! i) = 1 \<and> rlim_max (rlims t' ! i) = 0))"
proof -
  let ?f = "\<lambda>(resource, rlim) t. snd (setrlimit k resource rlim t)"
  have "task_ok (fold ?f calls t) \<and> (\<forall>i<RLIM_NLIMITS. rlim_max (rlims (fold ?f calls t) ! i) \<le> rlim_max (rlims t ! i))"
  proof (induction calls rule: rev_induct)
    case Nil
    with assms(1) show ?case by simp
  next
    case (snoc c cs)
    obtain resource rlim where c: "c = (resource, rlim)" by (cases c)
    from snoc setrlimit_steps [of "fold ?f cs t" k resource rlim] assms(2) show ?case
      unfolding c by (auto simp: Let_def intro: order_trans)
  qed
  then show ?thesis by (simp add: task_ok_def limit_ok_def Let_def)
qed

definition idle_task :: task where
  "idle_task = \<lparr>t_cred = cred user_program, has_sighand = True, rlims = replicate 16 \<lparr>rlim_cur = 10, rlim_max = 20\<rparr>, cpu_updates = []\<rparr>"

definition user_limits :: limit_sys where
  "user_limits = \<lparr>nr_open = 1024, cap_sys_resource = False, cap_resource_over = (\<lambda>i. False), setrlimit_hook = (\<lambda>i r. 0),
     find_task_by_vpid = (\<lambda>p. None)\<rparr>"

theorem hard_limits_only_fall_witness:
  "let t' = fold (\<lambda>(resource, rlim) t. snd (setrlimit user_limits resource rlim t))
       [(RLIMIT_CPU, Some \<lparr>rlim_cur = 0, rlim_max = 0\<rparr>), (1, Some \<lparr>rlim_cur = 5, rlim_max = 30\<rparr>)] idle_task in
     rlims t' ! 0 = \<lparr>rlim_cur = 1, rlim_max = 0\<rparr> \<and> rlim_max (rlims t' ! 1) \<le> 20"
proof -
  let ?t = "fold (\<lambda>(resource, rlim) t. snd (setrlimit user_limits resource rlim t))
       [(RLIMIT_CPU, Some \<lparr>rlim_cur = 0, rlim_max = 0\<rparr>), (1, Some \<lparr>rlim_cur = 5, rlim_max = 30\<rparr>)] idle_task"
  have "task_ok idle_task" by (simp add: task_ok_def limit_ok_def idle_task_def)
  moreover have "\<not> cap_sys_resource user_limits" by (simp add: user_limits_def)
  ultimately have "rlim_max (rlims ?t ! 1) \<le> rlim_max (rlims idle_task ! 1)"
    using hard_limits_only_fall [of idle_task user_limits
        "[(RLIMIT_CPU, Some \<lparr>rlim_cur = 0, rlim_max = 0\<rparr>), (1, Some \<lparr>rlim_cur = 5, rlim_max = 30\<rparr>)]", unfolded Let_def]
    by (auto dest!: spec [of _ 1] simp del: fold_simps)
  moreover have "rlims idle_task ! 1 = \<lparr>rlim_cur = 10, rlim_max = 20\<rparr>" by (simp add: idle_task_def)
  moreover have "rlims ?t ! 0 = \<lparr>rlim_cur = 1, rlim_max = 0\<rparr>"
    by (simp add: setrlimit_def do_prlimit_def user_limits_def idle_task_def Let_def)
  ultimately show ?thesis by (simp add: Let_def)
qed

text \<open>The two representations of a limit. Every limit survives the conversion to 64 bits and back,
  infinity included; a limit of 64 bits that does not fit becomes infinity, so the conversion the other
  way never gives a smaller limit than it was given.\<close>

theorem rlimit_conversions:
  "rlim64_to_rlim (rlim_to_rlim64 r) = r \<and>
   unat (rlim_cur (rlim64_to_rlim l)) = min (unat (rlim64_cur l)) 0xFFFFFFFF \<and>
   unat (rlim_max (rlim64_to_rlim l)) = min (unat (rlim64_max l)) 0xFFFFFFFF"
proof -
  have sat: "unat (if rlim64_is_infinity x then RLIM_INFINITY else ucast x) = min (unat x) 0xFFFFFFFF" for x :: "64 word"
  proof (cases "rlim64_is_infinity x")
    case True
    then have "0xFFFFFFFF \<le> unat x" by (simp add: rlim64_is_infinity_def word_le_nat_alt)
    with True show ?thesis by simp
  next
    case False
    then have "unat x < 0xFFFFFFFF" by (simp add: rlim64_is_infinity_def word_le_nat_alt)
    with False show ?thesis by (simp add: unsigned_ucast_eq take_bit_eq_mod)
  qed
  have "rlim64_is_infinity RLIM64_INFINITY" by (simp add: rlim64_is_infinity_def)
  then have "rlim64_to_rlim (rlim_to_rlim64 r) = r"
    using ucast_below [of "rlim_cur r"] ucast_below [of "rlim_max r"]
    by (cases r) (simp add: rlim64_to_rlim_def rlim_to_rlim64_def)
  with sat show ?thesis by (simp add: rlim64_to_rlim_def)
qed

end
