(* ===== verification/Priority.thy ===== *)
theory Priority
  imports Creds
begin

text \<open>
  Project0/submission/sys.c, \<open>setpriority\<close> and \<open>getpriority\<close>. The nice values of the tasks are the state. The
  tasks themselves, their credentials and how they are found are parameters, and so are the
  capabilities, \<open>can_nice\<close> and the security module. A task is a number; \<open>nice_to_rlimit\<close> is the conversion
  the comment of \<open>getpriority\<close> describes: 40 to 1 for -20 to 19.
\<close>

section \<open>Operations\<close>

abbreviation PRIO_PROCESS :: int where "PRIO_PROCESS \<equiv> 0"
abbreviation PRIO_PGRP :: int where "PRIO_PGRP \<equiv> 1"
abbreviation PRIO_USER :: int where "PRIO_USER \<equiv> 2"
abbreviation MIN_NICE :: int where "MIN_NICE \<equiv> -20"
abbreviation MAX_NICE :: int where "MAX_NICE \<equiv> 19"

record prio_sys =
  current :: nat
  task_cred :: "nat \<Rightarrow> cred"
  user_id :: "int \<Rightarrow> kid"
  find_task :: "int \<Rightarrow> nat option"
  group_tasks :: "int \<Rightarrow> nat list"
  own_group :: "nat list"
  threads :: "nat list"
  visible :: "nat \<Rightarrow> bool"
  find_user :: "kid \<Rightarrow> bool"
  cap_nice :: "nat \<Rightarrow> bool"
  can_nice :: "nat \<Rightarrow> int \<Rightarrow> bool"
  setnice_hook :: "nat \<Rightarrow> int \<Rightarrow> int"

type_synonym nices = "nat \<Rightarrow> int"

definition nice_to_rlimit :: "int \<Rightarrow> int" where
  "nice_to_rlimit nice = MAX_NICE - nice + 1"

definition set_one_prio_perm :: "prio_sys \<Rightarrow> nat \<Rightarrow> bool" where
  "set_one_prio_perm k p =
     (let c = task_cred k (current k); pc = task_cred k p in uid pc = euid c \<or> euid pc = euid c \<or> cap_nice k p)"

definition set_one_prio :: "prio_sys \<Rightarrow> nat \<Rightarrow> int \<Rightarrow> int \<times> nices \<Rightarrow> int \<times> nices" where
  "set_one_prio k p niceval st =
     (let (error, nice) = st in
      if \<not> set_one_prio_perm k p then (-EPERM, nice)
      else if niceval < nice p \<and> \<not> can_nice k p niceval then (-EACCES, nice)
      else
        let no_nice = setnice_hook k p niceval in
        if no_nice \<noteq> 0 then (no_nice, nice)
        else (if error = -ESRCH then 0 else error, nice(p := niceval)))"

text \<open>The tasks the two calls are about, in the order in which they are visited.\<close>

definition prio_tasks :: "prio_sys \<Rightarrow> int \<Rightarrow> int \<Rightarrow> nat list" where
  "prio_tasks k which who =
     (if which = PRIO_PROCESS then
        if who \<noteq> 0 then (case find_task k who of None \<Rightarrow> [] | Some p \<Rightarrow> [p]) else [current k]
      else if which = PRIO_PGRP then
        if who \<noteq> 0 then group_tasks k who else own_group k
      else
        let c = task_cred k (current k); u = (if who = 0 then uid c else user_id k who) in
        if who \<noteq> 0 \<and> u \<noteq> uid c \<and> \<not> find_user k u then []
        else filter (\<lambda>p. uid (task_cred k p) = u \<and> visible k p) (threads k))"

definition clamp_nice :: "int \<Rightarrow> int" where
  "clamp_nice niceval =
     (let niceval = (if niceval < MIN_NICE then MIN_NICE else niceval) in if niceval > MAX_NICE then MAX_NICE else niceval)"

definition setpriority :: "prio_sys \<Rightarrow> int \<Rightarrow> int \<Rightarrow> int \<Rightarrow> nices \<Rightarrow> int \<times> nices" where
  "setpriority k which who niceval nice =
     (if which > PRIO_USER \<or> which < PRIO_PROCESS then (-EINVAL, nice)
      else fold (\<lambda>p. set_one_prio k p (clamp_nice niceval)) (prio_tasks k which who) (-ESRCH, nice))"

definition getpriority :: "prio_sys \<Rightarrow> int \<Rightarrow> int \<Rightarrow> nices \<Rightarrow> int" where
  "getpriority k which who nice =
     (if which > PRIO_USER \<or> which < PRIO_PROCESS then -EINVAL
      else fold (\<lambda>p retval. if nice_to_rlimit (nice p) > retval then nice_to_rlimit (nice p) else retval) (prio_tasks k which who) (-ESRCH))"

section \<open>Lemmas\<close>

text \<open>The caller may set this nice value of this task.\<close>

definition may_set :: "prio_sys \<Rightarrow> int \<Rightarrow> nices \<Rightarrow> nat \<Rightarrow> bool" where
  "may_set k n nice p \<longleftrightarrow> set_one_prio_perm k p \<and> (n < nice p \<longrightarrow> can_nice k p n) \<and> setnice_hook k p n = 0"

lemma clamp_nice_range: "MIN_NICE \<le> clamp_nice n \<and> clamp_nice n \<le> MAX_NICE"
  by (simp add: clamp_nice_def)

lemma set_one_prio_eq:
  "set_one_prio k p n (e, nice) =
     (if may_set k n nice p then (if e = -ESRCH then 0 else e, nice(p := n))
      else (fst (set_one_prio k p n (e, nice)), nice))"
  by (simp add: set_one_prio_def may_set_def Let_def)

lemma set_one_prio_fails: "\<not> may_set k n nice p \<Longrightarrow> fst (set_one_prio k p n (e, nice)) \<noteq> 0"
  by (auto simp: set_one_prio_def may_set_def Let_def)

text \<open>Setting a task's value to \<open>n\<close> does not change who may be set to \<open>n\<close>, once it is set.\<close>

lemma may_set_upd: "may_set k n nice p \<Longrightarrow> may_set k n (nice(p := n)) q = may_set k n nice q"
  by (auto simp: may_set_def)

lemma fold_prio_nices:
  "snd (fold (\<lambda>p. set_one_prio k p n) ps (e, nice)) = (\<lambda>q. if q \<in> set ps \<and> may_set k n nice q then n else nice q)"
proof (induction ps arbitrary: e nice)
  case (Cons p ps)
  show ?case
  proof (cases "may_set k n nice p")
    case True
    then show ?thesis using Cons.IH may_set_upd [OF True] by (auto simp: set_one_prio_eq [of k p n e] fun_eq_iff)
  next
    case False
    then show ?thesis using Cons.IH by (subst fold.simps, subst comp_apply, subst set_one_prio_eq) (auto simp: fun_eq_iff)
  qed
qed simp

text \<open>An error stays an error, unless the security module says that there is no such task.\<close>

lemma set_one_prio_error:
  "(\<And>p. setnice_hook k p n \<noteq> -ESRCH) \<Longrightarrow> \<not> may_set k n nice p \<Longrightarrow>
   fst (set_one_prio k p n (e, nice)) \<noteq> 0 \<and> fst (set_one_prio k p n (e, nice)) \<noteq> -ESRCH"
  using set_one_prio_fails [of k n nice p e] by (auto simp: set_one_prio_def may_set_def Let_def)

lemma fold_prio_bad:
  assumes "\<And>p. setnice_hook k p n \<noteq> -ESRCH" "e \<noteq> 0" "e \<noteq> -ESRCH"
  shows "fst (fold (\<lambda>p. set_one_prio k p n) ps (e, nice)) \<noteq> 0"
  using assms(2,3)
proof (induction ps arbitrary: e nice)
  case (Cons p ps)
  let ?r = "set_one_prio k p n (e, nice)"
  have "fst ?r \<noteq> 0 \<and> fst ?r \<noteq> -ESRCH" using Cons.prems assms(1) by (auto simp: set_one_prio_def Let_def)
  with Cons.IH [of "fst ?r" "snd ?r"] show ?case by simp
qed simp

lemma fold_prio_good:
  assumes "\<And>p. setnice_hook k p n \<noteq> -ESRCH"
  shows "fst (fold (\<lambda>p. set_one_prio k p n) ps (0, nice)) = 0 \<longleftrightarrow> (\<forall>p\<in>set ps. may_set k n nice p)"
proof (induction ps arbitrary: nice)
  case (Cons p ps)
  let ?f = "\<lambda>p. set_one_prio k p n"
  show ?case
  proof (cases "may_set k n nice p")
    case True
    then have e: "?f p (0, nice) = (0, nice(p := n))" by (simp add: set_one_prio_eq [of k p n 0])
    have "fst (fold ?f (p # ps) (0, nice)) = 0 \<longleftrightarrow> (\<forall>q\<in>set ps. may_set k n (nice(p := n)) q)"
      unfolding fold_simps e by (rule Cons.IH)
    then show ?thesis unfolding may_set_upd [OF True] using True by simp
  next
    case False
    with fold_prio_bad [OF assms, of "fst (?f p (0, nice))" ps "snd (?f p (0, nice))"] set_one_prio_error [OF assms False, of 0]
    show ?thesis by simp
  qed
qed simp

lemma fold_prio_error:
  assumes "\<And>p. setnice_hook k p n \<noteq> -ESRCH"
  shows "fst (fold (\<lambda>p. set_one_prio k p n) ps (-ESRCH, nice)) = 0 \<longleftrightarrow> ps \<noteq> [] \<and> (\<forall>p\<in>set ps. may_set k n nice p)"
proof (cases ps)
  case (Cons p qs)
  let ?r = "set_one_prio k p n (-ESRCH, nice)"
  show ?thesis
  proof (cases "may_set k n nice p")
    case True
    then have "?r = (0, nice(p := n))" by (simp add: set_one_prio_eq [of k p n "-ESRCH"])
    then have "fst (fold (\<lambda>p. set_one_prio k p n) ps (-ESRCH, nice)) = 0 \<longleftrightarrow> (\<forall>q\<in>set qs. may_set k n (nice(p := n)) q)"
      using fold_prio_good [OF assms, of qs "nice(p := n)"] Cons by simp
    then show ?thesis unfolding may_set_upd [OF True] using True Cons by simp
  next
    case False
    with fold_prio_bad [OF assms, of "fst ?r" qs "snd ?r"] set_one_prio_error [OF assms False, of "-ESRCH"] Cons show ?thesis by simp
  qed
qed simp

lemma fold_Max: "fold (\<lambda>p r. if f p > r then f p else r) ps r = Max (insert r (f ` set ps))" for f :: "nat \<Rightarrow> int"
proof (induction ps arbitrary: r)
  case (Cons p ps)
  have m: "(if f p > r then f p else r) = max r (f p)" by simp
  have "Max (insert (max r (f p)) (f ` set ps)) = Max (insert r (insert (f p) (f ` set ps)))"
    by (cases "ps = []") (simp_all add: max.assoc)
  with Cons.IH [of "max r (f p)"] show ?case unfolding fold_simps m by simp
qed simp

section \<open>Properties\<close>

text \<open>C38: setting a priority. The nice value is limited to -20 to 19. Exactly those of the selected tasks for
  which the caller has the right get it, and no other task changes; the call returns 0 exactly if
  there is a selected task and the caller has the right for all of them. \<open>getpriority\<close> gives the best of
  the selected tasks, and after a successful call it gives back the value that was set, as 20 minus
  the nice value. The security module does not return -ESRCH.\<close>

theorem setpriority_correct:
  assumes "0 \<le> which" "which \<le> 2" "\<And>p n. setnice_hook k p n \<noteq> -ESRCH" "setpriority k which who niceval nice = (r, nice')"
  shows "let n = clamp_nice niceval; ps = prio_tasks k which who in
    -20 \<le> n \<and> n \<le> 19 \<and> (\<forall>q. nice' q = (if q \<in> set ps \<and> may_set k n nice q then n else nice q)) \<and>
    (r = 0 \<longleftrightarrow> ps \<noteq> [] \<and> (\<forall>p\<in>set ps. may_set k n nice p)) \<and> (r = 0 \<longrightarrow> getpriority k which who nice' = 20 - n)"
proof -
  let ?n = "clamp_nice niceval" and ?ps = "prio_tasks k which who"
  have f: "fold (\<lambda>p. set_one_prio k p ?n) ?ps (-ESRCH, nice) = (r, nice')"
    using assms(1,2,4) by (simp add: setpriority_def)
  have n: "nice' = (\<lambda>q. if q \<in> set ?ps \<and> may_set k ?n nice q then ?n else nice q)"
    using fold_prio_nices [of k ?n ?ps "-ESRCH" nice] unfolding f by simp
  have r: "r = 0 \<longleftrightarrow> ?ps \<noteq> [] \<and> (\<forall>p\<in>set ?ps. may_set k ?n nice p)"
    using fold_prio_error [of k ?n ?ps nice] assms(3) unfolding f by simp
  have g: "getpriority k which who nice' = 20 - ?n" if "r = 0"
  proof -
    have "(\<lambda>p. nice_to_rlimit (nice' p)) ` set ?ps = {20 - ?n}" using that r n by (cases ?ps) (auto simp: nice_to_rlimit_def)
    then have "getpriority k which who nice' = Max {-ESRCH, 20 - ?n}"
      using assms(1,2) by (simp add: getpriority_def fold_Max [of "\<lambda>p. nice_to_rlimit (nice' p)"])
    then show ?thesis using clamp_nice_range [of niceval] by simp
  qed
  show ?thesis unfolding Let_def using clamp_nice_range [of niceval] n r g by auto
qed

text \<open>Three tasks of one user in a group with a task of another user.\<close>

definition small_system :: prio_sys where
  "small_system = \<lparr>current = 1,
     task_cred = (\<lambda>t. \<lparr>uid = (if t < 4 then 1000 else 1001), gid = 100, suid = 1000, sgid = 100, euid = (if t < 4 then 1000 else 1001),
       egid = 100, fsuid = 1000, fsgid = 100\<rparr>),
     user_id = of_int, find_task = (\<lambda>v. if 1 \<le> v \<and> v \<le> 4 then Some (nat v) else None), group_tasks = (\<lambda>v. [1, 2, 3, 4]),
     own_group = [1, 2, 3, 4], threads = [1, 2, 3, 4], visible = (\<lambda>t. True), find_user = (\<lambda>u. u = 1001),
     cap_nice = (\<lambda>t. False), can_nice = (\<lambda>t n. False), setnice_hook = (\<lambda>t n. 0)\<rparr>"

theorem setpriority_correct_witness:
  "(let (r, nice') = setpriority small_system PRIO_USER 0 50 (\<lambda>t. 0) in r = 0 \<and> nice' 3 = 19 \<and> nice' 4 = 0) \<and>
   fst (setpriority small_system PRIO_PGRP 0 5 (\<lambda>t. 0)) \<noteq> 0"
proof -
  have h: "setnice_hook small_system p n \<noteq> -ESRCH" for p n by (simp add: small_system_def)
  have m: "may_set small_system n (\<lambda>t. 0) p \<longleftrightarrow> p < 4" if "0 \<le> n" for n p
    using that by (simp add: may_set_def set_one_prio_perm_def small_system_def)
  have t: "prio_tasks small_system PRIO_USER 0 = [1, 2, 3]" "prio_tasks small_system PRIO_PGRP 0 = [1, 2, 3, 4]"
    by (simp_all add: prio_tasks_def small_system_def)
  have c: "clamp_nice 50 = 19" "clamp_nice 5 = 5" by (simp_all add: clamp_nice_def)
  obtain r1 n1 r2 n2 where s: "setpriority small_system PRIO_USER 0 50 (\<lambda>t. 0) = (r1, n1)"
    "setpriority small_system PRIO_PGRP 0 5 (\<lambda>t. 0) = (r2, n2)" by (metis surj_pair)
  show ?thesis using setpriority_correct [OF _ _ h s(1)] setpriority_correct [OF _ _ h s(2)] s by (simp add: Let_def m t c)
qed

end
