(* ===== verification/ProcGroups.thy ===== *)
theory ProcGroups
  imports Creds
begin

text \<open>
  Project0/submission/sys.c, process groups and sessions: \<open>setpgid\<close>, \<open>getpgid\<close>, \<open>getsid\<close>, \<open>setsid\<close>, and the identifiers. The state is the
  process group and the session of every process and whether it leads its session; a process stands
  for its thread group leader. A group and a session are named by a \<open>struct pid\<close>, here a number. Tasks,
  identifiers and how they are found, the parent of a task, whether it has called \<open>exec\<close> and the security
  module are parameters. \<open>pid_task(pid, PIDTYPE_PGID)\<close> is a task of that group, the first in the list of tasks.
\<close>

section \<open>Operations\<close>


record task_sys =
  tasks :: "nat list"
  task_pid :: "nat \<Rightarrow> nat"
  pid_vnr :: "nat \<Rightarrow> int"
  find_vpid :: "int \<Rightarrow> nat option"
  find_task_by_vpid :: "int \<Rightarrow> nat option"
  thread_group_leader :: "nat \<Rightarrow> bool"
  parent_group :: "nat \<Rightarrow> nat"
  forknoexec :: "nat \<Rightarrow> bool"
  setpgid_hook :: "nat \<Rightarrow> int \<Rightarrow> int"
  getpgid_hook :: "nat \<Rightarrow> int"
  getsid_hook :: "nat \<Rightarrow> int"

record groups =
  pgrp :: "nat \<Rightarrow> nat"
  session :: "nat \<Rightarrow> nat"
  leader :: "nat \<Rightarrow> bool"

definition group_task :: "task_sys \<Rightarrow> groups \<Rightarrow> nat \<Rightarrow> nat option" where
  "group_task k s g = find (\<lambda>t. pgrp s t = g) (tasks k)"

text \<open>\<open>current\<close> is the leader of the thread group that makes the call.\<close>

definition setpgid :: "task_sys \<Rightarrow> nat \<Rightarrow> int \<Rightarrow> int \<Rightarrow> groups \<Rightarrow> int \<times> groups" where
  "setpgid k current pid pgid s =
     (let pid = (if pid = 0 then pid_vnr k (task_pid k current) else pid);
          pgid = (if pgid = 0 then pid else pgid)
      in if pgid < 0 then (-EINVAL, s)
         else case find_task_by_vpid k pid of
           None \<Rightarrow> (-ESRCH, s)
         | Some p \<Rightarrow>
             if \<not> thread_group_leader k p then (-EINVAL, s)
             else if parent_group k p = current \<and> session s p \<noteq> session s current then (-EPERM, s)
             else if parent_group k p = current \<and> \<not> forknoexec k p then (-EACCES, s)
             else if parent_group k p \<noteq> current \<and> p \<noteq> current then (-ESRCH, s)
             else if leader s p then (-EPERM, s)
             else
               let target = (if pgid \<noteq> pid then
                   case find_vpid k pgid of
                     None \<Rightarrow> None
                   | Some g \<Rightarrow> (case group_task k s g of None \<Rightarrow> None | Some t \<Rightarrow> if session s t \<noteq> session s current then None else Some g)
                 else Some (task_pid k p))
               in case target of
                    None \<Rightarrow> (-EPERM, s)
                  | Some g \<Rightarrow>
                      let err = setpgid_hook k p pgid in
                      if err \<noteq> 0 then (err, s) else (0, s\<lparr>pgrp := (pgrp s)(p := g)\<rparr>))"

definition getpgid :: "task_sys \<Rightarrow> nat \<Rightarrow> int \<Rightarrow> groups \<Rightarrow> int" where
  "getpgid k current pid s =
     (if pid = 0 then pid_vnr k (pgrp s current)
      else case find_task_by_vpid k pid of
        None \<Rightarrow> -ESRCH
      | Some p \<Rightarrow> let retval = getpgid_hook k p in if retval \<noteq> 0 then retval else pid_vnr k (pgrp s p))"

definition getpgrp :: "task_sys \<Rightarrow> nat \<Rightarrow> groups \<Rightarrow> int" where
  "getpgrp k current s = getpgid k current 0 s"

definition getsid :: "task_sys \<Rightarrow> nat \<Rightarrow> int \<Rightarrow> groups \<Rightarrow> int" where
  "getsid k current pid s =
     (if pid = 0 then pid_vnr k (session s current)
      else case find_task_by_vpid k pid of
        None \<Rightarrow> -ESRCH
      | Some p \<Rightarrow> let retval = getsid_hook k p in if retval \<noteq> 0 then retval else pid_vnr k (session s p))"

definition set_special_pids :: "nat \<Rightarrow> nat \<Rightarrow> groups \<Rightarrow> groups" where
  "set_special_pids current sid s = s\<lparr>session := (session s)(current := sid), pgrp := (pgrp s)(current := sid)\<rparr>"

definition setsid :: "task_sys \<Rightarrow> nat \<Rightarrow> groups \<Rightarrow> int \<times> groups" where
  "setsid k current s =
     (let sid = task_pid k current in
      if leader s current then (-EPERM, s)
      else if group_task k s sid \<noteq> None then (-EPERM, s)
      else (pid_vnr k sid, set_special_pids current sid (s\<lparr>leader := (leader s)(current := True)\<rparr>)))"

text \<open>The identifiers of a process, of a thread and of the parent of a process.\<close>

definition getpid :: "task_sys \<Rightarrow> nat \<Rightarrow> int" where
  "getpid k current = pid_vnr k (task_pid k current)"

definition gettid :: "task_sys \<Rightarrow> nat \<Rightarrow> int" where
  "gettid k thread = pid_vnr k (task_pid k thread)"

definition getppid :: "task_sys \<Rightarrow> nat \<Rightarrow> int" where
  "getppid k current = pid_vnr k (task_pid k (parent_group k current))"

text \<open>A process that has started a session finds its own identifier in all three places.\<close>

lemma setsid_ids:
  assumes "fst (setsid k current s) \<noteq> -EPERM"
  shows "fst (setsid k current s) = getpid k current \<and> getpgrp k current (snd (setsid k current s)) = getpid k current \<and>
    getsid k current 0 (snd (setsid k current s)) = getpid k current"
  using assms by (auto simp: setsid_def Let_def getpid_def getpgrp_def getpgid_def getsid_def set_special_pids_def split: if_splits)

section \<open>Runs\<close>

text \<open>What the program relies on: a task that is found is in the list, different processes have different
  identifiers.\<close>

definition tasks_ok :: "task_sys \<Rightarrow> bool" where
  "tasks_ok k \<longleftrightarrow> (\<forall>v p. find_task_by_vpid k v = Some p \<longrightarrow> p \<in> set (tasks k)) \<and> inj_on (task_pid k) (set (tasks k))"

text \<open>A call by some process.\<close>

definition group_step :: "task_sys \<Rightarrow> groups \<Rightarrow> groups \<Rightarrow> bool" where
  "group_step k s t \<longleftrightarrow> (\<exists>c\<in>set (tasks k). (\<exists>pid pgid. t = snd (setpgid k c pid pgid s)) \<or> t = snd (setsid k c s))"

text \<open>All members of a group are in one session, and so is the process the group is named after; a
  session leader is in the group and the session that are named after it.\<close>

definition groups_ok :: "task_sys \<Rightarrow> groups \<Rightarrow> bool" where
  "groups_ok k s \<longleftrightarrow>
     (\<forall>p\<in>set (tasks k). \<forall>q\<in>set (tasks k). pgrp s p = pgrp s q \<longrightarrow> session s p = session s q) \<and>
     (\<forall>p\<in>set (tasks k). \<forall>q\<in>set (tasks k). pgrp s p = task_pid k q \<longrightarrow> session s p = session s q) \<and>
     (\<forall>p\<in>set (tasks k). leader s p \<longrightarrow> pgrp s p = task_pid k p \<and> session s p = task_pid k p)"

definition groups_start :: "task_sys \<Rightarrow> groups \<Rightarrow> bool" where
  "groups_start k s \<longleftrightarrow> tasks_ok k \<and> groups_ok k s"

definition groups_inv :: "task_sys \<Rightarrow> groups \<Rightarrow> bool" where
  "groups_inv k s \<longleftrightarrow> tasks_ok k \<and> groups_ok k s"

lemma groups_okD:
  assumes "groups_ok k s" "p \<in> set (tasks k)" "q \<in> set (tasks k)"
  shows "pgrp s p = pgrp s q \<Longrightarrow> session s p = session s q" "pgrp s p = task_pid k q \<Longrightarrow> session s p = session s q"
    "leader s p \<Longrightarrow> pgrp s p = task_pid k p" "leader s p \<Longrightarrow> session s p = task_pid k p"
  using assms unfolding groups_ok_def by blast+

lemma group_task_Some: "group_task k s g = Some t \<Longrightarrow> t \<in> set (tasks k) \<and> pgrp s t = g"
  by (auto simp: group_task_def find_Some_iff)

lemma group_task_None: "group_task k s g = None \<Longrightarrow> t \<in> set (tasks k) \<Longrightarrow> pgrp s t \<noteq> g"
  by (auto simp: group_task_def find_None_iff)

text \<open>What a successful \<open>setpgid\<close> has checked.\<close>

lemma setpgid_cases:
  assumes "setpgid k c pid pgid s = (r, t)"
  obtains "t = s" "r \<noteq> 0"
  | p g where "r = 0" "t = s\<lparr>pgrp := (pgrp s)(p := g)\<rparr>" "\<exists>v. find_task_by_vpid k v = Some p" "\<not> leader s p" "session s p = session s c"
      "g = task_pid k p \<or> (\<exists>u. group_task k s g = Some u \<and> session s u = session s c)"
proof -
  from assms show ?thesis
    unfolding setpgid_def Let_def by (auto split: if_splits option.splits intro: that)
qed

lemma setpgid_ok:
  assumes "groups_ok k s" "tasks_ok k" "setpgid k c pid pgid s = (r, t)"
  shows "groups_ok k t"
  using assms(3)
proof (cases rule: setpgid_cases)
  case 1
  with assms(1) show ?thesis by simp
next
  case (2 p g)
  note ok = groups_okD [OF assms(1)]
  have p: "p \<in> set (tasks k)" using 2(3) assms(2) by (auto simp: tasks_ok_def)
  have same: "session s b = session s p" if "b \<in> set (tasks k)" "pgrp s b = g" for b
    using 2(6)
  proof
    assume "g = task_pid k p"
    with ok(2) [OF that(1) p] that(2) show ?thesis by simp
  next
    assume "\<exists>u. group_task k s g = Some u \<and> session s u = session s c"
    then obtain u where u: "u \<in> set (tasks k)" "pgrp s u = g" "session s u = session s c" using group_task_Some by blast
    with ok(1) [OF that(1) u(1)] that(2) 2(5) show ?thesis by simp
  qed
  have named: "session s p = session s q" if q: "q \<in> set (tasks k)" "g = task_pid k q" for q
    using 2(6)
  proof
    assume "g = task_pid k p"
    then have "p = q" using q p assms(2) by (auto simp: tasks_ok_def dest: inj_onD)
    then show ?thesis by simp
  next
    assume "\<exists>u. group_task k s g = Some u \<and> session s u = session s c"
    then obtain u where u: "u \<in> set (tasks k)" "pgrp s u = g" "session s u = session s c" using group_task_Some by blast
    with ok(2) [OF u(1) q(1)] q(2) 2(5) show ?thesis by simp
  qed
  have t: "pgrp t x = (if x = p then g else pgrp s x)" "session t = session s" "leader t = leader s" for x using 2(2) by simp_all
  show ?thesis unfolding groups_ok_def
  proof (intro conjI ballI impI)
    fix a b assume ab: "a \<in> set (tasks k)" "b \<in> set (tasks k)"
    show "session t a = session t b" if "pgrp t a = pgrp t b"
      using that ok(1) [OF ab] same [OF ab(1)] same [OF ab(2)] unfolding t by (cases "a = p"; cases "b = p"; simp)
    show "session t a = session t b" if "pgrp t a = task_pid k b"
      using that ok(2) [OF ab] named [OF ab(2)] unfolding t by (cases "a = p"; simp)
  next
    fix a assume a: "a \<in> set (tasks k)" "leader t a"
    then show "pgrp t a = task_pid k a" "session t a = task_pid k a"
      using ok(3,4) [OF a(1) a(1)] 2(4) unfolding t by auto
  qed
qed

lemma setsid_ok:
  assumes "groups_ok k s" "tasks_ok k" "c \<in> set (tasks k)"
  shows "groups_ok k (snd (setsid k c s))"
proof (cases "leader s c \<or> group_task k s (task_pid k c) \<noteq> None")
  case True
  with assms(1) show ?thesis by (auto simp: setsid_def Let_def)
next
  case False
  note ok = groups_okD [OF assms(1)]
  have none: "pgrp s q \<noteq> task_pid k c" if "q \<in> set (tasks k)" for q using False group_task_None that by blast
  have inj: "task_pid k c = task_pid k q \<longleftrightarrow> c = q" if "q \<in> set (tasks k)" for q
    using that assms(2,3) by (auto simp: tasks_ok_def dest: inj_onD)
  let ?t = "snd (setsid k c s)"
  have t: "pgrp ?t x = (if x = c then task_pid k c else pgrp s x)" "session ?t x = (if x = c then task_pid k c else session s x)"
    "leader ?t x = (x = c \<or> leader s x)" for x
    using False by (simp_all add: setsid_def set_special_pids_def Let_def)
  show ?thesis unfolding groups_ok_def
  proof (intro conjI ballI impI)
    fix a b assume ab: "a \<in> set (tasks k)" "b \<in> set (tasks k)"
    show "session ?t a = session ?t b" if "pgrp ?t a = pgrp ?t b"
      using that ok(1) [OF ab] none [OF ab(1)] none [OF ab(2)] unfolding t by (cases "a = c"; cases "b = c"; simp)
    show "session ?t a = session ?t b" if "pgrp ?t a = task_pid k b"
      using that ok(2) [OF ab] none [OF ab(1)] inj [OF ab(2)] unfolding t by (cases "a = c"; cases "b = c"; simp)
  next
    fix a assume a: "a \<in> set (tasks k)" "leader ?t a"
    then show "pgrp ?t a = task_pid k a" "session ?t a = task_pid k a"
      using ok(3,4) [OF a(1) a(1)] unfolding t by auto
  qed
qed

interpretation job_control: invariant_system "groups_start k" "group_step k" "groups_inv k" for k
proof
  show "groups_inv k s" if "groups_start k s" for s using that by (simp add: groups_inv_def groups_start_def)
  show "groups_inv k t" if "groups_inv k s" "group_step k s t" for s t
    using that setsid_ok setpgid_ok by (auto simp: groups_inv_def group_step_def) (metis prod.collapse)
qed

section \<open>Properties\<close>

text \<open>C37: a process group never spans two sessions. From a state in which this is so, and in which the
  process a group is named after is in the session of the group, no sequence of \<open>setpgid\<close> and \<open>setsid\<close>
  calls by any processes leads to a state in which two members of one group are in different
  sessions; and a session leader always remains in the group and the session named after it.\<close>

theorem groups_within_sessions:
  assumes "reach (groups_start k) (group_step k) s" "p \<in> set (tasks k)" "q \<in> set (tasks k)"
  shows "(pgrp s p = pgrp s q \<longrightarrow> session s p = session s q) \<and>
    (leader s p \<longrightarrow> pgrp s p = task_pid k p \<and> session s p = task_pid k p)"
proof -
  have "groups_ok k s" using job_control.reach_inv [OF assms(1)] by (simp add: groups_inv_def)
  from groups_okD [OF this assms(2,3)] show ?thesis by blast
qed

text \<open>A shell, its session leader, with two children that have not called \<open>exec\<close> yet.\<close>

definition shell_tasks :: task_sys where
  "shell_tasks = \<lparr>tasks = [1, 2, 3], task_pid = (\<lambda>t. t), pid_vnr = int, find_vpid = (\<lambda>v. if 0 < v then Some (nat v) else None),
     find_task_by_vpid = (\<lambda>v. if 1 \<le> v \<and> v \<le> 3 then Some (nat v) else None), thread_group_leader = (\<lambda>t. True),
     parent_group = (\<lambda>t. if t = 1 then 0 else 1), forknoexec = (\<lambda>t. True), setpgid_hook = (\<lambda>t g. 0), getpgid_hook = (\<lambda>t. 0),
     getsid_hook = (\<lambda>t. 0)\<rparr>"

definition shell_groups :: groups where
  "shell_groups = \<lparr>pgrp = (\<lambda>t. 1), session = (\<lambda>t. 1), leader = (\<lambda>t. t = 1)\<rparr>"

lemma shell_start: "groups_start shell_tasks shell_groups"
  by (auto simp: groups_start_def tasks_ok_def groups_ok_def shell_tasks_def shell_groups_def split: if_splits)

theorem groups_within_sessions_witness:
  "let s = snd (setpgid shell_tasks 1 3 2 (snd (setpgid shell_tasks 1 2 2 shell_groups))) in
     pgrp s 2 = 2 \<and> pgrp s 3 = 2 \<and> session s 2 = session s 3"
proof -
  let ?s = "snd (setpgid shell_tasks 1 2 2 shell_groups)" and ?t = "snd (setpgid shell_tasks 1 3 2 (snd (setpgid shell_tasks 1 2 2 shell_groups)))"
  have c: "1 \<in> set (tasks shell_tasks)" "2 \<in> set (tasks shell_tasks)" "3 \<in> set (tasks shell_tasks)" by (simp_all add: shell_tasks_def)
  have "reach (groups_start shell_tasks) (group_step shell_tasks) ?s"
    by (rule reach_step [OF reach_init [of "groups_start shell_tasks", OF shell_start]]) (use c(1) in \<open>auto simp: group_step_def\<close>)
  then have r: "reach (groups_start shell_tasks) (group_step shell_tasks) ?t"
    by (rule reach_step) (use c(1) in \<open>auto simp: group_step_def\<close>)
  have "pgrp ?t 2 = 2 \<and> pgrp ?t 3 = 2" by code_simp
  with groups_within_sessions [OF r c(2,3)] show ?thesis by (simp add: Let_def)
qed

end
