(* ===== verification/Accounting.thy ===== *)
theory Accounting
  imports Creds
begin

text \<open>
  Project0/submission/sys.c, accounting: \<open>getrusage\<close>, \<open>times\<close>, \<open>sysinfo\<close>, \<open>getcpu\<close> and \<open>umask\<close>. Counters are words of 32
  bits, which is what \<open>unsigned long\<close> is on the machine of the projects. What the scheduler and the memory
  management know (processor times, resident sizes, the amount of memory) are parameters; processor times are not converted to
  seconds and microseconds.
\<close>

unbundle bit_operations_syntax

section \<open>Resource usage\<close>

abbreviation RUSAGE_SELF :: int where "RUSAGE_SELF \<equiv> 0"
abbreviation RUSAGE_CHILDREN :: int where "RUSAGE_CHILDREN \<equiv> -1"
abbreviation RUSAGE_BOTH :: int where "RUSAGE_BOTH \<equiv> -2"
abbreviation RUSAGE_THREAD :: int where "RUSAGE_THREAD \<equiv> 1"

text \<open>The six counters a thread, a process and \<open>struct rusage\<close> have.\<close>

record counters =
  nvcsw :: "32 word"
  nivcsw :: "32 word"
  minflt :: "32 word"
  majflt :: "32 word"
  inblock :: "32 word"
  oublock :: "32 word"

record rusage =
  ru_utime :: "32 word"
  ru_stime :: "32 word"
  ru_counters :: counters
  ru_maxrss :: "32 word"

text \<open>A process: the counters of its threads that have ended, those of its children that have been
  waited for, and its living threads, itself first.\<close>

record usage =
  sig_counters :: counters
  sig_maxrss :: "32 word"
  child_counters :: counters
  cmaxrss :: "32 word"
  cutime :: "32 word"
  cstime :: "32 word"
  thread_counters :: "counters list"
  group_utime :: "32 word"
  group_stime :: "32 word"
  task_utime :: "32 word"
  task_stime :: "32 word"
  hiwater_rss :: "(32 word) option"
  sighand :: bool

definition no_counters :: counters where
  "no_counters = \<lparr>nvcsw = 0, nivcsw = 0, minflt = 0, majflt = 0, inblock = 0, oublock = 0\<rparr>"

definition add_counters :: "counters \<Rightarrow> counters \<Rightarrow> counters" where
  "add_counters c r =
     \<lparr>nvcsw = nvcsw r + nvcsw c, nivcsw = nivcsw r + nivcsw c, minflt = minflt r + minflt c, majflt = majflt r + majflt c,
      inblock = inblock r + inblock c, oublock = oublock r + oublock c\<rparr>"

definition accumulate_thread_rusage :: "counters \<Rightarrow> counters \<Rightarrow> counters" where
  "accumulate_thread_rusage t r = add_counters t r"

text \<open>The sums before they are converted: times, counters and the maximal resident size in pages. The case of
  \<open>RUSAGE_BOTH\<close> falls through from the children to the process itself. \<open>None\<close> is \<open>BUG()\<close>.\<close>

definition children_usage :: "usage \<Rightarrow> (32 word) \<times> (32 word) \<times> counters \<times> (32 word)" where
  "children_usage p = (cutime p, cstime p, child_counters p, cmaxrss p)"

definition add_self_usage :: "usage \<Rightarrow> (32 word) \<times> (32 word) \<times> counters \<times> (32 word) \<Rightarrow> (32 word) \<times> (32 word) \<times> counters \<times> (32 word)" where
  "add_self_usage p u =
     (let (utime, stime, r, maxrss) = u in
      (utime + group_utime p, stime + group_stime p,
       fold accumulate_thread_rusage (thread_counters p) (add_counters (sig_counters p) r),
       if maxrss < sig_maxrss p then sig_maxrss p else maxrss))"

definition gather :: "usage \<Rightarrow> int \<Rightarrow> ((32 word) \<times> (32 word) \<times> counters \<times> (32 word)) option" where
  "gather p who =
     (if who = RUSAGE_BOTH then Some (add_self_usage p (children_usage p))
      else if who = RUSAGE_CHILDREN then Some (children_usage p)
      else if who = RUSAGE_SELF then Some (add_self_usage p (0, 0, no_counters, 0))
      else None)"

definition finish_usage :: "usage \<Rightarrow> int \<Rightarrow> (32 word) \<times> (32 word) \<times> counters \<times> (32 word) \<Rightarrow> rusage" where
  "finish_usage p who u =
     (let (utime, stime, r, maxrss) = u;
          maxrss = (if who \<noteq> RUSAGE_CHILDREN then (case hiwater_rss p of None \<Rightarrow> maxrss | Some h \<Rightarrow> if maxrss < h then h else maxrss) else maxrss)
      in \<lparr>ru_utime = utime, ru_stime = stime, ru_counters = r, ru_maxrss = maxrss * 4\<rparr>)"

definition k_getrusage :: "usage \<Rightarrow> int \<Rightarrow> rusage option" where
  "k_getrusage p who =
     (if who = RUSAGE_THREAD then
        Some (finish_usage p who (task_utime p, task_stime p, accumulate_thread_rusage (hd (thread_counters p)) no_counters, sig_maxrss p))
      else if \<not> sighand p then Some \<lparr>ru_utime = 0, ru_stime = 0, ru_counters = no_counters, ru_maxrss = 0\<rparr>
      else map_option (finish_usage p who) (gather p who))"

definition getrusage :: "usage \<Rightarrow> int \<Rightarrow> bool \<Rightarrow> (int \<times> rusage option) option" where
  "getrusage p who copied =
     (if who \<noteq> RUSAGE_SELF \<and> who \<noteq> RUSAGE_CHILDREN \<and> who \<noteq> RUSAGE_THREAD then Some (-EINVAL, None)
      else map_option (\<lambda>r. if copied then (0, Some r) else (-EFAULT, None)) (k_getrusage p who))"

section \<open>Times\<close>

record tms =
  tms_utime :: int
  tms_stime :: int
  tms_cutime :: int
  tms_cstime :: int

text \<open>\<open>clock\<close> is \<open>cputime_to_clock_t\<close>.\<close>

definition do_sys_times :: "((32 word) \<Rightarrow> int) \<Rightarrow> usage \<Rightarrow> tms" where
  "do_sys_times clock p =
     \<lparr>tms_utime = clock (group_utime p), tms_stime = clock (group_stime p), tms_cutime = clock (cutime p), tms_cstime = clock (cstime p)\<rparr>"

definition times :: "((32 word) \<Rightarrow> int) \<Rightarrow> int \<Rightarrow> bool \<Rightarrow> bool \<Rightarrow> usage \<Rightarrow> int \<times> tms option" where
  "times clock jiffies tbuf copied p =
     (if tbuf \<and> \<not> copied then (-EFAULT, None) else (jiffies, if tbuf then Some (do_sys_times clock p) else None))"

section \<open>System information\<close>

record sysinfo_data =
  uptime :: int
  loads :: "(32 word) list"
  totalram :: "32 word"
  freeram :: "32 word"
  sharedram :: "32 word"
  bufferram :: "32 word"
  totalswap :: "32 word"
  freeswap :: "32 word"
  procs :: "16 word"
  totalhigh :: "32 word"
  freehigh :: "32 word"
  mem_unit :: "32 word"

text \<open>The loop that shifts the total: the number of shifts, or \<open>None\<close> when a shift overflows.\<close>

function shift_total :: "32 word \<Rightarrow> nat \<Rightarrow> 32 word \<Rightarrow> nat option" where
  "shift_total unit bitcount mem_total =
     (if unit > 1 then
        let sav_total = mem_total; mem_total = push_bit 1 mem_total in
        if mem_total < sav_total then None else shift_total (drop_bit 1 unit) (bitcount + 1) mem_total
      else Some bitcount)"
  by pat_completeness auto
termination
proof (relation "measure (\<lambda>(unit, bitcount, mem_total). unat unit)")
  fix unit :: "32 word" assume "unit > 1"
  then have "1 < unat unit" by (simp add: word_less_nat_alt)
  then show "((drop_bit 1 unit, bitcount + 1, total), unit, bitcount, t) \<in> measure (\<lambda>(unit, bitcount, mem_total). unat unit)" for bitcount total t
    by (simp add: drop_bit_Suc unat_div)
qed simp

definition scale :: "nat \<Rightarrow> sysinfo_data \<Rightarrow> sysinfo_data" where
  "scale bitcount i = i\<lparr>mem_unit := 1, totalram := push_bit bitcount (totalram i), freeram := push_bit bitcount (freeram i),
     sharedram := push_bit bitcount (sharedram i), bufferram := push_bit bitcount (bufferram i),
     totalswap := push_bit bitcount (totalswap i), freeswap := push_bit bitcount (freeswap i),
     totalhigh := push_bit bitcount (totalhigh i), freehigh := push_bit bitcount (freehigh i)\<rparr>"

text \<open>The memory values are those \<open>si_meminfo\<close> and \<open>si_swapinfo\<close> have filled in.\<close>

definition do_sysinfo :: "int \<Rightarrow> int \<Rightarrow> (32 word) list \<Rightarrow> int \<Rightarrow> sysinfo_data \<Rightarrow> sysinfo_data" where
  "do_sysinfo tv_sec tv_nsec avenrun nr_threads filled =
     (let i = filled\<lparr>uptime := tv_sec + (if tv_nsec \<noteq> 0 then 1 else 0), loads := avenrun, procs := of_int nr_threads\<rparr>;
          mem_total = totalram i + totalswap i
      in if mem_total < totalram i \<or> mem_total < totalswap i then i
         else case shift_total (mem_unit i) 0 mem_total of None \<Rightarrow> i | Some bitcount \<Rightarrow> scale bitcount i)"

definition sysinfo :: "bool \<Rightarrow> int \<Rightarrow> int \<Rightarrow> (32 word) list \<Rightarrow> int \<Rightarrow> sysinfo_data \<Rightarrow> int \<times> sysinfo_data option" where
  "sysinfo copied tv_sec tv_nsec avenrun nr_threads filled =
     (let val = do_sysinfo tv_sec tv_nsec avenrun nr_threads filled in if copied then (0, Some val) else (-EFAULT, None))"

section \<open>Small calls\<close>

text \<open>Each pointer is NULL, or a place to which the number can be written or not.\<close>

definition getcpu :: "int \<Rightarrow> (int \<Rightarrow> int) \<Rightarrow> bool option \<Rightarrow> bool option \<Rightarrow> int \<times> int option \<times> int option" where
  "getcpu cpu cpu_to_node cpup nodep =
     (if cpup = Some False \<or> nodep = Some False then -EFAULT else 0,
      if cpup = Some True then Some cpu else None, if nodep = Some True then Some (cpu_to_node cpu) else None)"

text \<open>The new mask is stored, the old one returned; the state is the mask.\<close>

definition umask :: "32 word \<Rightarrow> 32 word \<Rightarrow> (32 word) \<times> (32 word)" where
  "umask new old = (old, new AND 0x1FF)"

section \<open>Lemmas\<close>

declare shift_total.simps [simp del]

lemma unat_push: "unat x * 2 ^ n < 2 ^ 32 \<Longrightarrow> unat (push_bit n x) = unat x * 2 ^ n" for x :: "32 word"
  unfolding unsigned_push_bit_eq by (simp add: take_bit_nat_eq_self push_bit_eq_mult)

lemma unat_eq_1: "unat x = 1 \<longleftrightarrow> x = 1" for x :: "32 word"
  using word_unat_eq_iff [of x 1] by simp

text \<open>The test for overflow after a shift by one is exact.\<close>

lemma shift_overflow: "push_bit 1 x < x \<longleftrightarrow> 2 ^ 31 \<le> unat x" for x :: "32 word"
proof -
  have x: "unat x < 2 ^ 32" using unsigned_less [of x] by simp
  have p: "unat (push_bit 1 x) = 2 * unat x mod 2 ^ 32"
    unfolding unsigned_push_bit_eq by (simp add: take_bit_eq_mod push_bit_eq_mult mult.commute)
  show ?thesis
  proof (cases "2 ^ 31 \<le> unat x")
    case True
    then have "2 * unat x mod 2 ^ 32 = 2 * unat x - 2 ^ 32" using x by (simp add: mod_if)
    with True x p show ?thesis by (simp add: word_less_nat_alt)
  next
    case False
    with p show ?thesis by (simp add: word_less_nat_alt)
  qed
qed

lemma shift_total_eq:
  "unat unit = 2 ^ j \<Longrightarrow> shift_total unit c tot = (if unat tot * 2 ^ j < 2 ^ 32 then Some (c + j) else None)"
proof (induction j arbitrary: unit c tot)
  case 0
  then have "unit = 1" using unat_eq_1 [of unit] by simp
  then show ?case using unsigned_less [of tot] by (subst shift_total.simps) simp
next
  case (Suc j)
  have "Suc 0 < 2 * 2 ^ j" using one_le_power [of "2 :: nat" j] by linarith
  with Suc.prems have u: "unit > 1" "unat (drop_bit 1 unit) = 2 ^ j" by (simp_all add: word_less_nat_alt drop_bit_Suc unat_div)
  show ?case
  proof (cases "2 ^ 31 \<le> unat tot")
    case True
    then have "2 ^ 32 \<le> unat tot * 2 ^ Suc j" using mult_le_mono [of "2 ^ 31" "unat tot" 2 "2 ^ Suc j"] by simp
    with True u(1) shift_overflow [of tot] show ?thesis by (subst shift_total.simps) (simp add: Let_def)
  next
    case False
    then have "unat (push_bit 1 tot) = unat tot * 2" using unat_push [of tot 1] by simp
    with Suc.IH [OF u(2), of "c + 1" "push_bit 1 tot"] False u(1) shift_overflow [of tot] show ?thesis
      by (subst shift_total.simps) (simp add: Let_def mult.assoc)
  qed
qed

text \<open>No value of the record is above the sum of memory and swap.\<close>

definition mem_values :: "sysinfo_data \<Rightarrow> nat list" where
  "mem_values i = map unat [totalram i, freeram i, sharedram i, bufferram i, totalswap i, freeswap i, totalhigh i, freehigh i]"

lemma scale_values:
  assumes "\<forall>v\<in>set (mem_values i). v \<le> t" "t * 2 ^ j < 2 ^ 32"
  shows "mem_values (scale j i) = map (\<lambda>v. v * 2 ^ j) (mem_values i)"
proof -
  have "unat x * 2 ^ j < 2 ^ 32" if "unat x \<le> t" for x :: "32 word"
    using that assms(2) by (meson le_less_trans mult_le_mono1)
  then have "unat (push_bit j x) = unat x * 2 ^ j" if "unat x \<le> t" for x :: "32 word" using that unat_push by blast
  with assms(1) show ?thesis by (simp add: mem_values_def scale_def)
qed

section \<open>Properties\<close>

text \<open>C35: \<open>sysinfo\<close> reports the right amounts of memory. If the unit is a power of two and no value is above
  the sum of memory and swap, all values in bytes are as \<open>si_meminfo\<close> and \<open>si_swapinfo\<close> gave them, whatever the unit, and
  the unit is one byte exactly if it was already or the sum in bytes is below two to the power of 32;
  the tests for overflow are exact and the loop ends.\<close>

theorem sysinfo_scaling:
  assumes "unat (mem_unit filled) = 2 ^ j" "\<forall>v\<in>set (mem_values filled). v \<le> unat (totalram filled) + unat (totalswap filled)"
  shows "let i = do_sysinfo sec nsec avenrun n filled in
    map (\<lambda>v. v * unat (mem_unit i)) (mem_values i) = map (\<lambda>v. v * unat (mem_unit filled)) (mem_values filled) \<and>
    (mem_unit i = 1 \<longleftrightarrow> j = 0 \<or> (unat (totalram filled) + unat (totalswap filled)) * 2 ^ j < 2 ^ 32)"
proof -
  let ?t = "unat (totalram filled) + unat (totalswap filled)"
  let ?i = "filled\<lparr>uptime := sec + (if nsec \<noteq> 0 then 1 else 0), loads := avenrun, procs := of_int n\<rparr>"
  have v: "mem_values ?i = mem_values filled" by (simp add: mem_values_def)
  have unit: "mem_unit filled = 1 \<longleftrightarrow> j = 0" using assms(1) unat_eq_1 [of "mem_unit filled"] by simp
  show ?thesis
  proof (cases "?t < 2 ^ 32")
    case True
    then have s: "unat (totalram filled + totalswap filled) = ?t" by (simp add: unat_plus_if')
    then have "\<not> totalram filled + totalswap filled < totalram filled" "\<not> totalram filled + totalswap filled < totalswap filled"
      by (simp_all add: word_less_nat_alt)
    then have d: "do_sysinfo sec nsec avenrun n filled = (if ?t * 2 ^ j < 2 ^ 32 then scale j ?i else ?i)"
      using shift_total_eq [OF assms(1), of 0] s by (simp add: do_sysinfo_def Let_def)
    show ?thesis
    proof (cases "?t * 2 ^ j < 2 ^ 32")
      case True
      have "mem_values (scale j ?i) = map (\<lambda>v. v * 2 ^ j) (mem_values filled)"
        using scale_values [of ?i ?t j] assms(2) True unfolding v by blast
      moreover have "mem_unit (scale j ?i) = 1" by (simp add: scale_def)
      ultimately show ?thesis using True d assms(1) by (simp add: Let_def comp_def)
    next
      case False
      with d v unit show ?thesis by (simp add: Let_def)
    qed
  next
    case False
    have "unat (totalram filled) < 2 ^ 32" "unat (totalswap filled) < 2 ^ 32"
      using unsigned_less [of "totalram filled"] unsigned_less [of "totalswap filled"] by simp_all
    with False have "totalram filled + totalswap filled < totalram filled" by (simp add: word_less_nat_alt unat_plus_if')
    then have d: "do_sysinfo sec nsec avenrun n filled = ?i" by (simp add: do_sysinfo_def Let_def)
    have "?t * 1 \<le> ?t * 2 ^ j" by (rule mult_le_mono2) simp
    with False have "\<not> ?t * 2 ^ j < 2 ^ 32" unfolding not_less mult_1_right by (rule order_trans)
    with d v unit show ?thesis by (simp add: Let_def)
  qed
qed

definition small_machine :: sysinfo_data where
  "small_machine = \<lparr>uptime = 0, loads = [], totalram = 1000, freeram = 10, sharedram = 0, bufferram = 5, totalswap = 24, freeswap = 24,
     procs = 0, totalhigh = 0, freehigh = 0, mem_unit = 4096\<rparr>"

theorem sysinfo_scaling_witness:
  "let i = do_sysinfo 5 1 [] 3 small_machine in
     map (\<lambda>v. v * unat (mem_unit i)) (mem_values i) = [4096000, 40960, 0, 20480, 98304, 98304, 0, 0] \<and> mem_unit i = 1"
proof -
  have "unat (mem_unit small_machine) = 2 ^ 12" by (simp add: small_machine_def)
  moreover have v: "mem_values small_machine = [1000, 10, 0, 5, 24, 24, 0, 0]" by (simp add: mem_values_def small_machine_def)
  moreover have "unat (totalram small_machine) = 1000" "unat (totalswap small_machine) = 24" by (simp_all add: small_machine_def)
  ultimately show ?thesis using sysinfo_scaling [of small_machine 12 5 1 "[]" 3] by (auto simp: Let_def)
qed

text \<open>The counters of \<open>RUSAGE_BOTH\<close> are the sums of those of the children and of the process itself, as words,
  and its resident size is the larger of the two.\<close>

lemma fold_accumulate:
  "fold accumulate_thread_rusage ts (add_counters a b) = add_counters (fold accumulate_thread_rusage ts a) b"
proof (induction ts arbitrary: a)
  case (Cons t ts)
  have "accumulate_thread_rusage t (add_counters a b) = add_counters (accumulate_thread_rusage t a) b"
    by (simp add: accumulate_thread_rusage_def add_counters_def algebra_simps)
  with Cons.IH show ?case by simp
qed simp

lemma add_no_counters: "add_counters a no_counters = a"
  by (simp add: add_counters_def no_counters_def)

lemma rusage_both_is_sum:
  assumes "gather p RUSAGE_SELF = Some (us, ss, rs, ms)" "gather p RUSAGE_CHILDREN = Some (uc, sc, rc, mc)"
  shows "gather p RUSAGE_BOTH = Some (uc + us, sc + ss, add_counters rs rc, max mc ms)"
  using assms fold_accumulate [of "thread_counters p" "sig_counters p" rc]
  by (auto simp: gather_def add_self_usage_def children_usage_def add_no_counters max_def not_less order.antisym split: if_splits)

end
