(* ===== verification/Uts.thy ===== *)
theory Uts
  imports Shell Creds
begin

text \<open>
  Project0/submission/sys.c, the names of the system: \<open>uname\<close> in its three forms and the calls that set and read
  the host name and the domain name. A field of \<open>struct new_utsname\<close> is an array of 65 characters with a
  terminator. What a copy from user space finds is a parameter, and so is whether a copy to user space
  succeeds; reading a name without a terminator is undefined, \<open>None\<close>. \<open>override_architecture\<close> is 0, as on the machine
  of the projects.
\<close>

section \<open>State\<close>

abbreviation NEW_UTS_LEN :: nat where "NEW_UTS_LEN \<equiv> 64"
abbreviation OLD_UTS_LEN :: nat where "OLD_UTS_LEN \<equiv> 8"

record utsname =
  sysname :: "char list"
  nodename :: "char list"
  release :: "char list"
  version :: "char list"
  machine :: "char list"
  domainname :: "char list"

section \<open>Setting and reading the names\<close>

text \<open>\<open>memcpy\<close> of some characters to the start of an array, and \<open>memset\<close> of the rest to 0.\<close>

definition copy_name :: "char list \<Rightarrow> char list \<Rightarrow> char list" where
  "copy_name tmp field =
     (let field = tmp @ drop (length tmp) field
      in take (length tmp) field @ replicate (length field - length tmp) nul)"

definition sethostname :: "bool \<Rightarrow> (nat \<Rightarrow> char list option) \<Rightarrow> int \<Rightarrow> utsname \<Rightarrow> int \<times> utsname" where
  "sethostname cap name len u =
     (if \<not> cap then (-EPERM, u)
      else if len < 0 \<or> len > int NEW_UTS_LEN then (-EINVAL, u)
      else case name (nat len) of
        None \<Rightarrow> (-EFAULT, u)
      | Some tmp \<Rightarrow> (0, u\<lparr>nodename := copy_name tmp (nodename u)\<rparr>))"

definition setdomainname :: "bool \<Rightarrow> (nat \<Rightarrow> char list option) \<Rightarrow> int \<Rightarrow> utsname \<Rightarrow> int \<times> utsname" where
  "setdomainname cap name len u =
     (if \<not> cap then (-EPERM, u)
      else if len < 0 \<or> len > int NEW_UTS_LEN then (-EINVAL, u)
      else case name (nat len) of
        None \<Rightarrow> (-EFAULT, u)
      | Some tmp \<Rightarrow> (0, u\<lparr>domainname := copy_name tmp (domainname u)\<rparr>))"

definition strlen :: "char list \<Rightarrow> nat option" where
  "strlen s = (if nul \<in> set s then Some (length (takeWhile (\<lambda>c. c \<noteq> nul) s)) else None)"

definition gethostname :: "bool \<Rightarrow> int \<Rightarrow> utsname \<Rightarrow> (int \<times> char list option) option" where
  "gethostname copied len u =
     (if len < 0 then Some (-EINVAL, None)
      else do {
        n \<leftarrow> strlen (nodename u);
        let i = (if 1 + int n > len then len else 1 + int n);
        Some (if copied then (0, Some (take (nat i) (nodename u))) else (-EFAULT, None)) })"

section \<open>The three forms of \<open>uname\<close>\<close>

text \<open>The rest of a release after its version: from the third dot or the first other character on.\<close>

fun skip_version :: "nat \<Rightarrow> string \<Rightarrow> string" where
  "skip_version ndots [] = []"
| "skip_version ndots (c # rest) =
     (if c = CHR ''.'' then if ndots + 1 \<ge> 3 then c # rest else skip_version (ndots + 1) rest
      else if isdigit c then skip_version ndots rest else c # rest)"

text \<open>What \<open>override_release\<close> writes to the start of a release of \<open>len\<close> characters, if the process asks for it
  (\<open>uname26\<close>). \<open>UTS_RELEASE\<close> and \<open>LINUX_VERSION_CODE\<close> belong to the build.\<close>

definition old_release :: "string \<Rightarrow> nat \<Rightarrow> nat \<Rightarrow> string" where
  "old_release uts_release version_code len =
     (let v = (version_code div 2 ^ 8) mod 2 ^ 8 + 60;
          copy = (if len < 1 then 1 else if len > 65 then 65 else len)
      in take (copy - 1) (''2.6.'' @ dec (int v) @ skip_version 0 uts_release) @ [nul])"

definition override_release :: "bool \<Rightarrow> string \<Rightarrow> nat \<Rightarrow> char list \<Rightarrow> char list" where
  "override_release uname26 uts_release version_code field =
     (if uname26 then
        let b = old_release uts_release version_code (length field) in b @ drop (length b) field
      else field)"

text \<open>The six fields the call writes to user space. \<open>copied\<close> and \<open>released\<close> say whether the two copies succeed.\<close>

definition newuname :: "bool \<Rightarrow> string \<Rightarrow> nat \<Rightarrow> bool \<Rightarrow> bool \<Rightarrow> utsname \<Rightarrow> int \<times> utsname option" where
  "newuname uname26 uts_release version_code copied released u =
     (if \<not> copied then (-EFAULT, None)
      else if uname26 \<and> \<not> released then (-EFAULT, None)
      else (0, Some (u\<lparr>release := override_release uname26 uts_release version_code (release u)\<rparr>)))"

text \<open>The old form has no domain name.\<close>

definition uname :: "bool \<Rightarrow> string \<Rightarrow> nat \<Rightarrow> bool \<Rightarrow> bool \<Rightarrow> bool \<Rightarrow> utsname \<Rightarrow> int \<times> (char list list) option" where
  "uname uname26 uts_release version_code name copied released u =
     (if \<not> name then (-EFAULT, None)
      else if \<not> copied then (-EFAULT, None)
      else if uname26 \<and> \<not> released then (-EFAULT, None)
      else (0, Some [sysname u, nodename u, override_release uname26 uts_release version_code (release u), version u, machine u]))"

text \<open>The oldest form has fields of nine characters, of which eight are copied.\<close>

definition old_field :: "char list \<Rightarrow> char list" where
  "old_field f = take OLD_UTS_LEN f @ [nul]"

definition olduname :: "bool \<Rightarrow> string \<Rightarrow> nat \<Rightarrow> bool \<Rightarrow> bool \<Rightarrow> bool \<Rightarrow> utsname \<Rightarrow> int \<times> (char list list) option" where
  "olduname uname26 uts_release version_code name copied released u =
     (if \<not> name then (-EFAULT, None)
      else if \<not> copied then (-EFAULT, None)
      else if uname26 \<and> \<not> released then (-EFAULT, None)
      else (0, Some [old_field (sysname u), old_field (nodename u),
        override_release uname26 uts_release version_code (old_field (release u)), old_field (version u), old_field (machine u)]))"

section \<open>Well-formed names\<close>

definition field_ok :: "nat \<Rightarrow> char list \<Rightarrow> bool" where
  "field_ok n f \<longleftrightarrow> length f = n \<and> nul \<in> set f"

definition uts_ok :: "utsname \<Rightarrow> bool" where
  "uts_ok u \<longleftrightarrow> (\<forall>f\<in>{sysname u, nodename u, release u, version u, machine u, domainname u}. field_ok (NEW_UTS_LEN + 1) f)"

text \<open>A copy from user space gives as many characters as were asked for.\<close>

definition copies :: "(nat \<Rightarrow> char list option) \<Rightarrow> bool" where
  "copies name \<longleftrightarrow> (\<forall>n tmp. name n = Some tmp \<longrightarrow> length tmp = n)"

lemma copy_name_eq: "length tmp \<le> length f \<Longrightarrow> copy_name tmp f = tmp @ replicate (length f - length tmp) nul"
  by (simp add: copy_name_def Let_def)

lemma copy_name_ok: "length tmp \<le> NEW_UTS_LEN \<Longrightarrow> field_ok (NEW_UTS_LEN + 1) f \<Longrightarrow> field_ok (NEW_UTS_LEN + 1) (copy_name tmp f)"
  by (simp add: field_ok_def copy_name_eq)

lemma set_names_ok:
  assumes "uts_ok u" "copies name"
  shows "uts_ok (snd (sethostname cap name len u))" "uts_ok (snd (setdomainname cap name len u))"
proof -
  have "length tmp \<le> NEW_UTS_LEN" if "name (nat len) = Some tmp" "\<not> (len < 0 \<or> len > int NEW_UTS_LEN)" for tmp
    using that assms(2) by (auto simp: copies_def)
  then show "uts_ok (snd (sethostname cap name len u))" "uts_ok (snd (setdomainname cap name len u))"
    using assms(1) copy_name_ok by (auto simp: sethostname_def setdomainname_def uts_ok_def split: option.splits)
qed

lemma override_release_ok:
  assumes "field_ok n f" "n \<le> 65"
  shows "field_ok n (override_release uname26 uts_release version_code f)"
proof -
  have "0 < n" using assms(1) by (cases f) (auto simp: field_ok_def)
  then have "length (old_release uts_release version_code n) \<le> n" using assms(2) by (simp add: old_release_def Let_def)
  moreover have "nul \<in> set (old_release uts_release version_code n)" by (simp add: old_release_def Let_def)
  ultimately show ?thesis using assms(1) by (auto simp: field_ok_def override_release_def Let_def)
qed

lemma takeWhile_stops: "x \<in> set f \<Longrightarrow> \<not> P x \<Longrightarrow> length (takeWhile P f) < length f"
  by (induction f) auto

lemma takeWhile_name: "nul \<notin> set n \<Longrightarrow> takeWhile (\<lambda>c. c \<noteq> nul) (n @ nul # r) = n"
  by (induction n) auto

lemma strlen_ok: "field_ok n f \<Longrightarrow> \<exists>k. strlen f = Some k \<and> k < n"
  using takeWhile_stops [of nul f "\<lambda>c. c \<noteq> nul"] by (auto simp: field_ok_def strlen_def)

text \<open>A call that sets one of the names.\<close>

datatype name_call = Sethostname bool "nat \<Rightarrow> char list option" int | Setdomainname bool "nat \<Rightarrow> char list option" int

fun do_name_call :: "name_call \<Rightarrow> utsname \<Rightarrow> utsname" where
  "do_name_call (Sethostname cap name len) u = snd (sethostname cap name len u)"
| "do_name_call (Setdomainname cap name len) u = snd (setdomainname cap name len u)"

fun call_name :: "name_call \<Rightarrow> nat \<Rightarrow> char list option" where
  "call_name (Sethostname cap name len) = name"
| "call_name (Setdomainname cap name len) = name"

lemma name_calls_ok: "uts_ok u \<Longrightarrow> \<forall>c\<in>set calls. copies (call_name c) \<Longrightarrow> uts_ok (fold do_name_call calls u)"
proof (induction calls arbitrary: u)
  case (Cons c calls)
  then have "uts_ok (do_name_call c u)" using set_names_ok by (cases c) auto
  with Cons show ?case by simp
qed simp

section \<open>Properties\<close>


definition sample_names :: utsname where
  "sample_names = \<lparr>sysname = copy_name ''Linux'' (replicate 65 nul), nodename = replicate 65 nul, release = copy_name ''4.4.162'' (replicate 65 nul),
     version = replicate 65 nul, machine = copy_name ''i686'' (replicate 65 nul), domainname = replicate 65 nul\<rparr>"


text \<open>The host name that is set is the host name that is read, with its terminator if there is room for it and
  cut off without one if there is not.\<close>

lemma hostname_roundtrip:
  assumes "uts_ok u" "nul \<notin> set n" "length n \<le> NEW_UTS_LEN" "0 \<le> len"
  shows "\<exists>w. sethostname True (\<lambda>k. Some n) (int (length n)) u = (0, w) \<and>
    gethostname True len w = Some (0, Some (if int (length n) < len then n @ [nul] else take (nat len) n))"
proof -
  have l: "length (nodename u) = 65" using assms(1) by (simp add: uts_ok_def field_ok_def)
  let ?f = "n @ replicate (65 - length n) nul"
  have f: "copy_name n (nodename u) = ?f" using assms(3) l by (simp add: copy_name_eq)
  have r: "replicate (65 - length n) nul = nul # replicate (64 - length n) nul" using assms(3) by (simp add: Suc_diff_le flip: replicate_Suc)
  have s: "strlen ?f = Some (length n)" using takeWhile_name [OF assms(2)] by (simp add: strlen_def r)
  show ?thesis
  proof (intro exI conjI)
    show "sethostname True (\<lambda>k. Some n) (int (length n)) u = (0, u\<lparr>nodename := ?f\<rparr>)" using assms(3) f by (simp add: sethostname_def)
    show "gethostname True len (u\<lparr>nodename := ?f\<rparr>) = Some (0, Some (if int (length n) < len then n @ [nul] else take (nat len) n))"
      using assms(4) s r by (auto simp: gethostname_def nat_add_distrib)
  qed
qed

end
