(* ===== verification/MemMap.thy ===== *)
theory MemMap
  imports Creds
begin

text \<open>
  Project0/submission/sys.c, \<open>prctl(PR_SET_MM)\<close>: the calls by which a process changes what the kernel records of its
  address space. The eleven addresses are one record, with 32-bit words in \<open>mm_struct\<close> and 64-bit words in the
  structure that is passed in. The auxiliary vector is a list of bytes. What the calls find in user space and in
  the file system, the limits of addresses and data, and the capability are parameters; a file is a
  number that stands for its path. The locks and the reference counts of files are left out.
\<close>

section \<open>State\<close>

abbreviation EBADF :: int where "EBADF \<equiv> 9"
abbreviation EBUSY :: int where "EBUSY \<equiv> 16"

abbreviation PR_SET_MM_START_CODE :: int where "PR_SET_MM_START_CODE \<equiv> 1"
abbreviation PR_SET_MM_END_CODE :: int where "PR_SET_MM_END_CODE \<equiv> 2"
abbreviation PR_SET_MM_START_DATA :: int where "PR_SET_MM_START_DATA \<equiv> 3"
abbreviation PR_SET_MM_END_DATA :: int where "PR_SET_MM_END_DATA \<equiv> 4"
abbreviation PR_SET_MM_START_STACK :: int where "PR_SET_MM_START_STACK \<equiv> 5"
abbreviation PR_SET_MM_START_BRK :: int where "PR_SET_MM_START_BRK \<equiv> 6"
abbreviation PR_SET_MM_BRK :: int where "PR_SET_MM_BRK \<equiv> 7"
abbreviation PR_SET_MM_ARG_START :: int where "PR_SET_MM_ARG_START \<equiv> 8"
abbreviation PR_SET_MM_ARG_END :: int where "PR_SET_MM_ARG_END \<equiv> 9"
abbreviation PR_SET_MM_ENV_START :: int where "PR_SET_MM_ENV_START \<equiv> 10"
abbreviation PR_SET_MM_ENV_END :: int where "PR_SET_MM_ENV_END \<equiv> 11"
abbreviation PR_SET_MM_AUXV :: int where "PR_SET_MM_AUXV \<equiv> 12"
abbreviation PR_SET_MM_EXE_FILE :: int where "PR_SET_MM_EXE_FILE \<equiv> 13"
abbreviation PR_SET_MM_MAP :: int where "PR_SET_MM_MAP \<equiv> 14"
abbreviation PR_SET_MM_MAP_SIZE :: int where "PR_SET_MM_MAP_SIZE \<equiv> 15"

record 'a layout =
  start_code :: 'a
  end_code :: 'a
  start_data :: 'a
  end_data :: 'a
  start_brk :: 'a
  brk :: 'a
  start_stack :: 'a
  arg_start :: 'a
  arg_end :: 'a
  env_start :: 'a
  env_end :: 'a

record prctl_mm_map =
  pm_layout :: "(64 word) layout"
  pm_auxv :: "32 word"
  pm_auxv_size :: "32 word"
  pm_exe_fd :: "32 word"

text \<open>The address space: \<open>vma_files\<close> are the files of its mappings.\<close>

record mm =
  mm_layout :: "(32 word) layout"
  saved_auxv :: "byte list"
  exe_file :: "nat option"
  exe_file_changed :: bool
  vma_files :: "nat option list"

text \<open>\<open>find_vma\<close> says whether there is a mapping at or above an address, \<open>read_map\<close> is what \<open>copy_from_user\<close> finds
  of a map and \<open>user_byte\<close> a byte of user space, \<open>put_size\<close> is \<open>put_user\<close>, \<open>map_size\<close> is the size of \<open>struct prctl_mm_map\<close> and \<open>auxv_bytes\<close> that of the vector.\<close>

record mm_sys =
  task_size :: "32 word"
  mmap_min_addr :: "32 word"
  check_data_rlimit :: "32 word \<Rightarrow> 32 word \<Rightarrow> 32 word \<Rightarrow> 32 word \<Rightarrow> bool"
  local_root :: bool
  cap_sys_resource :: bool
  checkpoint_restore :: bool
  map_size :: "32 word"
  auxv_bytes :: nat
  read_map :: "32 word \<Rightarrow> prctl_mm_map option"
  user_byte :: "32 word \<Rightarrow> byte option"
  put_size :: "32 word \<Rightarrow> int"
  find_vma :: "32 word \<Rightarrow> bool"
  fdget :: "32 word \<Rightarrow> nat option"
  is_regular :: "nat \<Rightarrow> bool"
  path_noexec :: "nat \<Rightarrow> bool"
  may_exec :: "nat \<Rightarrow> int"

section \<open>Operations\<close>

definition read_auxv :: "mm_sys \<Rightarrow> 32 word \<Rightarrow> nat \<Rightarrow> byte list option" where
  "read_auxv k a n = those (map (\<lambda>i. user_byte k (a + of_nat i)) [0..<n])"

definition prctl_set_mm_exe_file :: "mm_sys \<Rightarrow> 32 word \<Rightarrow> mm \<Rightarrow> int \<times> mm" where
  "prctl_set_mm_exe_file k fd m =
     (case fdget k fd of
        None \<Rightarrow> (-EBADF, m)
      | Some f \<Rightarrow>
          if \<not> is_regular k f \<or> path_noexec k f then (-EACCES, m)
          else if may_exec k f \<noteq> 0 then (may_exec k f, m)
          else if exe_file m \<noteq> None \<and> exe_file m \<in> set (vma_files m) then (-EBUSY, m)
          else if exe_file_changed m then (-EPERM, m)
          else (0, m\<lparr>exe_file_changed := True, exe_file := Some f\<rparr>))"

definition layout_list :: "'a layout \<Rightarrow> 'a list" where
  "layout_list l = [start_code l, end_code l, start_data l, end_data l, start_brk l, brk l, start_stack l, arg_start l, arg_end l,
     env_start l, env_end l]"

definition map_layout :: "('a \<Rightarrow> 'b) \<Rightarrow> 'a layout \<Rightarrow> 'b layout" where
  "map_layout f l = \<lparr>start_code = f (start_code l), end_code = f (end_code l), start_data = f (start_data l), end_data = f (end_data l),
     start_brk = f (start_brk l), brk = f (brk l), start_stack = f (start_stack l), arg_start = f (arg_start l), arg_end = f (arg_end l),
     env_start = f (env_start l), env_end = f (env_end l)\<rparr>"

text \<open>The pairs that are checked by \<open>__prctl_check_order\<close>.\<close>

definition check_order :: "(32 word) layout \<Rightarrow> bool" where
  "check_order l \<longleftrightarrow> start_code l < end_code l \<and> start_data l < end_data l \<and> start_brk l \<le> brk l \<and> arg_start l \<le> arg_end l \<and>
     env_start l \<le> env_end l"

definition validate_prctl_map :: "mm_sys \<Rightarrow> prctl_mm_map \<Rightarrow> int" where
  "validate_prctl_map k pm =
     (let l = pm_layout pm; c = map_layout ucast l in
      if list_ex (\<lambda>v. v \<ge> task_size k \<or> v < mmap_min_addr k) (layout_list c) then -EINVAL
      else if \<not> check_order c then -EINVAL
      else if start_brk l \<le> end_data l \<or> brk l \<le> end_data l then -EINVAL
      else if check_data_rlimit k (brk c) (start_brk c) (end_data c) (start_data c) then -EINVAL
      else if pm_auxv_size pm \<noteq> 0 \<and> (pm_auxv pm = 0 \<or> unat (pm_auxv_size pm) > auxv_bytes k) then -EINVAL
      else if pm_exe_fd pm \<noteq> -1 \<and> \<not> local_root k then -EINVAL
      else 0)"

text \<open>The last two entries of the vector, eight bytes, are cleared.\<close>

definition end_auxv :: "byte list \<Rightarrow> byte list" where
  "end_auxv v = take (length v - 8) v @ replicate (length v - (length v - 8)) 0"

definition prctl_set_mm_map :: "mm_sys \<Rightarrow> int \<Rightarrow> 32 word \<Rightarrow> 32 word \<Rightarrow> mm \<Rightarrow> int \<times> mm" where
  "prctl_set_mm_map k opt addr data_size m =
     (if opt = PR_SET_MM_MAP_SIZE then (put_size k addr, m)
      else if data_size \<noteq> map_size k then (-EINVAL, m)
      else case read_map k addr of
        None \<Rightarrow> (-EFAULT, m)
      | Some pm \<Rightarrow>
          let error = validate_prctl_map k pm; n = unat (pm_auxv_size pm) in
          if error \<noteq> 0 then (error, m)
          else case (if n \<noteq> 0 then read_auxv k (pm_auxv pm) n else Some []) of
            None \<Rightarrow> (-EFAULT, m)
          | Some bytes \<Rightarrow>
              let user_auxv = end_auxv (bytes @ replicate (auxv_bytes k - n) 0);
                  (error, m) = (if pm_exe_fd pm \<noteq> -1 then prctl_set_mm_exe_file k (pm_exe_fd pm) m else (0, m))
              in if error \<noteq> 0 then (error, m)
                 else
                   let m = m\<lparr>mm_layout := map_layout ucast (pm_layout pm)\<rparr>
                   in (0, if n \<noteq> 0 then m\<lparr>saved_auxv := user_auxv\<rparr> else m))"

text \<open>The vector that is copied is not initialised beyond \<open>len\<close> bytes, and only \<open>len\<close> bytes of it are used.\<close>

definition prctl_set_auxv :: "mm_sys \<Rightarrow> 32 word \<Rightarrow> 32 word \<Rightarrow> mm \<Rightarrow> int \<times> mm" where
  "prctl_set_auxv k addr len m =
     (if unat len > auxv_bytes k then (-EINVAL, m)
      else case read_auxv k addr (unat len) of
        None \<Rightarrow> (-EFAULT, m)
      | Some bytes \<Rightarrow>
          let user_auxv = take (auxv_bytes k - 8) bytes @ replicate (length bytes - (auxv_bytes k - 8)) 0
          in (0, m\<lparr>saved_auxv := user_auxv @ drop (unat len) (saved_auxv m)\<rparr>))"

text \<open>The switch that puts the address in its place; \<open>None\<close> for an unknown option.\<close>

definition set_address :: "int \<Rightarrow> 'a \<Rightarrow> 'a layout \<Rightarrow> 'a layout option" where
  "set_address opt a l =
     (if opt = PR_SET_MM_START_CODE then Some (l\<lparr>start_code := a\<rparr>)
      else if opt = PR_SET_MM_END_CODE then Some (l\<lparr>end_code := a\<rparr>)
      else if opt = PR_SET_MM_START_DATA then Some (l\<lparr>start_data := a\<rparr>)
      else if opt = PR_SET_MM_END_DATA then Some (l\<lparr>end_data := a\<rparr>)
      else if opt = PR_SET_MM_START_STACK then Some (l\<lparr>start_stack := a\<rparr>)
      else if opt = PR_SET_MM_START_BRK then Some (l\<lparr>start_brk := a\<rparr>)
      else if opt = PR_SET_MM_BRK then Some (l\<lparr>brk := a\<rparr>)
      else if opt = PR_SET_MM_ARG_START then Some (l\<lparr>arg_start := a\<rparr>)
      else if opt = PR_SET_MM_ARG_END then Some (l\<lparr>arg_end := a\<rparr>)
      else if opt = PR_SET_MM_ENV_START then Some (l\<lparr>env_start := a\<rparr>)
      else if opt = PR_SET_MM_ENV_END then Some (l\<lparr>env_end := a\<rparr>)
      else None)"

definition needs_vma :: "int \<Rightarrow> bool" where
  "needs_vma opt \<longleftrightarrow> opt = PR_SET_MM_START_STACK \<or> opt = PR_SET_MM_ARG_START \<or> opt = PR_SET_MM_ARG_END \<or> opt = PR_SET_MM_ENV_START \<or>
     opt = PR_SET_MM_ENV_END"

definition prctl_set_mm :: "mm_sys \<Rightarrow> int \<Rightarrow> 32 word \<Rightarrow> 32 word \<Rightarrow> 32 word \<Rightarrow> mm \<Rightarrow> int \<times> mm" where
  "prctl_set_mm k opt addr arg4 arg5 m =
     (if arg5 \<noteq> 0 \<or> arg4 \<noteq> 0 \<and> opt \<noteq> PR_SET_MM_AUXV \<and> opt \<noteq> PR_SET_MM_MAP \<and> opt \<noteq> PR_SET_MM_MAP_SIZE then (-EINVAL, m)
      else if checkpoint_restore k \<and> (opt = PR_SET_MM_MAP \<or> opt = PR_SET_MM_MAP_SIZE) then prctl_set_mm_map k opt addr arg4 m
      else if \<not> cap_sys_resource k then (-EPERM, m)
      else if opt = PR_SET_MM_EXE_FILE then prctl_set_mm_exe_file k addr m
      else if opt = PR_SET_MM_AUXV then prctl_set_auxv k addr arg4 m
      else if addr \<ge> task_size k \<or> addr < mmap_min_addr k then (-EINVAL, m)
      else case set_address opt (ucast addr) (map_layout ucast (mm_layout m)) of
        None \<Rightarrow> (-EINVAL, m)
      | Some l \<Rightarrow>
          let error = validate_prctl_map k \<lparr>pm_layout = l, pm_auxv = 0, pm_auxv_size = 0, pm_exe_fd = -1\<rparr> in
          if error \<noteq> 0 then (error, m)
          else if needs_vma opt \<and> \<not> find_vma k addr then (-EFAULT, m)
          else (0, m\<lparr>mm_layout := map_layout ucast l\<rparr>))"

section \<open>What the calls keep\<close>

definition layout_ok :: "mm_sys \<Rightarrow> (32 word) layout \<Rightarrow> bool" where
  "layout_ok k l \<longleftrightarrow> list_all (\<lambda>v. mmap_min_addr k \<le> v \<and> v < task_size k) (layout_list l) \<and> check_order l"

definition auxv_ok :: "mm_sys \<Rightarrow> byte list \<Rightarrow> bool" where
  "auxv_ok k v \<longleftrightarrow> length v = auxv_bytes k \<and> drop (auxv_bytes k - 8) v = replicate 8 0"

definition mm_ok :: "mm_sys \<Rightarrow> mm \<Rightarrow> bool" where
  "mm_ok k m \<longleftrightarrow> layout_ok k (mm_layout m) \<and> auxv_ok k (saved_auxv m)"

text \<open>The break is above the data, as the code wants it in traditional maps.\<close>

definition heap_after_data :: "(32 word) layout \<Rightarrow> bool" where
  "heap_after_data l \<longleftrightarrow> end_data l < start_brk l \<and> end_data l < brk l"

text \<open>A call, with what it finds of its surroundings; the limits of the machine are the same for all.\<close>

type_synonym mm_call = "mm_sys \<times> int \<times> 32 word \<times> 32 word \<times> 32 word"

fun do_mm_call :: "mm_call \<Rightarrow> mm \<Rightarrow> mm" where
  "do_mm_call (k, opt, addr, arg4, arg5) m = snd (prctl_set_mm k opt addr arg4 arg5 m)"

definition same_limits :: "mm_sys \<Rightarrow> mm_sys \<Rightarrow> bool" where
  "same_limits k j \<longleftrightarrow> task_size j = task_size k \<and> mmap_min_addr j = mmap_min_addr k \<and> auxv_bytes j = auxv_bytes k"

lemma mm_ok_same: "same_limits k j \<Longrightarrow> mm_ok j m = mm_ok k m"
  by (simp add: same_limits_def mm_ok_def layout_ok_def auxv_ok_def)

lemma validate_layout: "validate_prctl_map k pm = 0 \<Longrightarrow> layout_ok k (map_layout ucast (pm_layout pm))"
  by (auto simp: validate_prctl_map_def layout_ok_def Let_def list_ex_iff list_all_iff not_le not_less split: if_splits)

lemma validate_auxv: "validate_prctl_map k pm = 0 \<Longrightarrow> unat (pm_auxv_size pm) \<le> auxv_bytes k"
  by (cases "pm_auxv_size pm = 0") (auto simp: validate_prctl_map_def Let_def split: if_splits)

lemma validate_brk:
  "validate_prctl_map k pm = 0 \<Longrightarrow> end_data (pm_layout pm) < start_brk (pm_layout pm) \<and> end_data (pm_layout pm) < brk (pm_layout pm)"
  by (auto simp: validate_prctl_map_def Let_def not_le split: if_splits)

lemma those_length: "those xs = Some ys \<Longrightarrow> length ys = length xs"
  by (induction xs arbitrary: ys) (auto split: option.splits)

lemma read_auxv_length: "read_auxv k a n = Some bs \<Longrightarrow> length bs = n"
  unfolding read_auxv_def by (drule those_length) simp

lemma exe_file_keeps [simp]:
  "mm_layout (snd (prctl_set_mm_exe_file k fd m)) = mm_layout m"
  "saved_auxv (snd (prctl_set_mm_exe_file k fd m)) = saved_auxv m"
  by (simp_all add: prctl_set_mm_exe_file_def split: option.splits)

lemma end_auxv_ok: "length v = auxv_bytes k \<Longrightarrow> 8 \<le> auxv_bytes k \<Longrightarrow> auxv_ok k (end_auxv v)"
  by (simp add: auxv_ok_def end_auxv_def)

lemma replicate_join: "a + b = c \<Longrightarrow> replicate a x @ replicate b x = replicate c x"
  by (auto simp flip: replicate_add)

lemma set_auxv_ok:
  assumes "auxv_ok k (saved_auxv m)" "8 \<le> auxv_bytes k"
  shows "auxv_ok k (saved_auxv (snd (prctl_set_auxv k addr len m)))"
proof (cases "unat len > auxv_bytes k \<or> read_auxv k addr (unat len) = None")
  case True
  then show ?thesis using assms by (auto simp: prctl_set_auxv_def split: option.splits)
next
  case False
  let ?A = "auxv_bytes k" and ?n = "unat len"
  from False obtain bs where bs: "read_auxv k addr ?n = Some bs" "?n \<le> ?A" by auto
  have l: "length bs = ?n" using read_auxv_length bs(1) by blast
  have old: "length (saved_auxv m) = ?A" "drop (?A - 8) (saved_auxv m) = replicate 8 0" using assms(1) by (simp_all add: auxv_ok_def)
  let ?v = "take (?A - 8) bs @ replicate (?n - (?A - 8)) 0 @ drop ?n (saved_auxv m)"
  have v: "saved_auxv (snd (prctl_set_auxv k addr len m)) = ?v" using bs l by (simp add: prctl_set_auxv_def)
  have "drop (?A - 8) ?v = replicate 8 0"
  proof (cases "?n \<le> ?A - 8")
    case True
    then have "auxv_bytes k - (8 + unat len) + unat len = auxv_bytes k - 8" by simp
    then show ?thesis using True l old by simp
  next
    case False
    have "drop ?n (saved_auxv m) = drop (?n - (?A - 8)) (drop (?A - 8) (saved_auxv m))" using False by simp
    also have "\<dots> = replicate (8 - (?n - (?A - 8))) 0" using old(2) by simp
    finally show ?thesis using False l bs(2) assms(2) by (simp add: replicate_join)
  qed
  then show ?thesis using l old bs(2) unfolding v auxv_ok_def by auto
qed

lemma set_mm_map_cases:
  obtains "snd (prctl_set_mm_map k opt addr n m) = m"
  | pm :: prctl_mm_map where "snd (prctl_set_mm_map k opt addr n m) = snd (prctl_set_mm_exe_file k (pm_exe_fd pm) m)"
  | pm :: prctl_mm_map and m' bs where "validate_prctl_map k pm = 0" "m' = m \<or> m' = snd (prctl_set_mm_exe_file k (pm_exe_fd pm) m)"
      "length bs = unat (pm_auxv_size pm)"
      "snd (prctl_set_mm_map k opt addr n m) = (let w = m'\<lparr>mm_layout := map_layout ucast (pm_layout pm)\<rparr> in
        if unat (pm_auxv_size pm) \<noteq> 0 then w\<lparr>saved_auxv := end_auxv (bs @ replicate (auxv_bytes k - unat (pm_auxv_size pm)) 0)\<rparr> else w)"
proof -
  assume c1: "snd (prctl_set_mm_map k opt addr n m) = m \<Longrightarrow> thesis"
  assume c2: "\<And>pm :: prctl_mm_map. snd (prctl_set_mm_map k opt addr n m) = snd (prctl_set_mm_exe_file k (pm_exe_fd pm) m) \<Longrightarrow> thesis"
  assume c3: "\<And>(pm :: prctl_mm_map) m' bs. validate_prctl_map k pm = 0 \<Longrightarrow> m' = m \<or> m' = snd (prctl_set_mm_exe_file k (pm_exe_fd pm) m) \<Longrightarrow>
      length bs = unat (pm_auxv_size pm) \<Longrightarrow> snd (prctl_set_mm_map k opt addr n m) = (let w = m'\<lparr>mm_layout := map_layout ucast (pm_layout pm)\<rparr> in
        if unat (pm_auxv_size pm) \<noteq> 0 then w\<lparr>saved_auxv := end_auxv (bs @ replicate (auxv_bytes k - unat (pm_auxv_size pm)) 0)\<rparr> else w) \<Longrightarrow> thesis"
  show thesis
  proof (cases "opt = PR_SET_MM_MAP_SIZE \<or> n \<noteq> map_size k \<or> read_map k addr = None")
    case True
    then show ?thesis by (intro c1) (auto simp: prctl_set_mm_map_def)
  next
    case False
    then obtain pm where pm: "read_map k addr = Some pm" by auto
    let ?bs = "if unat (pm_auxv_size pm) \<noteq> 0 then read_auxv k (pm_auxv pm) (unat (pm_auxv_size pm)) else Some []"
    show ?thesis
    proof (cases "validate_prctl_map k pm \<noteq> 0 \<or> ?bs = None")
      case True
      then show ?thesis using False pm by (intro c1) (auto simp: prctl_set_mm_map_def Let_def)
    next
      case ok: False
      then obtain bs where bs: "?bs = Some bs" by blast
      have l: "length bs = unat (pm_auxv_size pm)" using bs read_auxv_length by (auto split: if_splits)
      let ?e = "if pm_exe_fd pm \<noteq> -1 then prctl_set_mm_exe_file k (pm_exe_fd pm) m else (0, m)"
      have eq: "prctl_set_mm_map k opt addr n m = (case ?e of (error, m') \<Rightarrow> if error \<noteq> 0 then (error, m') else
          (0, let w = m'\<lparr>mm_layout := map_layout ucast (pm_layout pm)\<rparr> in
            if unat (pm_auxv_size pm) \<noteq> 0 then w\<lparr>saved_auxv := end_auxv (bs @ replicate (auxv_bytes k - unat (pm_auxv_size pm)) 0)\<rparr> else w))"
        using False pm ok bs by (simp only: prctl_set_mm_map_def Let_def) simp
      show ?thesis
      proof (cases "fst ?e = 0")
        case True
        then show ?thesis using ok l eq by (intro c3 [of pm "snd ?e" bs]) (auto simp: case_prod_beta)
      next
        case False
        then show ?thesis using eq by (intro c2 [of pm]) (auto simp: case_prod_beta split: if_splits)
      qed
    qed
  qed
qed

lemma set_mm_map_ok:
  assumes "mm_ok k m" "8 \<le> auxv_bytes k"
  shows "mm_ok k (snd (prctl_set_mm_map k opt addr n m))"
proof (cases rule: set_mm_map_cases [of k opt addr n m])
  case (3 pm m' bs)
  have a: "auxv_ok k (saved_auxv m')" using 3(2) assms(1) by (auto simp: mm_ok_def)
  have "auxv_ok k (end_auxv (bs @ replicate (auxv_bytes k - unat (pm_auxv_size pm)) 0))"
    using 3(3) validate_auxv [OF 3(1)] assms(2) by (intro end_auxv_ok) simp_all
  then show ?thesis using validate_layout [OF 3(1)] a unfolding 3(4) by (simp add: mm_ok_def Let_def)
qed (use assms in \<open>auto simp: mm_ok_def\<close>)

lemma set_mm_result:
  "prctl_set_mm k opt addr arg4 arg5 m = (e, w) \<Longrightarrow>
     w = m \<or> (e, w) = prctl_set_mm_map k opt addr arg4 m \<and> (opt = PR_SET_MM_MAP \<or> opt = PR_SET_MM_MAP_SIZE) \<or>
     (e, w) = prctl_set_mm_exe_file k addr m \<or> (e, w) = prctl_set_auxv k addr arg4 m \<or>
     (\<exists>l. set_address opt (ucast addr) (map_layout ucast (mm_layout m)) = Some l \<and>
       validate_prctl_map k \<lparr>pm_layout = l, pm_auxv = 0, pm_auxv_size = 0, pm_exe_fd = -1\<rparr> = 0 \<and>
       w = m\<lparr>mm_layout := map_layout ucast l\<rparr>)"
  unfolding prctl_set_mm_def Let_def by (simp only: split: if_split_asm option.split_asm) auto

lemma set_mm_single:
  obtains "snd (prctl_set_mm k opt addr arg4 arg5 m) = m"
  | "snd (prctl_set_mm k opt addr arg4 arg5 m) = snd (prctl_set_mm_map k opt addr arg4 m)"
      "opt = PR_SET_MM_MAP \<or> opt = PR_SET_MM_MAP_SIZE"
  | "snd (prctl_set_mm k opt addr arg4 arg5 m) = snd (prctl_set_mm_exe_file k addr m)"
  | "snd (prctl_set_mm k opt addr arg4 arg5 m) = snd (prctl_set_auxv k addr arg4 m)"
  | l where "set_address opt (ucast addr) (map_layout ucast (mm_layout m)) = Some l"
      "validate_prctl_map k \<lparr>pm_layout = l, pm_auxv = 0, pm_auxv_size = 0, pm_exe_fd = -1\<rparr> = 0"
      "snd (prctl_set_mm k opt addr arg4 arg5 m) = m\<lparr>mm_layout := map_layout ucast l\<rparr>"
  using set_mm_result [OF surjective_pairing, of k opt addr arg4 arg5 m] by (metis snd_conv)

lemma set_address_map: "set_address opt (f a) (map_layout f l) = map_option (map_layout f) (set_address opt a l)"
  by (simp add: set_address_def map_layout_def)

lemma ucast_widen [simp]:
  fixes x y :: "32 word"
  shows "(ucast x :: 64 word) < ucast y \<longleftrightarrow> x < y" "ucast (ucast x :: 64 word) = x"
proof -
  have u: "unat (ucast z :: 64 word) = unat z" for z :: "32 word"
    using unsigned_less [of z, where 'a = nat] by (simp add: unsigned_ucast_eq take_bit_nat_eq_self)
  show "(ucast x :: 64 word) < ucast y \<longleftrightarrow> x < y" by (simp add: word_less_nat_alt u)
  show "ucast (ucast x :: 64 word) = x" by (rule bit_word_eqI) (simp add: bit_simps)
qed

lemma set_mm_ok:
  assumes "mm_ok k m" "8 \<le> auxv_bytes k"
  shows "mm_ok k (snd (prctl_set_mm k opt addr arg4 arg5 m))"
proof (cases rule: set_mm_single [of k opt addr arg4 arg5 m])
  case 4
  then show ?thesis using assms set_auxv_ok [of k m] by (simp add: mm_ok_def prctl_set_auxv_def Let_def split: option.splits)
next
  case (5 l)
  then show ?thesis using assms(1) validate_layout [OF 5(2)] by (simp add: mm_ok_def)
qed (use assms set_mm_map_ok in \<open>auto simp: mm_ok_def\<close>)

lemma set_mm_heap:
  assumes "heap_after_data (mm_layout m)" "opt \<noteq> PR_SET_MM_MAP"
  shows "heap_after_data (mm_layout (snd (prctl_set_mm k opt addr arg4 arg5 m)))"
proof (cases rule: set_mm_single [of k opt addr arg4 arg5 m])
  case 4
  then show ?thesis using assms by (simp add: prctl_set_auxv_def Let_def split: option.splits)
next
  case (5 l)
  then obtain l' :: "(32 word) layout" where l': "l = map_layout ucast l'" by (auto simp: set_address_map)
  then have "heap_after_data l'" using validate_brk [OF 5(2)] by (simp add: heap_after_data_def map_layout_def)
  then show ?thesis unfolding 5(3) l' by (simp add: heap_after_data_def map_layout_def)
qed (use assms in \<open>auto simp: prctl_set_mm_map_def\<close>)

lemma mm_calls_ok:
  "mm_ok k m \<Longrightarrow> 8 \<le> auxv_bytes k \<Longrightarrow> \<forall>c\<in>set calls. same_limits k (fst c) \<Longrightarrow> mm_ok k (fold do_mm_call calls m)"
proof (induction calls arbitrary: m)
  case (Cons c calls)
  obtain j opt a b d where c: "c = (j, opt, a, b, d)" by (cases c)
  have s: "same_limits k j" using Cons.prems(3) c by simp
  have "8 \<le> auxv_bytes j" using s Cons.prems(2) by (simp add: same_limits_def)
  moreover have "mm_ok j m" using Cons.prems(1) mm_ok_same [OF s] by blast
  ultimately have "mm_ok j (do_mm_call c m)" unfolding c by (simp add: set_mm_ok)
  then have "mm_ok k (do_mm_call c m)" using mm_ok_same [OF s] by blast
  then show ?case using Cons.IH Cons.prems(2,3) by simp
qed simp

text \<open>The link to the program is only ever changed with the flag, which no call clears.\<close>

definition exe_step :: "mm \<Rightarrow> mm \<Rightarrow> bool" where
  "exe_step m w \<longleftrightarrow> exe_file w = exe_file m \<and> exe_file_changed w = exe_file_changed m \<or> \<not> exe_file_changed m \<and> exe_file_changed w"

lemma exe_file_step: "exe_step m (snd (prctl_set_mm_exe_file k fd m))"
  by (auto simp: exe_step_def prctl_set_mm_exe_file_def split: option.splits)

lemma set_mm_exe_step: "exe_step m (snd (prctl_set_mm k opt addr arg4 arg5 m))"
proof (cases rule: set_mm_single [of k opt addr arg4 arg5 m])
  case 2
  show ?thesis
  proof (cases rule: set_mm_map_cases [of k opt addr arg4 m])
    case (3 pm m' bs)
    then have "exe_step m m'" using exe_file_step by (auto simp: exe_step_def)
    then show ?thesis unfolding 2(1) 3(4) by (simp add: exe_step_def Let_def)
  qed (use 2 exe_file_step in \<open>auto simp: exe_step_def\<close>)
qed (use exe_file_step in \<open>auto simp: exe_step_def prctl_set_auxv_def Let_def split: option.splits\<close>)

lemma mm_calls_exe_step: "exe_step m (fold do_mm_call calls m)"
proof (induction calls arbitrary: m)
  case (Cons c calls)
  have "exe_step m (do_mm_call c m)" by (cases c) (simp add: set_mm_exe_step)
  with Cons [of "do_mm_call c m"] show ?case by (auto simp: exe_step_def)
qed (simp add: exe_step_def)

lemma exe_file_error: "fst (prctl_set_mm_exe_file k fd m) \<noteq> 0 \<Longrightarrow> snd (prctl_set_mm_exe_file k fd m) = m"
  by (auto simp: prctl_set_mm_exe_file_def split: option.splits if_splits)

lemma set_mm_map_error: "prctl_set_mm_map k opt addr n m = (e, w) \<Longrightarrow> e \<noteq> 0 \<Longrightarrow> w = m"
  using exe_file_error unfolding prctl_set_mm_map_def Let_def
  by (simp only: split: if_split_asm option.split_asm prod.split_asm) (auto, (metis fst_conv snd_conv)+)

lemma set_mm_error: "prctl_set_mm k opt addr arg4 arg5 m = (e, w) \<Longrightarrow> e \<noteq> 0 \<Longrightarrow> w = m"
  using exe_file_error [of k addr m] set_mm_map_error [of k opt addr arg4 m] unfolding prctl_set_mm_def prctl_set_auxv_def Let_def
  by (simp only: split: if_split_asm option.split_asm) (auto split: option.split_asm if_split_asm)

text \<open>A small machine with one file that may be executed, and a map that is passed in at address 64.\<close>

definition sample_layout :: "(64 word) layout" where
  "sample_layout = \<lparr>start_code = 0x1000, end_code = 0x2000, start_data = 0x3000, end_data = 0x4000, start_brk = 0x5000, brk = 0x6000,
     start_stack = 0x9000, arg_start = 0x7000, arg_end = 0x7100, env_start = 0x7100, env_end = 0x7200\<rparr>"

definition sample_map :: "(64 word) layout \<Rightarrow> prctl_mm_map" where
  "sample_map l = \<lparr>pm_layout = l, pm_auxv = 0, pm_auxv_size = 0, pm_exe_fd = -1\<rparr>"

definition sample_sys :: "prctl_mm_map \<Rightarrow> mm_sys" where
  "sample_sys pm = \<lparr>task_size = 0xC0000000, mmap_min_addr = 0x1000, check_data_rlimit = (\<lambda>_ _ _ _. False), local_root = False,
     cap_sys_resource = True, checkpoint_restore = True, map_size = 100, auxv_bytes = 16, read_map = (\<lambda>a. if a = 64 then Some pm else None),
     user_byte = (\<lambda>a. Some 7), put_size = (\<lambda>_. 0), find_vma = (\<lambda>_. True), fdget = (\<lambda>fd. if fd < 5 then Some (unat fd) else None),
     is_regular = (\<lambda>_. True), path_noexec = (\<lambda>_. False), may_exec = (\<lambda>_. 0)\<rparr>"

definition sample_mm :: mm where
  "sample_mm = \<lparr>mm_layout = map_layout ucast sample_layout, saved_auxv = replicate 16 0, exe_file = Some 9, exe_file_changed = False,
     vma_files = [Some 3, None]\<rparr>"

lemmas sample_simps = sample_layout_def sample_map_def sample_sys_def sample_mm_def

lemma sample_mm_ok: "mm_ok (sample_sys pm) sample_mm"
  by (simp add: mm_ok_def layout_ok_def auxv_ok_def check_order_def layout_list_def map_layout_def sample_simps)

section \<open>Properties\<close>

text \<open>What the kernel records of an address space stays well formed. Whatever sequence of \<open>PR_SET_MM\<close> calls a
  process makes, with or without privileges, every one of the eleven addresses stays between the lowest
  address that may be mapped and the end of user space, the code, data, heap, argument and environment
  areas stay ordered, and the auxiliary vector keeps its size and its terminating entry. A call that fails
  changes nothing.\<close>

theorem mm_well_formed:
  assumes "mm_ok k m" "8 \<le> auxv_bytes k" "\<forall>c\<in>set calls. same_limits k (fst c)"
  shows "mm_ok k (fold do_mm_call calls m) \<and>
    (\<forall>j opt addr arg4 arg5 w e. prctl_set_mm j opt addr arg4 arg5 (fold do_mm_call calls m) = (e, w) \<longrightarrow>
      e = 0 \<or> w = fold do_mm_call calls m)"
  using mm_calls_ok [OF assms] set_mm_error by blast

theorem mm_well_formed_witness:
  "mm_ok (sample_sys (sample_map sample_layout))
    (fold do_mm_call [(sample_sys (sample_map sample_layout), PR_SET_MM_BRK, 0x6800, 0, 0),
      (sample_sys (sample_map sample_layout), PR_SET_MM_AUXV, 0x7000, 12, 0)] sample_mm)"
proof -
  let ?k = "sample_sys (sample_map sample_layout)"
  let ?c = "[(?k, PR_SET_MM_BRK, 0x6800, 0, 0), (?k, PR_SET_MM_AUXV, 0x7000, 12, 0)]"
  have "\<forall>c\<in>set ?c. same_limits ?k (fst c)" by (simp add: same_limits_def)
  moreover have "8 \<le> auxv_bytes ?k" by (simp add: sample_sys_def)
  ultimately show ?thesis using mm_well_formed [OF sample_mm_ok, of _ ?c] by blast
qed

text \<open>The link to the program of a process changes at most once. As soon as some sequence of calls has made
  it point to another file, no further call changes it.\<close>

theorem exe_file_changes_once:
  assumes "exe_file (fold do_mm_call a m) \<noteq> exe_file m"
  shows "exe_file (fold do_mm_call (a @ b) m) = exe_file (fold do_mm_call a m)"
  using assms mm_calls_exe_step [of m a] mm_calls_exe_step [of "fold do_mm_call a m" b] by (auto simp: exe_step_def)

theorem exe_file_changes_once_witness:
  "exe_file (fold do_mm_call ([(sample_sys (sample_map sample_layout), PR_SET_MM_EXE_FILE, 4, 0, 0)] @
     [(sample_sys (sample_map sample_layout), PR_SET_MM_EXE_FILE, 3, 0, 0)]) sample_mm) = Some 4"
proof -
  let ?k = "sample_sys (sample_map sample_layout)"
  let ?a = "[(?k, PR_SET_MM_EXE_FILE, 4 :: 32 word, 0 :: 32 word, 0 :: 32 word)]"
  have e: "exe_file (fold do_mm_call ?a sample_mm) = Some 4"
    by (simp add: prctl_set_mm_def prctl_set_mm_exe_file_def sample_simps)
  then have "exe_file (fold do_mm_call ?a sample_mm) \<noteq> exe_file sample_mm" by (simp add: sample_mm_def)
  from exe_file_changes_once [OF this] show ?thesis unfolding e by (rule trans) (rule refl)
qed

text \<open>The calls that set one address keep the heap above the data. The call that passes a whole map does not:
  the order of data and heap is compared with 64 bits, and only 32 of them are kept, so a start of the heap
  with a higher bit set passes the check and ends up below the data.\<close>

lemma heap_below_data:
  "heap_after_data (mm_layout m) \<Longrightarrow> opt \<noteq> PR_SET_MM_MAP \<Longrightarrow> heap_after_data (mm_layout (snd (prctl_set_mm k opt addr arg4 arg5 m)))"
  "let k = sample_sys (sample_map (sample_layout\<lparr>start_brk := 0x100002000, brk := 0x100002800\<rparr>));
       r = prctl_set_mm k PR_SET_MM_MAP 64 100 0 sample_mm
   in fst r = 0 \<and> heap_after_data (mm_layout sample_mm) \<and> brk (mm_layout (snd r)) < end_data (mm_layout (snd r))"
proof -
  show "heap_after_data (mm_layout m) \<Longrightarrow> opt \<noteq> PR_SET_MM_MAP \<Longrightarrow>
    heap_after_data (mm_layout (snd (prctl_set_mm k opt addr arg4 arg5 m)))" by (rule set_mm_heap)
qed (simp add: prctl_set_mm_def prctl_set_mm_map_def validate_prctl_map_def check_order_def layout_list_def map_layout_def
    heap_after_data_def sample_simps)

end
