(* ===== verification/Prctl.thy ===== *)
theory Prctl
  imports MemMap
begin

text \<open>
  Project0/submission/sys.c, the system call \<open>prctl\<close>. The numbers of its options are in a header of the kernel; here they
  are the constructors of a data type. What the call reads and writes of its task is a record; what it
  writes to user space is part of its result. The hooks of the security module, of the architecture, of
  seccomp and of perf events are parameters, with their return value only, and so are the functions that
  copy names. An architecture may leave a hook undefined; then the file's own default is used.
\<close>

section \<open>State\<close>

abbreviation ENOSYS :: int where "ENOSYS \<equiv> 38"

datatype prctl_option = PR_SET_PDEATHSIG | PR_GET_PDEATHSIG | PR_GET_DUMPABLE | PR_SET_DUMPABLE | PR_SET_UNALIGN | PR_GET_UNALIGN
  | PR_SET_FPEMU | PR_GET_FPEMU | PR_SET_FPEXC | PR_GET_FPEXC | PR_GET_TIMING | PR_SET_TIMING | PR_SET_NAME | PR_GET_NAME
  | PR_GET_ENDIAN | PR_SET_ENDIAN | PR_GET_SECCOMP | PR_SET_SECCOMP | PR_GET_TSC | PR_SET_TSC | PR_TASK_PERF_EVENTS_DISABLE
  | PR_TASK_PERF_EVENTS_ENABLE | PR_GET_TIMERSLACK | PR_SET_TIMERSLACK | PR_MCE_KILL | PR_MCE_KILL_GET | PR_SET_MM
  | PR_GET_TID_ADDRESS | PR_SET_CHILD_SUBREAPER | PR_GET_CHILD_SUBREAPER | PR_SET_NO_NEW_PRIVS | PR_GET_NO_NEW_PRIVS
  | PR_GET_THP_DISABLE | PR_SET_THP_DISABLE | PR_MPX_ENABLE_MANAGEMENT | PR_MPX_DISABLE_MANAGEMENT | PR_SET_FP_MODE
  | PR_GET_FP_MODE | PR_GET_SPECULATION_CTRL | PR_SET_SPECULATION_CTRL | PR_UNKNOWN int

abbreviation SUID_DUMP_DISABLE :: "32 word" where "SUID_DUMP_DISABLE \<equiv> 0"
abbreviation SUID_DUMP_USER :: "32 word" where "SUID_DUMP_USER \<equiv> 1"
abbreviation PR_TIMING_STATISTICAL :: "32 word" where "PR_TIMING_STATISTICAL \<equiv> 0"
abbreviation PR_MCE_KILL_CLEAR :: "32 word" where "PR_MCE_KILL_CLEAR \<equiv> 0"
abbreviation PR_MCE_KILL_SET :: "32 word" where "PR_MCE_KILL_SET \<equiv> 1"
abbreviation PR_MCE_KILL_LATE :: "32 word" where "PR_MCE_KILL_LATE \<equiv> 0"
abbreviation PR_MCE_KILL_EARLY :: "32 word" where "PR_MCE_KILL_EARLY \<equiv> 1"
abbreviation PR_MCE_KILL_DEFAULT :: "32 word" where "PR_MCE_KILL_DEFAULT \<equiv> 2"

text \<open>The task: \<open>mce_process\<close> and \<open>mce_early\<close> are its flags \<open>PF_MCE_PROCESS\<close> and \<open>PF_MCE_EARLY\<close>, \<open>nohugepage\<close> is the flag
  \<open>VM_NOHUGEPAGE\<close> of its address space.\<close>

record ptask =
  pdeath_signal :: int
  dumpable :: int
  comm :: "char list"
  timer_slack_ns :: "32 word"
  default_timer_slack_ns :: "32 word"
  mce_process :: bool
  mce_early :: bool
  is_child_subreaper :: bool
  no_new_privs :: bool
  nohugepage :: bool
  clear_child_tid :: "32 word"
  task_mm :: mm

datatype written = Written_int int | Written_name "char list" | Written_address "32 word"

record prctl_sys =
  mm_sys :: mm_sys
  security_task_prctl :: "prctl_option \<Rightarrow> 32 word \<Rightarrow> 32 word \<Rightarrow> 32 word \<Rightarrow> 32 word \<Rightarrow> int"
  valid_signal :: "32 word \<Rightarrow> bool"
  user_writable :: "32 word \<Rightarrow> bool"
  strncpy_from_user :: "32 word \<Rightarrow> nat \<Rightarrow> char list option"
  set_task_comm :: "char list \<Rightarrow> char list \<Rightarrow> char list"
  get_task_comm :: "char list \<Rightarrow> char list"
  prctl_get_seccomp :: int
  prctl_set_seccomp :: "32 word \<Rightarrow> 32 word \<Rightarrow> int"
  perf_event_task_disable :: int
  perf_event_task_enable :: int
  arch_hook :: "prctl_option \<Rightarrow> (32 word \<Rightarrow> int) option"
  arch_spec_get :: "(32 word \<Rightarrow> int) option"
  arch_spec_set :: "(32 word \<Rightarrow> 32 word \<Rightarrow> int) option"

section \<open>Operations\<close>

type_synonym prctl_result = "int \<times> ptask \<times> written option"

definition put_user :: "prctl_sys \<Rightarrow> 32 word \<Rightarrow> written \<Rightarrow> ptask \<Rightarrow> prctl_result" where
  "put_user k addr v t = (if user_writable k addr then (0, t, Some v) else (-EFAULT, t, None))"

text \<open>The macros of the architecture, which are \<open>-EINVAL\<close> where it does not define them. One that takes no
  argument ignores it.\<close>

definition arch_ctl :: "prctl_sys \<Rightarrow> prctl_option \<Rightarrow> 32 word \<Rightarrow> int" where
  "arch_ctl k opt a = (case arch_hook k opt of None \<Rightarrow> -EINVAL | Some f \<Rightarrow> f a)"

definition arch_prctl_spec_ctrl_get :: "prctl_sys \<Rightarrow> 32 word \<Rightarrow> int" where
  "arch_prctl_spec_ctrl_get k which = (case arch_spec_get k of None \<Rightarrow> -EINVAL | Some f \<Rightarrow> f which)"

definition arch_prctl_spec_ctrl_set :: "prctl_sys \<Rightarrow> 32 word \<Rightarrow> 32 word \<Rightarrow> int" where
  "arch_prctl_spec_ctrl_set k which ctrl = (case arch_spec_set k of None \<Rightarrow> -EINVAL | Some f \<Rightarrow> f which ctrl)"

definition prctl_get_tid_address :: "prctl_sys \<Rightarrow> 32 word \<Rightarrow> ptask \<Rightarrow> prctl_result" where
  "prctl_get_tid_address k addr t =
     (if checkpoint_restore (mm_sys k) then put_user k addr (Written_address (clear_child_tid t)) t else (-EINVAL, t, None))"

definition set_name :: "prctl_sys \<Rightarrow> 32 word \<Rightarrow> ptask \<Rightarrow> prctl_result" where
  "set_name k arg2 t =
     (case strncpy_from_user k arg2 15 of
        None \<Rightarrow> (-EFAULT, t, None)
      | Some s \<Rightarrow> (0, t\<lparr>comm := set_task_comm k (takeWhile (\<lambda>c. c \<noteq> CHR 0x00) s) (comm t)\<rparr>, None))"

definition mce_kill :: "32 word \<Rightarrow> 32 word \<Rightarrow> 32 word \<Rightarrow> 32 word \<Rightarrow> ptask \<Rightarrow> prctl_result" where
  "mce_kill arg2 arg3 arg4 arg5 t =
     (if arg4 \<noteq> 0 \<or> arg5 \<noteq> 0 then (-EINVAL, t, None)
      else if arg2 = PR_MCE_KILL_CLEAR then
        if arg3 \<noteq> 0 then (-EINVAL, t, None) else (0, t\<lparr>mce_process := False\<rparr>, None)
      else if arg2 = PR_MCE_KILL_SET then
        let t = t\<lparr>mce_process := True\<rparr> in
        if arg3 = PR_MCE_KILL_EARLY then (0, t\<lparr>mce_early := True\<rparr>, None)
        else if arg3 = PR_MCE_KILL_LATE then (0, t\<lparr>mce_early := False\<rparr>, None)
        else if arg3 = PR_MCE_KILL_DEFAULT then (0, t\<lparr>mce_early := False, mce_process := False\<rparr>, None)
        else (-EINVAL, t, None)
      else (-EINVAL, t, None))"

definition mce_kill_get :: "ptask \<Rightarrow> int" where
  "mce_kill_get t = uint (if mce_process t then if mce_early t then PR_MCE_KILL_EARLY else PR_MCE_KILL_LATE else PR_MCE_KILL_DEFAULT)"

primrec prctl_switch ::
  "prctl_sys \<Rightarrow> prctl_option \<Rightarrow> 32 word \<Rightarrow> 32 word \<Rightarrow> 32 word \<Rightarrow> 32 word \<Rightarrow> ptask \<Rightarrow> prctl_result" where
  "prctl_switch k PR_SET_PDEATHSIG arg2 arg3 arg4 arg5 t =
     (if \<not> valid_signal k arg2 then (-EINVAL, t, None) else (0, t\<lparr>pdeath_signal := sint arg2\<rparr>, None))"
| "prctl_switch k PR_GET_PDEATHSIG arg2 arg3 arg4 arg5 t = put_user k arg2 (Written_int (pdeath_signal t)) t"
| "prctl_switch k PR_GET_DUMPABLE arg2 arg3 arg4 arg5 t = (dumpable t, t, None)"
| "prctl_switch k PR_SET_DUMPABLE arg2 arg3 arg4 arg5 t =
     (if arg2 \<noteq> SUID_DUMP_DISABLE \<and> arg2 \<noteq> SUID_DUMP_USER then (-EINVAL, t, None) else (0, t\<lparr>dumpable := sint arg2\<rparr>, None))"
| "prctl_switch k PR_GET_TIMING arg2 arg3 arg4 arg5 t = (uint PR_TIMING_STATISTICAL, t, None)"
| "prctl_switch k PR_SET_TIMING arg2 arg3 arg4 arg5 t = (if arg2 \<noteq> PR_TIMING_STATISTICAL then -EINVAL else 0, t, None)"
| "prctl_switch k PR_SET_NAME arg2 arg3 arg4 arg5 t = set_name k arg2 t"
| "prctl_switch k PR_GET_NAME arg2 arg3 arg4 arg5 t = put_user k arg2 (Written_name (get_task_comm k (comm t))) t"
| "prctl_switch k PR_GET_SECCOMP arg2 arg3 arg4 arg5 t = (prctl_get_seccomp k, t, None)"
| "prctl_switch k PR_SET_SECCOMP arg2 arg3 arg4 arg5 t = (prctl_set_seccomp k arg2 arg3, t, None)"
| "prctl_switch k PR_TASK_PERF_EVENTS_DISABLE arg2 arg3 arg4 arg5 t = (perf_event_task_disable k, t, None)"
| "prctl_switch k PR_TASK_PERF_EVENTS_ENABLE arg2 arg3 arg4 arg5 t = (perf_event_task_enable k, t, None)"
| "prctl_switch k PR_GET_TIMERSLACK arg2 arg3 arg4 arg5 t = (sint (timer_slack_ns t), t, None)"
| "prctl_switch k PR_SET_TIMERSLACK arg2 arg3 arg4 arg5 t =
     (0, t\<lparr>timer_slack_ns := if arg2 \<le> 0 then default_timer_slack_ns t else arg2\<rparr>, None)"
| "prctl_switch k PR_MCE_KILL arg2 arg3 arg4 arg5 t = mce_kill arg2 arg3 arg4 arg5 t"
| "prctl_switch k PR_MCE_KILL_GET arg2 arg3 arg4 arg5 t =
     (if arg2 \<noteq> 0 \<or> arg3 \<noteq> 0 \<or> arg4 \<noteq> 0 \<or> arg5 \<noteq> 0 then (-EINVAL, t, None) else (mce_kill_get t, t, None))"
| "prctl_switch k PR_SET_MM arg2 arg3 arg4 arg5 t =
     (case prctl_set_mm (mm_sys k) (sint arg2) arg3 arg4 arg5 (task_mm t) of (error, m) \<Rightarrow> (error, t\<lparr>task_mm := m\<rparr>, None))"
| "prctl_switch k PR_GET_TID_ADDRESS arg2 arg3 arg4 arg5 t = prctl_get_tid_address k arg2 t"
| "prctl_switch k PR_SET_CHILD_SUBREAPER arg2 arg3 arg4 arg5 t = (0, t\<lparr>is_child_subreaper := arg2 \<noteq> 0\<rparr>, None)"
| "prctl_switch k PR_GET_CHILD_SUBREAPER arg2 arg3 arg4 arg5 t =
     put_user k arg2 (Written_int (of_bool (is_child_subreaper t))) t"
| "prctl_switch k PR_SET_NO_NEW_PRIVS arg2 arg3 arg4 arg5 t =
     (if arg2 \<noteq> 1 \<or> arg3 \<noteq> 0 \<or> arg4 \<noteq> 0 \<or> arg5 \<noteq> 0 then (-EINVAL, t, None) else (0, t\<lparr>no_new_privs := True\<rparr>, None))"
| "prctl_switch k PR_GET_NO_NEW_PRIVS arg2 arg3 arg4 arg5 t =
     (if arg2 \<noteq> 0 \<or> arg3 \<noteq> 0 \<or> arg4 \<noteq> 0 \<or> arg5 \<noteq> 0 then (-EINVAL, t, None) else (of_bool (no_new_privs t), t, None))"
| "prctl_switch k PR_GET_THP_DISABLE arg2 arg3 arg4 arg5 t =
     (if arg2 \<noteq> 0 \<or> arg3 \<noteq> 0 \<or> arg4 \<noteq> 0 \<or> arg5 \<noteq> 0 then (-EINVAL, t, None) else (of_bool (nohugepage t), t, None))"
| "prctl_switch k PR_SET_THP_DISABLE arg2 arg3 arg4 arg5 t =
     (if arg3 \<noteq> 0 \<or> arg4 \<noteq> 0 \<or> arg5 \<noteq> 0 then (-EINVAL, t, None) else (0, t\<lparr>nohugepage := arg2 \<noteq> 0\<rparr>, None))"
| "prctl_switch k PR_MPX_ENABLE_MANAGEMENT arg2 arg3 arg4 arg5 t =
     (if arg2 \<noteq> 0 \<or> arg3 \<noteq> 0 \<or> arg4 \<noteq> 0 \<or> arg5 \<noteq> 0 then -EINVAL else arch_ctl k PR_MPX_ENABLE_MANAGEMENT 0, t, None)"
| "prctl_switch k PR_MPX_DISABLE_MANAGEMENT arg2 arg3 arg4 arg5 t =
     (if arg2 \<noteq> 0 \<or> arg3 \<noteq> 0 \<or> arg4 \<noteq> 0 \<or> arg5 \<noteq> 0 then -EINVAL else arch_ctl k PR_MPX_DISABLE_MANAGEMENT 0, t, None)"
| "prctl_switch k PR_GET_SPECULATION_CTRL arg2 arg3 arg4 arg5 t =
     (if arg3 \<noteq> 0 \<or> arg4 \<noteq> 0 \<or> arg5 \<noteq> 0 then -EINVAL else arch_prctl_spec_ctrl_get k arg2, t, None)"
| "prctl_switch k PR_SET_SPECULATION_CTRL arg2 arg3 arg4 arg5 t =
     (if arg4 \<noteq> 0 \<or> arg5 \<noteq> 0 then -EINVAL else arch_prctl_spec_ctrl_set k arg2 arg3, t, None)"
| "prctl_switch k (PR_UNKNOWN n) arg2 arg3 arg4 arg5 t = (-EINVAL, t, None)"
| "prctl_switch k PR_GET_FP_MODE arg2 arg3 arg4 arg5 t = (arch_ctl k PR_GET_FP_MODE 0, t, None)"
| "prctl_switch k PR_SET_UNALIGN arg2 arg3 arg4 arg5 t = (arch_ctl k PR_SET_UNALIGN arg2, t, None)"
| "prctl_switch k PR_GET_UNALIGN arg2 arg3 arg4 arg5 t = (arch_ctl k PR_GET_UNALIGN arg2, t, None)"
| "prctl_switch k PR_SET_FPEMU arg2 arg3 arg4 arg5 t = (arch_ctl k PR_SET_FPEMU arg2, t, None)"
| "prctl_switch k PR_GET_FPEMU arg2 arg3 arg4 arg5 t = (arch_ctl k PR_GET_FPEMU arg2, t, None)"
| "prctl_switch k PR_SET_FPEXC arg2 arg3 arg4 arg5 t = (arch_ctl k PR_SET_FPEXC arg2, t, None)"
| "prctl_switch k PR_GET_FPEXC arg2 arg3 arg4 arg5 t = (arch_ctl k PR_GET_FPEXC arg2, t, None)"
| "prctl_switch k PR_GET_ENDIAN arg2 arg3 arg4 arg5 t = (arch_ctl k PR_GET_ENDIAN arg2, t, None)"
| "prctl_switch k PR_SET_ENDIAN arg2 arg3 arg4 arg5 t = (arch_ctl k PR_SET_ENDIAN arg2, t, None)"
| "prctl_switch k PR_GET_TSC arg2 arg3 arg4 arg5 t = (arch_ctl k PR_GET_TSC arg2, t, None)"
| "prctl_switch k PR_SET_TSC arg2 arg3 arg4 arg5 t = (arch_ctl k PR_SET_TSC arg2, t, None)"
| "prctl_switch k PR_SET_FP_MODE arg2 arg3 arg4 arg5 t = (arch_ctl k PR_SET_FP_MODE arg2, t, None)"

definition prctl :: "prctl_sys \<Rightarrow> prctl_option \<Rightarrow> 32 word \<Rightarrow> 32 word \<Rightarrow> 32 word \<Rightarrow> 32 word \<Rightarrow> ptask \<Rightarrow> prctl_result" where
  "prctl k opt arg2 arg3 arg4 arg5 t =
     (if security_task_prctl k opt arg2 arg3 arg4 arg5 \<noteq> -ENOSYS then (security_task_prctl k opt arg2 arg3 arg4 arg5, t, None)
      else prctl_switch k opt arg2 arg3 arg4 arg5 t)"

section \<open>What a call does to its task\<close>

lemma put_user_task [simp]: "fst (snd (put_user k addr v t)) = t"
  by (simp add: put_user_def)

lemma put_user_writable [simp]: "user_writable k addr \<Longrightarrow> put_user k addr v t = (0, t, Some v)"
  by (simp add: put_user_def)

lemma mce_kill_error:
  "fst (mce_kill arg2 arg3 arg4 arg5 t) < 0 \<Longrightarrow> fst (snd (mce_kill arg2 arg3 arg4 arg5 t)) \<noteq> t \<Longrightarrow>
     arg2 = PR_MCE_KILL_SET \<and> arg3 \<notin> {PR_MCE_KILL_EARLY, PR_MCE_KILL_LATE, PR_MCE_KILL_DEFAULT} \<and>
     fst (snd (mce_kill arg2 arg3 arg4 arg5 t)) = t\<lparr>mce_process := True\<rparr>"
  by (simp add: mce_kill_def Let_def split: if_splits)

lemma mce_kill_privs: "no_new_privs (fst (snd (mce_kill arg2 arg3 arg4 arg5 t))) = no_new_privs t"
  by (simp add: mce_kill_def Let_def)

text \<open>The switch, for a call that fails and for the flag that is never cleared.\<close>

lemma prctl_switch_error:
  assumes "fst (prctl_switch k opt arg2 arg3 arg4 arg5 t) < 0" "opt \<noteq> PR_MCE_KILL"
  shows "fst (snd (prctl_switch k opt arg2 arg3 arg4 arg5 t)) = t"
proof (cases opt)
  case PR_SET_MM
  obtain e m where m: "prctl_set_mm (mm_sys k) (sint arg2) arg3 arg4 arg5 (task_mm t) = (e, m)" by fastforce
  then have "m = task_mm t" using assms(1) PR_SET_MM set_mm_error [OF m] by simp
  then show ?thesis using PR_SET_MM m by simp
next
  case PR_SET_NAME
  then show ?thesis using assms by (auto simp: set_name_def split: option.splits)
next
  case PR_SET_NO_NEW_PRIVS
  then show ?thesis using assms by auto
next
  case PR_SET_THP_DISABLE
  then show ?thesis using assms by auto
qed (insert assms, simp_all add: prctl_get_tid_address_def split: if_split_asm)

lemma prctl_switch_privs:
  "no_new_privs (fst (snd (prctl_switch k opt arg2 arg3 arg4 arg5 t))) \<longleftrightarrow>
     no_new_privs t \<or> opt = PR_SET_NO_NEW_PRIVS \<and> arg2 = 1 \<and> arg3 = 0 \<and> arg4 = 0 \<and> arg5 = 0"
  by (cases opt) (auto simp: mce_kill_privs set_name_def prctl_get_tid_address_def split: prod.splits option.splits)

lemma prctl_switch_mm:
  "opt \<noteq> PR_SET_MM \<Longrightarrow> task_mm (fst (snd (prctl_switch k opt arg2 arg3 arg4 arg5 t))) = task_mm t"
  by (cases opt) (auto simp: mce_kill_def Let_def set_name_def prctl_get_tid_address_def split: prod.splits option.splits)

text \<open>A call of \<open>prctl\<close> with what it finds of its surroundings.\<close>

type_synonym prctl_call = "prctl_sys \<times> prctl_option \<times> 32 word \<times> 32 word \<times> 32 word \<times> 32 word"

fun do_prctl :: "prctl_call \<Rightarrow> ptask \<Rightarrow> ptask" where
  "do_prctl (k, opt, arg2, arg3, arg4, arg5) t = fst (snd (prctl k opt arg2 arg3 arg4 arg5 t))"

fun sets_no_new_privs :: "prctl_call \<Rightarrow> bool" where
  "sets_no_new_privs (k, opt, arg2, arg3, arg4, arg5) \<longleftrightarrow> security_task_prctl k opt arg2 arg3 arg4 arg5 = -ENOSYS \<and>
     opt = PR_SET_NO_NEW_PRIVS \<and> arg2 = 1 \<and> arg3 = 0 \<and> arg4 = 0 \<and> arg5 = 0"

lemma do_prctl_privs: "no_new_privs (do_prctl c t) \<longleftrightarrow> no_new_privs t \<or> sets_no_new_privs c"
  by (cases c) (auto simp: prctl_def prctl_switch_privs)

lemma do_prctl_mm_ok:
  assumes "mm_ok j (task_mm t)" "8 \<le> auxv_bytes j" "same_limits j (mm_sys (fst c))"
  shows "mm_ok j (task_mm (do_prctl c t))"
proof -
  obtain k opt a2 a3 a4 a5 where c: "c = (k, opt, a2, a3, a4, a5)" by (cases c)
  have s: "same_limits j (mm_sys k)" using assms(3) c by simp
  have "mm_ok (mm_sys k) (snd (prctl_set_mm (mm_sys k) (sint a2) a3 a4 a5 (task_mm t)))"
    using assms(1,2) mm_ok_same [OF s] s by (intro set_mm_ok) (auto simp: same_limits_def)
  then have m: "mm_ok j (snd (prctl_set_mm (mm_sys k) (sint a2) a3 a4 a5 (task_mm t)))" using mm_ok_same [OF s] by blast
  show ?thesis
  proof (cases "opt = PR_SET_MM")
    case True
    then show ?thesis using m assms(1) by (simp add: c prctl_def case_prod_beta)
  next
    case False
    then show ?thesis using assms(1) by (simp add: c prctl_def prctl_switch_mm)
  qed
qed

section \<open>Properties\<close>

text \<open>C33: a call of \<open>prctl\<close> that fails leaves the task as it was, with one exception, which is real: with
  \<open>PR_MCE_KILL_SET\<close> and a policy that does not exist the call returns an error and yet the task has a policy of its
  own afterwards. The read-back then reports the early or late policy and not the default.\<close>

theorem prctl_failure:
  assumes "prctl k opt arg2 arg3 arg4 arg5 t = (e, t', out)" "e < 0"
  shows "t' = t \<or> opt = PR_MCE_KILL \<and> arg2 = PR_MCE_KILL_SET \<and>
    arg3 \<notin> {PR_MCE_KILL_EARLY, PR_MCE_KILL_LATE, PR_MCE_KILL_DEFAULT} \<and> t' = t\<lparr>mce_process := True\<rparr> \<and>
    mce_kill_get t' \<noteq> uint PR_MCE_KILL_DEFAULT"
proof (cases "security_task_prctl k opt arg2 arg3 arg4 arg5 = -ENOSYS")
  case True
  then have p: "prctl_switch k opt arg2 arg3 arg4 arg5 t = (e, t', out)" using assms(1) by (simp add: prctl_def)
  show ?thesis
  proof (cases "opt = PR_MCE_KILL")
    case True
    then show ?thesis using p assms(2) mce_kill_error [of arg2 arg3 arg4 arg5 t]
      by (cases "t' = t") (auto simp: mce_kill_get_def)
  next
    case False
    then show ?thesis using p assms(2) prctl_switch_error [of k opt arg2 arg3 arg4 arg5 t] by simp
  qed
qed (use assms in \<open>simp add: prctl_def\<close>)

definition sample_prctl :: prctl_sys where
  "sample_prctl = \<lparr>mm_sys = sample_sys (sample_map sample_layout), security_task_prctl = (\<lambda>_ _ _ _ _. -ENOSYS),
     valid_signal = (\<lambda>s. s \<le> 64), user_writable = (\<lambda>a. a = 100), strncpy_from_user = (\<lambda>_ n. Some (take n ''init'')),
     set_task_comm = (\<lambda>s _. s), get_task_comm = id, prctl_get_seccomp = 0, prctl_set_seccomp = (\<lambda>_ _. -EINVAL),
     perf_event_task_disable = 0, perf_event_task_enable = 0, arch_hook = (\<lambda>_. None), arch_spec_get = None, arch_spec_set = None\<rparr>"

definition sample_task :: ptask where
  "sample_task = \<lparr>pdeath_signal = 0, dumpable = 1, comm = ''sh'', timer_slack_ns = 50000, default_timer_slack_ns = 50000,
     mce_process = False, mce_early = False, is_child_subreaper = False, no_new_privs = False, nohugepage = False,
     clear_child_tid = 0, task_mm = sample_mm\<rparr>"

theorem prctl_failure_witness:
  "\<exists>t'. prctl sample_prctl PR_MCE_KILL PR_MCE_KILL_SET 7 0 0 sample_task = (-EINVAL, t', None) \<and>
     t' = sample_task\<lparr>mce_process := True\<rparr>"
proof -
  have "prctl sample_prctl PR_MCE_KILL PR_MCE_KILL_SET 7 0 0 sample_task = (-EINVAL, sample_task\<lparr>mce_process := True\<rparr>, None)"
    by (simp add: prctl_def mce_kill_def sample_prctl_def)
  from prctl_failure [OF this] this show ?thesis by auto
qed

text \<open>C32: along any sequence of calls of \<open>prctl\<close> the task has the flag \<open>no_new_privs\<close> if and only if it had it before
  or one of the calls, let through by the security module, set it with the exact arguments: no call ever
  clears it. And along any such sequence the record of the address space stays well formed.\<close>

theorem prctl_run:
  assumes "mm_ok j (task_mm t)" "8 \<le> auxv_bytes j" "\<forall>c\<in>set calls. same_limits j (mm_sys (fst c))"
  shows "(no_new_privs (fold do_prctl calls t) \<longleftrightarrow> no_new_privs t \<or> list_ex sets_no_new_privs calls) \<and>
    mm_ok j (task_mm (fold do_prctl calls t))"
  using assms
proof (induction calls arbitrary: t)
  case (Cons c calls)
  have "mm_ok j (task_mm (do_prctl c t))" using Cons.prems by (intro do_prctl_mm_ok) simp_all
  then show ?case using Cons.IH [of "do_prctl c t"] Cons.prems(2,3) by (auto simp: do_prctl_privs)
qed simp

theorem prctl_run_witness:
  "no_new_privs (fold do_prctl [(sample_prctl, PR_SET_NO_NEW_PRIVS, 1, 0, 0, 0), (sample_prctl, PR_SET_MM, 7, 0x6800, 0, 0)] sample_task)"
proof -
  let ?j = "sample_sys (sample_map sample_layout)"
  let ?c = "[(sample_prctl, PR_SET_NO_NEW_PRIVS, 1, 0, 0, 0), (sample_prctl, PR_SET_MM, 7, 0x6800, 0, 0)]"
  have m: "mm_ok ?j (task_mm sample_task)" unfolding sample_task_def using sample_mm_ok by simp
  have a: "8 \<le> auxv_bytes ?j" by (simp add: sample_sys_def)
  have l: "\<forall>c\<in>set ?c. same_limits ?j (mm_sys (fst c))" by (simp add: same_limits_def sample_prctl_def)
  have "list_ex sets_no_new_privs ?c" by (simp add: sample_prctl_def)
  then show ?thesis using prctl_run [OF m a l] by blast
qed

text \<open>What \<open>prctl\<close> sets is what it reads. For the signal at the death of the parent, core dumps, the timer
  slack, the policy for memory failures, subreapers, and huge pages the call that reads returns or writes
  what the call that sets was given; a slack of zero stands for the default.\<close>

theorem prctl_reads_back:
  assumes "\<And>opt a b c d. security_task_prctl k opt a b c d = -ENOSYS" "user_writable k p"
  shows "let set_get = (\<lambda>s v w g q. case prctl k s v w 0 0 t of (e, t', _) \<Rightarrow> (e, case prctl k g q 0 0 0 t' of (r, _, out) \<Rightarrow> (r, out))) in
    (valid_signal k v \<longrightarrow> set_get PR_SET_PDEATHSIG v 0 PR_GET_PDEATHSIG p = (0, 0, Some (Written_int (sint v)))) \<and>
    (v \<le> 1 \<longrightarrow> set_get PR_SET_DUMPABLE v 0 PR_GET_DUMPABLE 0 = (0, sint v, None)) \<and>
    set_get PR_SET_TIMERSLACK v 0 PR_GET_TIMERSLACK 0 = (0, sint (if v = 0 then default_timer_slack_ns t else v), None) \<and>
    (v \<le> 2 \<longrightarrow> set_get PR_MCE_KILL PR_MCE_KILL_SET v PR_MCE_KILL_GET 0 = (0, uint v, None)) \<and>
    set_get PR_MCE_KILL PR_MCE_KILL_CLEAR 0 PR_MCE_KILL_GET 0 = (0, uint PR_MCE_KILL_DEFAULT, None) \<and>
    set_get PR_SET_CHILD_SUBREAPER v 0 PR_GET_CHILD_SUBREAPER p = (0, 0, Some (Written_int (of_bool (v \<noteq> 0)))) \<and>
    set_get PR_SET_THP_DISABLE v 0 PR_GET_THP_DISABLE 0 = (0, of_bool (v \<noteq> 0), None)"
proof -
  have two: "v = 0 \<or> v = 1 \<or> v = 2" if "v \<le> 2" for v :: "32 word"
    using that by (auto simp: word_le_nat_alt word_unat_eq_iff)
  have one: "v = 0 \<or> v = 1" if "v \<le> 1" for v :: "32 word"
    using that by (auto simp: word_le_nat_alt word_unat_eq_iff)
  have mce: "v \<le> 2 \<Longrightarrow> mce_kill PR_MCE_KILL_SET v 0 0 t =
      (0, if v = 2 then t\<lparr>mce_process := False, mce_early := False\<rparr> else t\<lparr>mce_process := True, mce_early := v = 1\<rparr>, None)"
    using two [of v] by (auto simp: mce_kill_def)
  show ?thesis
    unfolding Let_def using one [of v] two [of v] mce by (auto simp: prctl_def assms mce_kill_def mce_kill_get_def)
qed

theorem prctl_reads_back_witness:
  "(case prctl sample_prctl PR_SET_TIMERSLACK 7 0 0 0 sample_task of (e, t', _) \<Rightarrow>
     (e, case prctl sample_prctl PR_GET_TIMERSLACK 0 0 0 0 t' of (r, _, out) \<Rightarrow> (r, out))) = (0, 7, None)"
proof -
  have s: "\<And>opt a b c d. security_task_prctl sample_prctl opt a b c d = -ENOSYS" by (simp add: sample_prctl_def)
  have w: "user_writable sample_prctl 100" by (simp add: sample_prctl_def)
  show ?thesis using prctl_reads_back [OF s w, of sample_task 7] unfolding Let_def by simp
qed

end
