(* ===== verification/Callers.thy ===== *)
theory Callers
  imports Interceptor Creds
begin

text \<open>
  The small programs around the kernel: Project0/testcalls and Project2/goodbyeWorld, which make the system
  calls of the project and print what they return, the first module of Project0, and the program that
  Project1 runs in the background. \<open>syscall\<close> of the C library is a parameter; it takes the number of a call and the state of
  the machine. Output is a list of lines.
\<close>

section \<open>The programs\<close>

abbreviation NR_cs3013_syscall3 :: "32 word" where "NR_cs3013_syscall3 \<equiv> 379"

type_synonym 's syscall = "32 word \<Rightarrow> 's \<Rightarrow> int \<times> 's"

definition testCall1 :: "'s syscall \<Rightarrow> 's \<Rightarrow> int \<times> 's" where
  "testCall1 syscall s = syscall NR_cs3013_syscall1 s"

definition testCall2 :: "'s syscall \<Rightarrow> 's \<Rightarrow> int \<times> 's" where
  "testCall2 syscall s = syscall NR_cs3013_syscall2 s"

definition testCall3 :: "'s syscall \<Rightarrow> 's \<Rightarrow> int \<times> 's" where
  "testCall3 syscall s = syscall NR_cs3013_syscall3 s"

definition result_line :: "string \<Rightarrow> int \<Rightarrow> string" where
  "result_line name r = line (tab # name @ '': '' @ dec r)"

definition goodbye_main :: "'s syscall \<Rightarrow> 's \<Rightarrow> int \<times> string list \<times> 's" where
  "goodbye_main syscall s =
     (let (r1, s) = testCall1 syscall s
      in (0, [line ''The return values of the system calls are:'', result_line ''cs3013_syscall1'' r1], s))"

definition testcalls_main :: "'s syscall \<Rightarrow> 's \<Rightarrow> int \<times> string list \<times> 's" where
  "testcalls_main syscall s =
     (let (r1, s) = testCall1 syscall s; (r2, s) = testCall2 syscall s; (r3, s) = testCall3 syscall s
      in (0, [line ''The return values of the system calls are:'', result_line ''cs3013_syscall1'' r1,
              result_line ''cs3013_syscall2'' r2, result_line ''cs3013_syscall3'' r3], s))"

definition hello_init :: "int \<times> string list" where
  "hello_init = (0, [line ''Hello World!''])"

definition hello_cleanup :: "string list" where
  "hello_cleanup = [line ''Cleaning up module.'']"

text \<open>The empty loop of \<open>seymour.c\<close>, with a counter of 32 bits that must not overflow.\<close>

function seymour_wait :: "int \<Rightarrow> int option" where
  "seymour_wait i = (if i < 525600000 then if i + 1 < 2 ^ 31 then seymour_wait (i + 1) else None else Some i)"
  by auto
termination by (relation "measure (\<lambda>i. nat (525600000 - i))") auto

definition seymour_main :: "string list option" where
  "seymour_main = map_option (\<lambda>_. [line ''Seymour waited for you.'']) (seymour_wait 0)"

section \<open>Lemmas\<close>

declare seymour_wait.simps [simp del]

lemma seymour_wait_ends: "i \<le> 525600000 \<Longrightarrow> seymour_wait i = Some 525600000"
  by (induction i rule: seymour_wait.induct) (subst seymour_wait.simps, simp)

lemma seymour_prints: "seymour_main = Some [line ''Seymour waited for you.'']"
  by (simp add: seymour_main_def seymour_wait_ends)

text \<open>A function of the kernel that writes to the log and returns a value.\<close>

definition kernel_function :: "int \<times> string list \<Rightarrow> machine \<Rightarrow> int \<times> machine" where
  "kernel_function f s = (fst f, s\<lparr>klog := klog s @ snd f\<rparr>)"

text \<open>\<open>syscall\<close> runs the function whose address is in the table.\<close>

definition dispatches :: "machine syscall \<Rightarrow> 32 word \<Rightarrow> (32 word \<Rightarrow> machine \<Rightarrow> int \<times> machine) \<Rightarrow> bool" where
  "dispatches syscall t run \<longleftrightarrow> (\<forall>nr s. syscall nr s = run (mem s (entry t nr)) s)"

lemma goodbye_runs:
  assumes "dispatches syscall t run" "run (mem s (entry t NR_cs3013_syscall1)) = kernel_function f" "fst f = 0"
  shows "goodbye_main syscall s =
    (0, [line ''The return values of the system calls are:'', result_line ''cs3013_syscall1'' 0], s\<lparr>klog := klog s @ snd f\<rparr>)"
  using assms by (simp add: goodbye_main_def testCall1_def dispatches_def kernel_function_def)

lemma testcalls_runs:
  assumes "dispatches syscall t run"
    "run (mem s (entry t NR_cs3013_syscall1)) = kernel_function (fst cs3013_syscall1, [snd cs3013_syscall1])"
    "run (mem s (entry t NR_cs3013_syscall2)) = kernel_function (fst cs3013_syscall2, [snd cs3013_syscall2])"
    "run (mem s (entry t NR_cs3013_syscall3)) = kernel_function (fst cs3013_syscall3, [snd cs3013_syscall3])"
  shows "testcalls_main syscall s =
    (0, line ''The return values of the system calls are:'' #
        map (\<lambda>n. result_line n 0) [''cs3013_syscall1'', ''cs3013_syscall2'', ''cs3013_syscall3''],
     s\<lparr>klog := klog s @ map hello [''syscall1'', ''syscall2'', ''syscall3'']\<rparr>)"
  using assms by (simp add: testcalls_main_def testCall1_def testCall2_def testCall3_def dispatches_def kernel_function_def
      cs3013_syscall1_def cs3013_syscall2_def cs3013_syscall3_def)

section \<open>Properties\<close>

text \<open>C36: a program that makes the first system call of Project0 sees the module of Project2 come and go only
  in the log. Before the module is loaded the call logs the greeting of the kernel; once it is loaded, the
  same program, unchanged, makes the module log its own; and after unloading it is the greeting again. What
  the program prints, a result of 0, is the same all three times.\<close>

theorem goodbye_through_module:
  assumes "dispatches syscall t run"
    and "find_sys_call_table k (mem s) (page_offset k) = Some t" "t \<noteq> 0"
    and "run (mem s (entry t NR_cs3013_syscall1)) = kernel_function (fst cs3013_syscall1, [snd cs3013_syscall1])"
    and "run (a_new_syscall1 k) = kernel_function new_sys_cs3013_syscall1"
  shows "let printed = [line ''The return values of the system calls are:'', result_line ''cs3013_syscall1'' 0] in
    \<exists>s0 s1 s2 s3 s4. goodbye_main syscall s = (0, printed, s0) \<and> klog s0 = klog s @ [hello ''syscall1''] \<and>
      interceptor_start k s0 = Some (0, s1) \<and>
      goodbye_main syscall s1 = (0, printed, s2) \<and> klog s2 = klog s1 @ snd new_sys_cs3013_syscall1 \<and>
      interceptor_end s2 = Some s3 \<and>
      goodbye_main syscall s3 = (0, printed, s4) \<and> klog s4 = klog s3 @ [hello ''syscall1''] \<and> mem s4 = mem s"
proof -
  let ?p = "[line ''The return values of the system calls are:'', result_line ''cs3013_syscall1'' 0]"
  let ?h = "(fst cs3013_syscall1, [snd cs3013_syscall1])"
  have h: "fst ?h = 0" by (simp add: cs3013_syscall1_def)
  let ?s0 = "s\<lparr>klog := klog s @ snd ?h\<rparr>"
  have g0: "goodbye_main syscall s = (0, ?p, ?s0)" by (rule goodbye_runs [OF assms(1,4) h])
  have "find_sys_call_table k (mem ?s0) (page_offset k) = Some t" using assms(2) by simp
  note start = start_eq [OF this assms(3)]
  define s1 where "s1 = snd (the (interceptor_start k ?s0))"
  have s1: "interceptor_start k ?s0 = Some (0, s1)" using start by (simp add: s1_def)
  note f1 = s1_def [unfolded start, simplified]
  have m1: "mem s1 (entry t NR_cs3013_syscall1) = a_new_syscall1 k" by (simp add: f1 entry_neq)
  let ?s2 = "s1\<lparr>klog := klog s1 @ snd new_sys_cs3013_syscall1\<rparr>"
  have g1: "goodbye_main syscall s1 = (0, ?p, ?s2)"
    by (rule goodbye_runs [OF assms(1)]) (simp_all add: m1 assms(5) new_sys_cs3013_syscall1_def)
  have "sys_call_table ?s2 \<noteq> 0" using assms(3) by (simp add: f1)
  note e = end_eq [OF this]
  define s3 where "s3 = the (interceptor_end ?s2)"
  have s3: "interceptor_end ?s2 = Some s3" using e by (simp add: s3_def)
  have m3: "mem s3 = mem s" unfolding s3_def e by (rule ext) (simp add: f1)
  have g3: "goodbye_main syscall s3 = (0, ?p, s3\<lparr>klog := klog s3 @ snd ?h\<rparr>)"
    by (rule goodbye_runs [OF assms(1) _ h]) (simp add: m3 assms(4))
  show ?thesis unfolding Let_def
    by (rule exI [of _ ?s0], rule exI [of _ s1], rule exI [of _ ?s2], rule exI [of _ s3],
        rule exI [of _ "s3\<lparr>klog := klog s3 @ snd ?h\<rparr>"], intro conjI)
      (rule g0, simp add: cs3013_syscall1_def, rule s1, rule g1, simp, rule s3, rule g3, simp_all add: cs3013_syscall1_def m3)
qed

definition sample_run :: "32 word \<Rightarrow> machine \<Rightarrow> int \<times> machine" where
  "sample_run a = (if a = 101 then kernel_function new_sys_cs3013_syscall1 else kernel_function (fst cs3013_syscall1, [snd cs3013_syscall1]))"

theorem goodbye_through_module_witness:
  "\<exists>s0 s1 s2 s3. goodbye_main (\<lambda>nr s. sample_run (mem s (entry 0xC0000000 nr)) s) sample_machine = (0, s0) \<and>
     interceptor_start sample_symbols (snd s0) = Some (0, s1) \<and>
     goodbye_main (\<lambda>nr s. sample_run (mem s (entry 0xC0000000 nr)) s) s1 = (0, s2) \<and> interceptor_end (snd s2) = Some s3 \<and> fst s0 = fst s2"
proof -
  let ?c = "\<lambda>nr s. sample_run (mem s (entry 0xC0000000 nr)) s"
  have d: "dispatches ?c 0xC0000000 sample_run" by (simp add: dispatches_def)
  have f: "find_sys_call_table sample_symbols (mem sample_machine) (page_offset sample_symbols) = Some 0xC0000000"
    by (subst find_step) (simp add: sample_symbols_def sample_machine_def entry_def)
  have h: "sample_run (mem sample_machine (entry 0xC0000000 NR_cs3013_syscall1)) = kernel_function (fst cs3013_syscall1, [snd cs3013_syscall1])"
    by (simp add: sample_run_def sample_machine_def entry_def)
  have n: "sample_run (a_new_syscall1 sample_symbols) = kernel_function new_sys_cs3013_syscall1"
    by (simp add: sample_run_def sample_symbols_def)
  have t: "(0xC0000000 :: 32 word) \<noteq> 0" by simp
  from goodbye_through_module [OF d f t h n, unfolded Let_def] obtain s0 s1 s2 s3 where
    g: "goodbye_main ?c sample_machine = (0, [line ''The return values of the system calls are:'', result_line ''cs3013_syscall1'' 0], s0)"
      "interceptor_start sample_symbols s0 = Some (0, s1)"
      "goodbye_main ?c s1 = (0, [line ''The return values of the system calls are:'', result_line ''cs3013_syscall1'' 0], s2)"
      "interceptor_end s2 = Some s3" by blast
  show ?thesis by (intro exI conjI) (rule g(1), simp add: g(2), rule g(3), simp add: g(4), simp)
qed

end
