(* ===== verification/Spec2Isabelle.thy ===== *)
theory Spec2Isabelle
  imports Mem1 Mem2 Threads CarThreads Humans Interceptor Ancestry Limits Priority ProcGroups Accounting Uts Prctl Callers
begin

text \<open>
  The CS3013 projects: a shell with background jobs (Project1), a kernel module (Project2), two
  multi-threaded simulations (Project3), a simulated paging unit without and with swapping (Project4), and
  the kernel source Project0 extends. The projects are independent programs; the theories of one
  project build on each other as its files do, and all build on \<open>Prelude\<close> and \<open>CLib\<close>.

  \<^bold>\<open>Conventions\<close> (theory \<open>Prelude\<close>). A C function is an Isabelle function on a record of the state it uses. \<open>None\<close> is
  undefined behaviour: an access outside an array, the dereferencing of NULL, a signed overflow in
  \<open>atoi\<close>. Error codes and messages are values. Loops are structural recursion or \<open>function\<close> with a termination
  proof; where a C loop may run for ever it is a \<open>partial_function (option)\<close> and \<open>None\<close> is not returning. No
  definition uses fuel. Programs with several threads are step relations or events over a shared state with a
  program counter per thread; a step is what a thread does from one blocking call or access to shared data
  to the next. \<open>reach\<close> gives the reachable states and the locale \<open>invariant_system\<close> the rule that an inductive
  invariant holds in all of them; it is interpreted in \<open>Threads\<close>, \<open>CarThreads\<close>, \<open>Humans\<close> and \<open>ProcGroups\<close>. What is not part of the
  repository (the operating system, the kernel behind the module, the clock, random numbers) is a
  parameter or a nondeterministic step.

  \<^bold>\<open>Project4\<close>, Part1/pageTable.c and mem.c, Part2/pageTable.c and mem.c.
  \<^item> \<open>Paging\<close>: memory, process table and page-table entries as one-byte bit-fields, shared by both parts.
  \<^item> \<open>PageTable1\<close>: every function of Part1/pageTable.c. \<open>PageTable2\<close>: every function of Part2/pageTable.c, with the
    backing store file. \<open>Swap\<close>, \<open>Victim\<close>, \<open>Reload\<close>, \<open>Demand\<close>: what moving pages out and in keeps.
  \<^item> \<open>CLib\<close>: \<open>fgets\<close>, \<open>strtok\<close>, \<open>atoi\<close>. \<open>Mem\<close>: the command loop both parts share, over the locales \<open>safe_pager\<close> and
    \<open>pager\<close>, which say what the loop needs of \<open>map_page\<close>, \<open>store\<close> and \<open>load\<close>. \<open>Mem1\<close> and \<open>Mem2\<close> interpret them.
  \<^item> Shown: the operations implement an abstract memory of bytes per process, sessions stay in bounds, what
    is stored is read back whatever is swapped in between, the backing store does not run out; page 0 is
    lost when it is moved out in Part2, and a wrong process number is reported but used.

  \<^bold>\<open>Project1\<close>, v0/mc0.c, v1/mc1.c and v2/mc2.c with their options, table and waiting thread.
  \<^item> \<open>CText\<close>, \<open>Shell\<close>: lines, words, decimal output, and processes as the three versions use them. \<open>MidDay0\<close>: v0.
    \<open>Options\<close>: the menu of v1 and v2. \<open>MidDay1\<close>: v1. \<open>Jobs\<close>: the table of background processes of v2. \<open>MidDay2\<close>: the two
    threads of v2 as step relations. \<open>Threads\<close>: their interleavings.
  \<^item> Shown: the arguments that reach \<open>execvp\<close>, what an input line selects, that the job numbers stay
    consecutive, that the threads never wait at the same time and keep the table consistent as long as no
    child exits before it is recorded; the race when one does, and the accesses out of bounds.

  \<^bold>\<open>Project3/Drivers\<close>, constants.c, carThread.c, intersection.c.
  \<^item> \<open>CarQueue\<close>: the queues as linked lists, refined to lists. \<open>Intersection\<close>: turns and quadrants. \<open>CarThreads\<close>: twenty
    threads with the locks and the condition variables.
  \<^item> Shown: the cars in the intersection never share a quadrant, and some car can always go on.

  \<^bold>\<open>Project3/PiratesVNinjas\<close>, department.c, human.c, pvn.c.
  \<^item> \<open>Department\<close>: chairs, visits, the bill, the arguments. \<open>Humans\<close>: the queues and the threads as events.
  \<^item> Shown: there is never a fight and everybody in the department has a chair; the bill adds up unless
    there are more pirates than ninjas; a team that comes late waits for ever; a queue can become a cycle.

  \<^bold>\<open>Project2\<close>, module/mod.c, procAncestry.c and goodbye.c.
  \<^item> \<open>Interceptor\<close>: the search for the system call table, its patching, and the wrapped calls with the virus scan.
    \<open>Ancestry\<close>: the ancestry call and the program that makes it. \<open>Callers\<close>: the program goodbye.c, and with it the other
    small programs: testcalls.c and hello.c of Project0 and seymour.c of Project1.
  \<^item> Shown: loading and unloading leave memory as it was, the search is right, what raises an alarm, what
    procAncestry prints, and what a caller of a redirected call sees while the module comes and goes.

  \<^bold>\<open>Project0\<close>, submission/sys.c.
  \<^item> \<open>Creds\<close>: the calls that set and read the ids of a process, and the three calls the project adds. \<open>Limits\<close>: the
    resource limits. \<open>Priority\<close>: nice values. \<open>ProcGroups\<close>: process groups and sessions. \<open>Accounting\<close>: the
    resources a process has used, times, and the memory of the system. \<open>Uts\<close>: host name, domain name and \<open>uname\<close>. \<open>MemMap\<close>:
    the changes of what is recorded of an address space. \<open>Prctl\<close>: the call \<open>prctl\<close> with all its options.
  \<^item> Shown: without capabilities no sequence of calls gains an id or raises a hard limit, a privileged
    \<open>setuid\<close> cannot be undone, which tasks \<open>setpriority\<close> changes, that a process group never spans two sessions,
    that the names stay terminated arrays and the address space well formed, that the amounts of memory are
    scaled without overflow, and which failing \<open>prctl\<close> changes its task.

  \<^bold>\<open>Bounds.\<close> The sizes of the arrays are those of the source: four processes and frames, 64 bytes, 64 slots of
  the backing store, twenty cars, four chairs, ten ancestors, a hundred children, sixteen limits. In
  \<open>Interceptor\<close> and in the theories of Project0 a long has 32 bits, as on the machine of the projects. The times of \<open>Department\<close> and \<open>Humans\<close>
  and the sums of the bill are integers without a bound: they are seconds and pieces of gold.

  \<^bold>\<open>Not modelled.\<close> The distribution of the sleeping times and the averages of pvn.c are floating-point
  numbers. Sleeping, yielding and the debug output do not change the state that is modelled. Of
  sys.c the variants for 32-bit programs on a 64-bit kernel are left out, which this machine does not
  compile; the locks, the reference counts and the hooks of other parts of the kernel are parameters or omitted;
  syscalls.h has prototypes only, and hello.mod.c is generated. Where a C loop goes on after the end of
  the input with an indeterminate buffer the models stop.
\<close>

section \<open>Process numbers out of range\<close>

lemma no_entry: "length (procTable u) = MAX_PROCESSES \<Longrightarrow> i < 0 \<or> int MAX_PROCESSES \<le> i \<Longrightarrow> arr_get (procTable u) i = None"
  by (auto simp: c_simps)

lemma no_entry1:
  assumes "arr_get (procTable u) i = None"
  shows "map_page1 u i a v = None" "store1 u i a b = None" "load1 u i a = None"
  using assms by (simp_all add: map_page1_def store1_def load1_def)

lemma no_entry2:
  assumes "arr_get (procTable u) i = None"
  shows "map_page2 u i a v = None" "store2 u i a b = None" "load2 u i a = None"
proof -
  have "find_page2 u i n = None" for n using assms by (subst find_page2.simps) simp
  then show "map_page2 u i a v = None" by (simp add: map_page2_def)
  have "table_missing2 u i = None" using assms by (simp add: table_missing2_def)
  then show "store2 u i a b = None" "load2 u i a = None" by (simp_all add: store2_def load2_def)
qed

text \<open>In both parts of Project4 the loop reports a process number that is out of range and, unlike for an
  address, goes on with the command: the process table is then read out of its bounds.\<close>

lemma bad_pid_is_used:
  assumes "i < 0 \<or> int MAX_PROCESSES \<le> i" "0 \<le> a" "a < int VIRT_ADD_SPACE" "0 \<le> v" "v \<le> 1"
    "ins = ''map'' \<or> ins = ''store'' \<or> ins = ''load''"
  shows "length (procTable s) = MAX_PROCESSES \<Longrightarrow> mem_dispatch map_page1 store1 load1 s i (Some ins) a v = None"
    "length (procTable t) = MAX_PROCESSES \<Longrightarrow> mem_dispatch map_page2 store2 load2 t i (Some ins) a v = None"
proof -
  have say: "mem_dispatch mp st ld u i (Some ins) a v =
      (if ins = ''map'' then map_option fst (mp (Paging.say PidOutOfBounds u) i a v)
       else if ins = ''store'' then map_option fst (st (Paging.say PidOutOfBounds u) i a (word_of_int v))
       else map_option fst (ld (Paging.say PidOutOfBounds u) i a))" for mp st ld u
    using assms by (auto simp: mem_dispatch_def)
  show "mem_dispatch map_page1 store1 load1 s i (Some ins) a v = None" if "length (procTable s) = MAX_PROCESSES"
    using no_entry1 [OF no_entry [of "Paging.say PidOutOfBounds s" i]] that assms(1) unfolding say by (simp add: Paging.say_def)
  show "mem_dispatch map_page2 store2 load2 t i (Some ins) a v = None" if "length (procTable t) = MAX_PROCESSES"
    using no_entry2 [OF no_entry [of "Paging.say PidOutOfBounds t" i]] that assms(1) unfolding say by (simp add: Paging.say_def)
qed

end
